(* ===== verification/Prelude.thy ===== *)
theory Prelude
  imports Complex_Main "HOL-Library.Word"
begin

text \<open>
  Shared vocabulary of the development: the machine types of the C sources, C strings as
  byte lists, the few \<^verbatim>\<open>printf\<close> conversions on integers that the sources use, and the
  generic list and word facts the component theories share.

  Conventions.  A \<^verbatim>\<open>uint8_t\<close>/\<^verbatim>\<open>char\<close> is a \<open>byte = 8 word\<close>; \<^verbatim>\<open>uint32_t\<close> and \<^verbatim>\<open>uint64_t\<close>
  are \<open>32 word\<close> and \<open>64 word\<close>.  A NUL-terminated \<^verbatim>\<open>char\<close> array is modelled by the bytes before
  its first NUL (\<open>cstring\<close>): the sources only ever read such arrays as C strings.  A
  \<^verbatim>\<open>double\<close> is its 64-bit IEEE pattern (\<open>dbl\<close>).  String literals are written \<open>lit ''...''\<close>.
\<close>

unbundle bit_operations_syntax

section \<open>Types and literals\<close>

type_synonym byte = "8 word"
type_synonym cstring = "byte list"
type_synonym dbl = "64 word"

named_theorems shrink "facts that a successful read leaves fewer bytes, used for termination"
named_theorems frame "facts that an operation leaves a part of the state alone"

definition lit :: "string \<Rightarrow> byte list" where
  "lit s = map of_char s"

lemma lit_Nil [simp]: "lit [] = []"
  by (simp add: lit_def)

lemma length_lit [simp]: "length (lit s) = length s"
  by (simp add: lit_def)

text \<open>The C string held by an array: the bytes before the first NUL.\<close>

definition cstr :: "byte list \<Rightarrow> cstring" where
  "cstr bs = takeWhile (\<lambda>b. b \<noteq> 0) bs"

definition is_cstr :: "byte list \<Rightarrow> bool" where
  "is_cstr bs \<longleftrightarrow> 0 \<notin> set bs"

lemma is_cstr_cstr [simp, intro]: "is_cstr (cstr bs)"
  by (auto simp: is_cstr_def cstr_def dest: set_takeWhileD)

lemma cstr_id [simp]: "is_cstr bs \<Longrightarrow> cstr bs = bs"
  by (auto simp: is_cstr_def cstr_def takeWhile_eq_all_conv)

lemma cstr_append: "is_cstr a \<Longrightarrow> cstr (a @ s) = a @ cstr s"
  by (induction a) (auto simp: is_cstr_def cstr_def)

lemma length_cstr_le: "length (cstr bs) \<le> length bs"
  by (simp add: cstr_def length_takeWhile_le)

lemma is_cstr_take [intro]: "is_cstr bs \<Longrightarrow> is_cstr (take n bs)"
  by (meson in_set_takeD is_cstr_def)

lemma is_cstr_Nil [simp]: "is_cstr []"
  by (simp add: is_cstr_def)

text \<open>\<^verbatim>\<open>snprintf(dst, cap, "%s", s)\<close> keeps at most \<^verbatim>\<open>cap - 1\<close> bytes of \<open>s\<close>.\<close>

definition snprintf_s :: "nat \<Rightarrow> cstring \<Rightarrow> cstring" where
  "snprintf_s cap s = take (cap - 1) s"

lemma length_snprintf_s: "0 < cap \<Longrightarrow> length (snprintf_s cap s) < cap"
  by (auto simp: snprintf_s_def)

lemma is_cstr_snprintf_s [intro, simp]: "is_cstr s \<Longrightarrow> is_cstr (snprintf_s cap s)"
  by (auto simp: snprintf_s_def)

lemma snprintf_s_id [simp]: "length s < cap \<Longrightarrow> snprintf_s cap s = s"
  by (simp add: snprintf_s_def)

section \<open>Integer conversions of printf\<close>

text \<open>\<^verbatim>\<open>%u\<close>/\<^verbatim>\<open>%llu\<close> and \<^verbatim>\<open>%d\<close>/\<^verbatim>\<open>%ld\<close>/\<^verbatim>\<open>%lld\<close> print decimal digits, the latter with a sign.\<close>

function dec_digits :: "int \<Rightarrow> byte list" where
  "dec_digits n = (if n < 10 then [48 + word_of_int n] else dec_digits (n div 10) @ [48 + word_of_int (n mod 10)])"
  by pat_completeness auto
termination by (relation "measure nat") auto

declare dec_digits.simps [simp del]

definition dec_nat :: "nat \<Rightarrow> byte list" where
  "dec_nat n = dec_digits (int n)"

definition dec_int :: "int \<Rightarrow> byte list" where
  "dec_int i = (if i < 0 then 45 # dec_digits (- i) else dec_digits i)"

text \<open>\<^verbatim>\<open>%x\<close> of one nibble and \<^verbatim>\<open>%04x\<close> of a byte.\<close>

definition hex_digit :: "byte \<Rightarrow> byte" where
  "hex_digit n = (if n < 10 then 48 + n else 87 + n)"

definition hex04 :: "byte \<Rightarrow> byte list" where
  "hex04 c = [48, 48, hex_digit (drop_bit 4 c), hex_digit (c AND 0x0f)]"

section \<open>Generic facts\<close>

lemma word8_and_7f_bound: "unat (b AND 0x7f :: byte) < 128"
proof -
  have "b AND 0x7f \<le> (0x7f :: byte)"
    by (rule word_and_le1)
  then have "unat (b AND 0x7f) \<le> unat (0x7f :: byte)"
    by (simp add: word_le_nat_alt)
  then show ?thesis by simp
qed

lemma takeWhile_append_stop:
  "\<forall>x\<in>set xs. P x \<Longrightarrow> \<not> P y \<Longrightarrow> takeWhile P (xs @ y # ys) = xs"
  by (simp add: takeWhile_append2)

end
