(* ===== verification/World.thy ===== *)
theory World
  imports Prelude
begin

text \<open>
  What the daemon's C code sees of its surroundings: the files it names, the clock, the
  environment and the PostgreSQL client library.

  Files are a map from paths to contents.  Every file operation first consults the script
  \<open>w_faults\<close>, so that a theorem about all scripts is a theorem about every pattern of I/O
  failures; an exhausted script means that nothing fails any more.  The entry \<open>Some k\<close> makes an
  operation fail; a write then leaves its first \<open>k\<close> bytes behind and a read ends after \<open>k\<close> bytes.
  A stdio write error is taken to show at the \<^verbatim>\<open>fprintf\<close>/\<^verbatim>\<open>fclose\<close> that follows it.

  libpq is not part of the sources: its calls are the fields of a record \<open>libpq\<close> over an
  unspecified server state \<open>'d\<close>, and the definitions take that record as an argument.  A process
  that calls \<^verbatim>\<open>exit(EXIT_FAILURE)\<close> is \<open>Inl\<close> of the world it leaves behind.
\<close>

section \<open>The world\<close>

record 'd world =
  w_files :: "cstring \<Rightarrow> byte list option"
  w_faults :: "nat option list"
  w_now :: int
  w_env :: "cstring \<Rightarrow> cstring option"
  w_db :: 'd

section \<open>Files\<close>

datatype io_result = IoOk | IoNoEnt | IoErr

definition next_fault :: "'d world \<Rightarrow> nat option \<times> 'd world" where
  "next_fault w =
     (case w_faults w of
        [] \<Rightarrow> (None, w)
      | f # fs \<Rightarrow> (f, w\<lparr>w_faults := fs\<rparr>))"

definition fs_put :: "cstring \<Rightarrow> byte list option \<Rightarrow> 'd world \<Rightarrow> 'd world" where
  "fs_put p c w = w\<lparr>w_files := (w_files w)(p := c)\<rparr>"

definition fs_rename :: "cstring \<Rightarrow> cstring \<Rightarrow> 'd world \<Rightarrow> io_result \<times> 'd world" where
  "fs_rename src dst w =
     (case next_fault w of (f, w1) \<Rightarrow>
        if f \<noteq> None then (IoErr, w1)
        else case w_files w1 src of
               None \<Rightarrow> (IoNoEnt, w1)
             | Some c \<Rightarrow> (IoOk, fs_put dst (Some c) (fs_put src None w1)))"

definition fs_unlink :: "cstring \<Rightarrow> 'd world \<Rightarrow> io_result \<times> 'd world" where
  "fs_unlink p w =
     (case next_fault w of (f, w1) \<Rightarrow>
        if f \<noteq> None then (IoErr, w1)
        else if w_files w1 p = None then (IoNoEnt, w1)
        else (IoOk, fs_put p None w1))"

text \<open>\<^verbatim>\<open>fopen\<close> in the modes \<^verbatim>\<open>"r"\<close>, \<^verbatim>\<open>"a"\<close> and \<^verbatim>\<open>"w"\<close>: whether it succeeds.\<close>

definition fs_open_read :: "cstring \<Rightarrow> 'd world \<Rightarrow> bool \<times> 'd world" where
  "fs_open_read p w =
     (case next_fault w of (f, w1) \<Rightarrow> (f = None \<and> w_files w1 p \<noteq> None, w1))"

definition fs_open_append :: "cstring \<Rightarrow> 'd world \<Rightarrow> bool \<times> 'd world" where
  "fs_open_append p w =
     (case next_fault w of (f, w1) \<Rightarrow>
        if f \<noteq> None then (False, w1)
        else (True, fs_put p (Some (case w_files w1 p of None \<Rightarrow> [] | Some c \<Rightarrow> c)) w1))"

definition fs_open_trunc :: "cstring \<Rightarrow> 'd world \<Rightarrow> bool \<times> 'd world" where
  "fs_open_trunc p w =
     (case next_fault w of (f, w1) \<Rightarrow>
        if f \<noteq> None then (False, w1) else (True, fs_put p (Some []) w1))"

text \<open>All that the reads of an open stream deliver before they report end of file or an error.\<close>

definition fs_read_all :: "cstring \<Rightarrow> 'd world \<Rightarrow> byte list \<times> 'd world" where
  "fs_read_all p w =
     (case next_fault w of (f, w1) \<Rightarrow>
        let c = (case w_files w1 p of None \<Rightarrow> [] | Some c \<Rightarrow> c)
        in (case f of None \<Rightarrow> c | Some k \<Rightarrow> take k c, w1))"

text \<open>All writes to a stream up to its \<^verbatim>\<open>fclose\<close>; the flag is the success of the \<^verbatim>\<open>fclose\<close>.\<close>

definition fs_write_close :: "cstring \<Rightarrow> byte list \<Rightarrow> 'd world \<Rightarrow> bool \<times> 'd world" where
  "fs_write_close p bs w =
     (case next_fault w of (f, w1) \<Rightarrow>
        let c = (case w_files w1 p of None \<Rightarrow> [] | Some c \<Rightarrow> c)
        in (f = None, fs_put p (Some (c @ (case f of None \<Rightarrow> bs | Some k \<Rightarrow> take k bs))) w1))"

lemmas fs_defs =
  next_fault_def fs_put_def fs_rename_def fs_unlink_def fs_open_read_def fs_open_append_def
  fs_open_trunc_def fs_read_all_def fs_write_close_def

section \<open>libpq\<close>

text \<open>
  Connections are handles.  \<open>pq_exec\<close> answers with the status of the result, and for a result
  with tuples with its first column (\<open>None\<close> is SQL NULL).
\<close>

datatype pq_result = PgCommandOk | PgTuplesOk "cstring option list" | PgError

record 'd libpq =
  pq_connectdb :: "cstring \<Rightarrow> 'd \<Rightarrow> nat option \<times> 'd"
  pq_status_ok :: "nat \<Rightarrow> 'd \<Rightarrow> bool"
  pq_reset :: "nat \<Rightarrow> 'd \<Rightarrow> 'd"
  pq_finish :: "nat \<Rightarrow> 'd \<Rightarrow> 'd"
  pq_exec :: "nat \<Rightarrow> cstring \<Rightarrow> 'd \<Rightarrow> pq_result \<times> 'd"
  pq_prepare :: "nat \<Rightarrow> cstring \<Rightarrow> cstring \<Rightarrow> nat \<Rightarrow> 'd \<Rightarrow> bool \<times> 'd"
  pq_exec_prepared :: "nat \<Rightarrow> cstring \<Rightarrow> cstring list \<Rightarrow> 'd \<Rightarrow> bool \<times> 'd"
  pq_escape_identifier :: "nat \<Rightarrow> cstring \<Rightarrow> 'd \<Rightarrow> cstring option"
  pq_escape_literal :: "nat \<Rightarrow> cstring \<Rightarrow> 'd \<Rightarrow> cstring option"

section \<open>Processes that exit\<close>

definition and_then :: "'w + 'a \<Rightarrow> ('a \<Rightarrow> 'w + 'b) \<Rightarrow> 'w + 'b" where
  "and_then m k = (case m of Inl w \<Rightarrow> Inl w | Inr x \<Rightarrow> k x)"

lemma and_then_simps [simp]:
  "and_then (Inl w) k = Inl w"
  "and_then (Inr x) k = k x"
  by (simp_all add: and_then_def)

lemma and_then_Inr: "and_then m k = Inr y \<longleftrightarrow> (\<exists>x. m = Inr x \<and> k x = Inr y)"
  by (cases m) auto

end
