(* ===== verification/Util.thy ===== *)
theory Util
  imports Prelude
begin

text \<open>
  The string helpers of \<^verbatim>\<open>src/util.c\<close> and the JSON escaping of spill records,
  \<^verbatim>\<open>pw_json_escape\<close> of \<^verbatim>\<open>src/db_buffer.c\<close>.
\<close>

unbundle bit_operations_syntax

section \<open>Labels\<close>

definition starts_with :: "cstring \<Rightarrow> cstring \<Rightarrow> bool" where
  "starts_with s pfx = (take (length pfx) s = pfx)"

text \<open>\<^verbatim>\<open>isalnum\<close> in the C locale.\<close>

definition isalnum :: "byte \<Rightarrow> bool" where
  "isalnum c \<longleftrightarrow> 48 \<le> c \<and> c \<le> 57 \<or> 65 \<le> c \<and> c \<le> 90 \<or> 97 \<le> c \<and> c \<le> 122"

definition validate_identifier :: "cstring \<Rightarrow> bool" where
  "validate_identifier label =
     (if length label = 0 \<or> length label \<ge> 100 then False
      else list_all (\<lambda>c. isalnum c \<or> c = 0x5f) label)"

section \<open>Escaping\<close>

text \<open>What replaces one character; \<open>None\<close> keeps it.\<close>

definition json_rep :: "byte \<Rightarrow> byte list option" where
  "json_rep c =
     (if c = 0x5c then Some [0x5c, 0x5c]
      else if c = 0x22 then Some [0x5c, 0x22]
      else if c = 0x0a then Some (0x5c # lit ''n'')
      else if c = 0x0d then Some (0x5c # lit ''r'')
      else if c = 0x09 then Some (0x5c # lit ''t'')
      else if c < 0x20 then Some (0x5c # lit ''u'' @ hex04 c)
      else None)"

text \<open>The text escaped so far and the rest of the input; an overflow empties the output.\<close>

fun json_escape_loop :: "nat \<Rightarrow> byte list \<Rightarrow> cstring \<Rightarrow> int \<times> cstring" where
  "json_escape_loop out_cap out [] = (0, out)"
| "json_escape_loop out_cap out (c # p) =
     (case json_rep c of
        Some rep \<Rightarrow>
          if length out + length rep + 1 > out_cap then (- 1, [])
          else json_escape_loop out_cap (out @ rep) p
      | None \<Rightarrow>
          if length out + 2 > out_cap then (- 1, [])
          else json_escape_loop out_cap (out @ [c]) p)"

text \<open>With \<^verbatim>\<open>out_cap == 0\<close> there is no output array to leave anything in.\<close>

definition pw_json_escape :: "nat \<Rightarrow> cstring \<Rightarrow> int \<times> cstring" where
  "pw_json_escape out_cap inp = (if out_cap = 0 then (- 1, []) else json_escape_loop out_cap [] inp)"

section \<open>What escaping yields\<close>

definition json_esc :: "cstring \<Rightarrow> cstring" where
  "json_esc s = concat (map (\<lambda>c. case json_rep c of Some rep \<Rightarrow> rep | None \<Rightarrow> [c]) s)"

lemma json_esc_simps [simp]:
  "json_esc [] = []"
  "json_esc (c # s) = (case json_rep c of Some rep \<Rightarrow> rep | None \<Rightarrow> [c]) @ json_esc s"
  by (simp_all add: json_esc_def)

lemma json_escape_loop_eq:
  "length out < cap \<Longrightarrow>
   json_escape_loop cap out s =
     (if length out + length (json_esc s) < cap then (0, out @ json_esc s) else (- 1, []))"
proof (induction cap out s rule: json_escape_loop.induct)
  case (2 cap out c p)
  show ?case
  proof (cases "json_rep c")
    case None
    then show ?thesis
      using "2.IH" "2.prems" by (cases "length out + 2 > cap") auto
  next
    case (Some rep)
    then show ?thesis
      using "2.IH" "2.prems" by (cases "length out + length rep + 1 > cap") auto
  qed
qed simp

lemma pw_json_escape_eq:
  "pw_json_escape cap s = (if length (json_esc s) < cap then (0, json_esc s) else (- 1, []))"
  using json_escape_loop_eq[of "[]" cap s] by (simp add: pw_json_escape_def)

text \<open>Text without special characters is kept as it is.\<close>

lemma json_esc_plain: "(\<And>c. c \<in> set s \<Longrightarrow> json_rep c = None) \<Longrightarrow> json_esc s = s"
  by (induction s) auto

end
