(* ===== verification/CDouble.thy ===== *)
theory CDouble
  imports Prelude
begin

text \<open>
  The part of the C library's floating-point support that the sources use: rounding a rational
  to the nearest IEEE binary64 value (ties to even), the conversions from and to integers,
  \<^verbatim>\<open>printf\<close>'s \<^verbatim>\<open>%.Pg\<close> and \<^verbatim>\<open>%.Pf\<close>, and \<^verbatim>\<open>strtod\<close>.  A \<^verbatim>\<open>double\<close> is its 64-bit pattern; the exact value of a
  finite pattern is a fraction of integers, so every conversion is integer arithmetic.
\<close>

unbundle bit_operations_syntax

section \<open>Patterns and their exact values\<close>

definition dbl_neg :: "dbl \<Rightarrow> bool" where
  "dbl_neg d \<longleftrightarrow> 2 ^ 63 \<le> uint d"

definition dbl_exp :: "dbl \<Rightarrow> int" where
  "dbl_exp d = uint d div 2 ^ 52 mod 2 ^ 11"

definition dbl_man :: "dbl \<Rightarrow> int" where
  "dbl_man d = uint d mod 2 ^ 52"

text \<open>Numerator and denominator of the magnitude of a finite pattern.\<close>

definition dbl_ratio :: "dbl \<Rightarrow> int \<times> int" where
  "dbl_ratio d =
     (let e = dbl_exp d; m = dbl_man d
      in if e = 0 then (m, 2 ^ 1074)
         else if 1075 \<le> e then ((2 ^ 52 + m) * 2 ^ nat (e - 1075), 1)
         else (2 ^ 52 + m, 2 ^ nat (1075 - e)))"

definition dbl_finite :: "dbl \<Rightarrow> bool" where
  "dbl_finite d \<longleftrightarrow> dbl_exp d \<noteq> 2047"

definition dbl_val :: "dbl \<Rightarrow> real" where
  "dbl_val d = (if dbl_neg d then - 1 else 1) * of_int (fst (dbl_ratio d)) / of_int (snd (dbl_ratio d))"

section \<open>Rounding\<close>

definition round_half_even :: "int \<Rightarrow> int \<Rightarrow> int" where
  "round_half_even n d =
     (let q = n div d; r = n mod d
      in if 2 * r < d \<or> 2 * r = d \<and> even q then q else q + 1)"

function bit_len :: "int \<Rightarrow> nat" where
  "bit_len n = (if n \<le> 0 then 0 else Suc (bit_len (n div 2)))"
  by pat_completeness auto
termination by (relation "measure nat") auto

declare bit_len.simps [simp del]

text \<open>\<open>num / den\<close> scaled by \<open>2 ^ (- e)\<close>, rounded to an integer.\<close>

definition scale_round :: "int \<Rightarrow> int \<Rightarrow> int \<Rightarrow> int" where
  "scale_round num den e =
     (if 0 \<le> e then round_half_even num (den * 2 ^ nat e)
      else round_half_even (num * 2 ^ nat (- e)) den)"

text \<open>\<open>\<lfloor>log2 (num / den)\<rfloor>\<close> for positive \<open>num\<close> and \<open>den\<close>.\<close>

definition floor_log2 :: "int \<Rightarrow> int \<Rightarrow> int" where
  "floor_log2 num den =
     (let e = int (bit_len num) - int (bit_len den)
      in if (if 0 \<le> e then den * 2 ^ nat e \<le> num else den \<le> num * 2 ^ nat (- e)) then e else e - 1)"

definition dbl_round :: "bool \<Rightarrow> int \<Rightarrow> int \<Rightarrow> dbl" where
  "dbl_round neg num den =
     (let s = (if neg then 2 ^ 63 else 0)
      in if num = 0 then word_of_int s
         else
           let e = max (floor_log2 num den - 52) (- 1074);
               q = scale_round num den e;
               mag = (if q < 2 ^ 52 then q else (e + 1074) * 2 ^ 52 + q)
           in word_of_int (s + min mag (2047 * 2 ^ 52)))"

definition dbl_of_int :: "int \<Rightarrow> dbl" where
  "dbl_of_int i = dbl_round (i < 0) \<bar>i\<bar> 1"

text \<open>\<^verbatim>\<open>(double)(int64_t)bits\<close>\<close>

definition dbl_of_int64 :: "64 word \<Rightarrow> dbl" where
  "dbl_of_int64 bits = dbl_of_int (sint bits)"

section \<open>printf\<close>

function log10_up :: "int \<Rightarrow> int \<Rightarrow> int" where
  "log10_up num den = (if 0 < den \<and> 10 * den \<le> num then 1 + log10_up num (10 * den) else 0)"
  by pat_completeness auto
termination by (relation "measure (\<lambda>(num, den). nat (num - den))") auto

function log10_down :: "int \<Rightarrow> int \<Rightarrow> int" where
  "log10_down num den = (if 0 < num \<and> num < den then log10_down (10 * num) den - 1 else 0)"
  by pat_completeness auto
termination by (relation "measure (\<lambda>(num, den). nat (den - num))") auto

declare log10_up.simps [simp del] log10_down.simps [simp del]

definition floor_log10 :: "int \<Rightarrow> int \<Rightarrow> int" where
  "floor_log10 num den = (if den \<le> num then log10_up num den else log10_down num den)"

text \<open>The decimal exponent and the \<open>p\<close> significant digits that \<^verbatim>\<open>%e\<close> would print.\<close>

definition sci_digits :: "nat \<Rightarrow> int \<Rightarrow> int \<Rightarrow> int \<times> int" where
  "sci_digits p num den =
     (let x = floor_log10 num den;
          s = int p - 1 - x;
          d = (if 0 \<le> s then round_half_even (num * 10 ^ nat s) den
               else round_half_even num (den * 10 ^ nat (- s)))
      in if d = 10 ^ p then (x + 1, 10 ^ (p - 1)) else (x, d))"

definition strip_zeros :: "byte list \<Rightarrow> byte list" where
  "strip_zeros bs = rev (dropWhile (\<lambda>b. b = 48) (rev bs))"

definition with_point :: "byte list \<Rightarrow> byte list \<Rightarrow> byte list" where
  "with_point ip fr = (let f = strip_zeros fr in if f = [] then ip else ip @ 46 # f)"

text \<open>\<^verbatim>\<open>%.pg\<close>: fixed notation for exponents from \<open>-4\<close> to \<open>p - 1\<close>, else scientific.\<close>

definition fmt_g :: "nat \<Rightarrow> dbl \<Rightarrow> byte list" where
  "fmt_g p d =
     (let sgn = (if dbl_neg d then [45] else [])
      in if \<not> dbl_finite d then sgn @ (if dbl_man d = 0 then lit ''inf'' else lit ''nan'')
         else case dbl_ratio d of (num, den) \<Rightarrow>
           if num = 0 then sgn @ [48]
           else case sci_digits p num den of (x, ds) \<Rightarrow>
             let digits = dec_digits ds
             in if x < - 4 \<or> int p \<le> x then
                  sgn @ with_point (take 1 digits) (drop 1 digits) @ [101, if x < 0 then 45 else 43] @
                    (if \<bar>x\<bar> < 10 then [48] else []) @ dec_digits \<bar>x\<bar>
                else if 0 \<le> x then
                  sgn @ with_point (take (nat x + 1) digits) (drop (nat x + 1) digits)
                else sgn @ with_point [48] (replicate (nat (- x) - 1) 48 @ digits))"

text \<open>\<^verbatim>\<open>%.pf\<close>\<close>

definition fmt_f :: "nat \<Rightarrow> dbl \<Rightarrow> byte list" where
  "fmt_f p d =
     (let sgn = (if dbl_neg d then [45] else [])
      in if \<not> dbl_finite d then sgn @ (if dbl_man d = 0 then lit ''inf'' else lit ''nan'')
         else case dbl_ratio d of (num, den) \<Rightarrow>
           let s = round_half_even (num * 10 ^ p) den;
               fr = dec_digits (s mod 10 ^ p)
           in sgn @ dec_digits (s div 10 ^ p) @ 46 # replicate (p - length fr) 48 @ fr)"

section \<open>Arithmetic with integers\<close>

definition dbl_of_uint64 :: "64 word \<Rightarrow> dbl" where
  "dbl_of_uint64 n = dbl_of_int (uint n)"

text \<open>The product with the positive rational \<open>a / b\<close>; infinities and NaNs are kept.\<close>

definition dbl_scale :: "int \<Rightarrow> int \<Rightarrow> dbl \<Rightarrow> dbl" where
  "dbl_scale a b d =
     (if \<not> dbl_finite d then d
      else case dbl_ratio d of (num, den) \<Rightarrow> dbl_round (dbl_neg d) (num * a) (den * b))"

text \<open>
  Product and quotient of finite patterns, with a divisor other than zero; the percentages below
  need no others.
\<close>

definition dbl_mul :: "dbl \<Rightarrow> dbl \<Rightarrow> dbl" where
  "dbl_mul x y =
     (case (dbl_ratio x, dbl_ratio y) of
        ((n1, d1), (n2, d2)) \<Rightarrow> dbl_round (dbl_neg x \<noteq> dbl_neg y) (n1 * n2) (d1 * d2))"

definition dbl_div :: "dbl \<Rightarrow> dbl \<Rightarrow> dbl" where
  "dbl_div x y =
     (case (dbl_ratio x, dbl_ratio y) of
        ((n1, d1), (n2, d2)) \<Rightarrow> dbl_round (dbl_neg x \<noteq> dbl_neg y) (n1 * d2) (d1 * n2))"

text \<open>\<open>ns / 1e9\<close> and \<open>ts * 1e9\<close>; the constant is exactly representable.\<close>

definition ns_to_sec :: "64 word \<Rightarrow> dbl" where
  "ns_to_sec ns = dbl_scale 1 1000000000 (dbl_of_uint64 ns)"

definition sec_to_ns :: "dbl \<Rightarrow> dbl" where
  "sec_to_ns d = dbl_scale 1000000000 1 d"

text \<open>
  Conversion to an integer truncates.  Outside the range the C standard leaves the result
  undefined; the model takes what the x86-64 conversion instructions deliver.
\<close>

definition dbl_trunc :: "dbl \<Rightarrow> int" where
  "dbl_trunc d = (case dbl_ratio d of (num, den) \<Rightarrow> (if dbl_neg d then - (num div den) else num div den))"

definition dbl_to_signed :: "nat \<Rightarrow> dbl \<Rightarrow> int" where
  "dbl_to_signed w d =
     (if dbl_finite d \<and> - (2 ^ (w - 1)) \<le> dbl_trunc d \<and> dbl_trunc d < 2 ^ (w - 1) then dbl_trunc d
      else - (2 ^ (w - 1)))"

definition dbl_to_int32 :: "dbl \<Rightarrow> int" where
  "dbl_to_int32 d = dbl_to_signed 32 d"

definition dbl_to_long :: "dbl \<Rightarrow> int" where
  "dbl_to_long d = dbl_to_signed 64 d"

definition dbl_to_uint64 :: "dbl \<Rightarrow> 64 word" where
  "dbl_to_uint64 d =
     (if dbl_finite d \<and> \<not> dbl_neg d \<and> 2 ^ 63 \<le> dbl_trunc d \<and> dbl_trunc d < 2 ^ 64 then word_of_int (dbl_trunc d)
      else if \<not> dbl_neg d \<and> (\<not> dbl_finite d \<and> dbl_man d = 0 \<or> dbl_finite d \<and> 2 ^ 64 \<le> dbl_trunc d) then 0
      else word_of_int (dbl_to_signed 64 d))"

section \<open>strtod\<close>

definition is_digit :: "byte \<Rightarrow> bool" where
  "is_digit c \<longleftrightarrow> 48 \<le> c \<and> c \<le> 57"

definition is_space :: "byte \<Rightarrow> bool" where
  "is_space c \<longleftrightarrow> c = 32 \<or> 9 \<le> c \<and> c \<le> 13"

definition hex_value :: "byte \<Rightarrow> int option" where
  "hex_value c =
     (if is_digit c then Some (uint c - 48)
      else if 97 \<le> c \<and> c \<le> 102 then Some (uint c - 87)
      else if 65 \<le> c \<and> c \<le> 70 then Some (uint c - 55)
      else None)"

definition digit_value :: "int \<Rightarrow> byte \<Rightarrow> int option" where
  "digit_value base c = (if base = 16 then hex_value c else if is_digit c then Some (uint c - 48) else None)"

text \<open>The value of the leading digits, how many there are, and what follows them.\<close>

fun scan_digits :: "int \<Rightarrow> byte list \<Rightarrow> int \<Rightarrow> nat \<Rightarrow> int \<times> nat \<times> byte list" where
  "scan_digits base [] v n = (v, n, [])"
| "scan_digits base (c # s) v n =
     (case digit_value base c of
        None \<Rightarrow> (v, n, c # s)
      | Some d \<Rightarrow> scan_digits base s (base * v + d) (n + 1))"

text \<open>\<^verbatim>\<open>[+-]digits\<close> after the exponent letter; without digits the letter is not consumed.\<close>

definition scan_exp :: "byte list \<Rightarrow> (int \<times> byte list) option" where
  "scan_exp s =
     (let (neg, t) = (case s of c # r \<Rightarrow> if c = 45 then (True, r) else if c = 43 then (False, r) else (False, s)
                               | [] \<Rightarrow> (False, s))
      in case scan_digits 10 t 0 0 of (v, n, r) \<Rightarrow> if n = 0 then None else Some (if neg then - v else v, r))"

definition rat_pow :: "int \<Rightarrow> int \<Rightarrow> int \<times> int" where
  "rat_pow b e = (if 0 \<le> e then (b ^ nat e, 1) else (1, b ^ nat (- e)))"

text \<open>
  An unsigned number: numerator, denominator and the rest of the text; \<open>base\<close> 10 with a decimal
  exponent, or 16 with a binary one.
\<close>

definition scan_number :: "int \<Rightarrow> byte list \<Rightarrow> (int \<times> int \<times> byte list) option" where
  "scan_number base s =
     (case scan_digits base s 0 0 of (ip, n, s1) \<Rightarrow>
        let (v, m, s2) =
              (case s1 of
                 c # r \<Rightarrow> if c = 46 then (case scan_digits base r ip 0 of (v, k, r2) \<Rightarrow>
                                           if n + k = 0 then (ip, 0, s1) else (v, k, r2))
                         else (ip, 0, s1)
               | [] \<Rightarrow> (ip, 0, s1))
        in if n + m = 0 then None
           else
             let letters = (if base = 16 then [112, 80] else [101, 69]);
                 scale = (if base = 16 then 2 else 10);
                 digit_exp = (if base = 16 then - 4 * int m else - int m);
                 (e, s3) = (case s2 of
                              c # r \<Rightarrow> if c \<in> set letters then
                                         (case scan_exp r of None \<Rightarrow> (0, s2) | Some er \<Rightarrow> er)
                                       else (0, s2)
                            | [] \<Rightarrow> (0, s2));
                 (pn, pd) = rat_pow scale (digit_exp + e)
             in Some (v * pn, pd, s3))"

definition lower :: "byte \<Rightarrow> byte" where
  "lower c = (if 65 \<le> c \<and> c \<le> 90 then c + 32 else c)"

definition ci_prefix :: "byte list \<Rightarrow> byte list \<Rightarrow> bool" where
  "ci_prefix pre s \<longleftrightarrow> map lower (take (length pre) s) = pre"

definition dbl_inf :: "bool \<Rightarrow> dbl" where
  "dbl_inf neg = word_of_int ((if neg then 2 ^ 63 else 0) + 2047 * 2 ^ 52)"

definition dbl_nan :: "bool \<Rightarrow> dbl" where
  "dbl_nan neg = word_of_int ((if neg then 2 ^ 63 else 0) + 2047 * 2 ^ 52 + 2 ^ 51)"

text \<open>
  \<^verbatim>\<open>strtod(s, &endp)\<close>: the value and the text at \<^verbatim>\<open>endp\<close>; \<open>None\<close> when nothing was converted
  (the value is 0 then).  A payload after \<^verbatim>\<open>nan\<close> is read but ignored.
\<close>

definition strtod :: "cstring \<Rightarrow> (dbl \<times> cstring) option" where
  "strtod s =
     (let t = dropWhile is_space s;
          (neg, u) = (case t of c # r \<Rightarrow> if c = 45 then (True, r) else if c = 43 then (False, r) else (False, t)
                               | [] \<Rightarrow> (False, t))
      in if ci_prefix (lit ''infinity'') u then Some (dbl_inf neg, drop 8 u)
         else if ci_prefix (lit ''inf'') u then Some (dbl_inf neg, drop 3 u)
         else if ci_prefix (lit ''nan'') u then
           (let r = drop 3 u; p = takeWhile (\<lambda>c. is_digit c \<or> lower c \<ge> 97 \<and> lower c \<le> 122 \<or> c = 95) (drop 1 r)
            in Some (dbl_nan neg,
                     if take 1 r = [40] \<and> take 1 (drop (1 + length p) r) = [41] then drop (2 + length p) r else r))
         else
           let hex = (if ci_prefix (lit ''0x'') u then scan_number 16 (drop 2 u) else None)
           in case hex of
                Some (num, den, r) \<Rightarrow> Some (dbl_round neg num den, r)
              | None \<Rightarrow>
                  (case scan_number 10 u of
                     None \<Rightarrow> None
                   | Some (num, den, r) \<Rightarrow> Some (dbl_round neg num den, r)))"

end
