(* ===== verification/Db.thy ===== *)
theory Db
  imports World Util CDouble
begin

text \<open>
  The database layer \<^verbatim>\<open>src/db.c\<close>: connections, housekeeping settings, and the SQL that creates
  schemas, tables, triggers and jobs.  The functions act on the server state \<open>'d\<close> through the
  \<open>libpq\<close> record; a connection is a handle, \<^verbatim>\<open>NULL\<close> is \<open>None\<close>.  The SQL texts are the ones of
  the source, each cut to its buffer as \<^verbatim>\<open>snprintf\<close> does; in a text \<open>sql ''...''\<close> a backquote
  stands for the SQL quote and a tilde for a newline.  Messages to \<^verbatim>\<open>stderr\<close> are left out.
\<close>

section \<open>Housekeeping\<close>

record housekeeping =
  g_retention_hours :: int
  g_inactive_hours :: int

definition PW_DEFAULT_RETENTION_HOURS :: int where "PW_DEFAULT_RETENTION_HOURS = 168"
definition PW_DEFAULT_INACTIVE_HOURS :: int where "PW_DEFAULT_INACTIVE_HOURS = 720"

definition housekeeping_init :: housekeeping where
  "housekeeping_init =
     \<lparr>g_retention_hours = PW_DEFAULT_RETENTION_HOURS, g_inactive_hours = PW_DEFAULT_INACTIVE_HOURS\<rparr>"

definition db_set_housekeeping :: "int \<Rightarrow> int \<Rightarrow> housekeeping \<Rightarrow> housekeeping" where
  "db_set_housekeeping retention_hours inactive_hours g =
     (let g1 = (if retention_hours > 0 then g\<lparr>g_retention_hours := retention_hours\<rparr> else g)
      in if inactive_hours > 0 then g1\<lparr>g_inactive_hours := inactive_hours\<rparr> else g1)"

section \<open>Connecting\<close>

definition db_connect :: "'d libpq \<Rightarrow> cstring \<Rightarrow> 'd world \<Rightarrow> nat option \<times> 'd world" where
  "db_connect pq conninfo w =
     (case pq_connectdb pq conninfo (w_db w) of
        (None, d) \<Rightarrow> (None, w\<lparr>w_db := d\<rparr>)
      | (Some c, d) \<Rightarrow>
          if \<not> pq_status_ok pq c d then (None, w\<lparr>w_db := pq_finish pq c d\<rparr>)
          else (Some c, w\<lparr>w_db := d\<rparr>))"

definition db_reconnect ::
    "'d libpq \<Rightarrow> nat option \<Rightarrow> cstring \<Rightarrow> 'd world \<Rightarrow> bool \<times> nat option \<times> 'd world" where
  "db_reconnect pq conn conninfo w =
     (let fresh = (\<lambda>w. case db_connect pq conninfo w of (c, w1) \<Rightarrow>
                     (c \<noteq> None \<and> pq_status_ok pq (the c) (w_db w1), c, w1))
      in case conn of
           None \<Rightarrow> fresh w
         | Some c \<Rightarrow>
             if pq_status_ok pq c (w_db w) then (True, Some c, w)
             else
               let w1 = w\<lparr>w_db := pq_reset pq c (w_db w)\<rparr>
               in if pq_status_ok pq c (w_db w1) then (True, Some c, w1)
                  else fresh (w1\<lparr>w_db := pq_finish pq c (w_db w1)\<rparr>))"

lemma db_connect_frame [frame]:
  "db_connect pq ci w = (c, w1) \<Longrightarrow>
     w_files w1 = w_files w \<and> w_faults w1 = w_faults w \<and> w_now w1 = w_now w \<and> w_env w1 = w_env w"
  by (auto simp: db_connect_def split: prod.splits option.splits if_splits)

lemma db_connect_ok: "db_connect pq ci w = (Some c, w1) \<Longrightarrow> pq_status_ok pq c (w_db w1)"
  by (auto simp: db_connect_def split: prod.splits option.splits if_splits)

lemma db_reconnect_frame [frame]:
  "db_reconnect pq c ci w = (ok, c1, w1) \<Longrightarrow>
     w_files w1 = w_files w \<and> w_faults w1 = w_faults w \<and> w_now w1 = w_now w \<and> w_env w1 = w_env w"
  by (auto simp: db_reconnect_def Let_def split: prod.splits option.splits if_splits dest!: db_connect_frame)

lemma db_reconnect_ok:
  "db_reconnect pq c ci w = (ok, c1, w1) \<Longrightarrow> ok \<longleftrightarrow> (\<exists>h. c1 = Some h \<and> pq_status_ok pq h (w_db w1))"
  by (auto simp: db_reconnect_def Let_def split: prod.splits option.splits if_splits dest: db_connect_ok)

section \<open>Commands\<close>

definition sql :: "string \<Rightarrow> byte list" where
  "sql s = map (\<lambda>c. if c = CHR 0x60 then 0x27 else if c = CHR 0x7E then 0x0a else of_char c) s"

lemma length_sql [simp]: "length (sql s) = length s"
  by (simp add: sql_def)

definition PQexec :: "'d libpq \<Rightarrow> nat \<Rightarrow> cstring \<Rightarrow> 'd world \<Rightarrow> pq_result \<times> 'd world" where
  "PQexec pq c q w = (case pq_exec pq c q (w_db w) of (r, d) \<Rightarrow> (r, w\<lparr>w_db := d\<rparr>))"

definition PQprepare :: "'d libpq \<Rightarrow> nat \<Rightarrow> cstring \<Rightarrow> cstring \<Rightarrow> nat \<Rightarrow> 'd world \<Rightarrow> bool \<times> 'd world" where
  "PQprepare pq c stmt q n w = (case pq_prepare pq c stmt q n (w_db w) of (ok, d) \<Rightarrow> (ok, w\<lparr>w_db := d\<rparr>))"

definition PQexecPrepared :: "'d libpq \<Rightarrow> nat \<Rightarrow> cstring \<Rightarrow> cstring list \<Rightarrow> 'd world \<Rightarrow> bool \<times> 'd world" where
  "PQexecPrepared pq c stmt vals w =
     (case pq_exec_prepared pq c stmt vals (w_db w) of (ok, d) \<Rightarrow> (ok, w\<lparr>w_db := d\<rparr>))"

definition is_tuples :: "pq_result \<Rightarrow> bool" where
  "is_tuples r \<longleftrightarrow> (case r of PgTuplesOk _ \<Rightarrow> True | _ \<Rightarrow> False)"

text \<open>Run a command whose failure is only reported, and one whose failure ends the process.\<close>

definition exec_warn :: "'d libpq \<Rightarrow> nat \<Rightarrow> cstring \<Rightarrow> 'd world \<Rightarrow> 'd world" where
  "exec_warn pq c q w = snd (PQexec pq c q w)"

definition exec_or_exit :: "'d libpq \<Rightarrow> nat \<Rightarrow> cstring \<Rightarrow> 'd world \<Rightarrow> 'd world + 'd world" where
  "exec_or_exit pq c q w =
     (case PQexec pq c q w of (r, w1) \<Rightarrow> if r \<noteq> PgCommandOk then Inl w1 else Inr w1)"

text \<open>An escaped name, or the exit of the process when libpq cannot allocate it.\<close>

definition esc_ident :: "'d libpq \<Rightarrow> nat \<Rightarrow> cstring \<Rightarrow> 'd world \<Rightarrow> 'd world + cstring" where
  "esc_ident pq c s w = (case pq_escape_identifier pq c s (w_db w) of None \<Rightarrow> Inl w | Some e \<Rightarrow> Inr e)"

definition esc_lit :: "'d libpq \<Rightarrow> nat \<Rightarrow> cstring \<Rightarrow> 'd world \<Rightarrow> 'd world + cstring" where
  "esc_lit pq c s w = (case pq_escape_literal pq c s (w_db w) of None \<Rightarrow> Inl w | Some e \<Rightarrow> Inr e)"

section \<open>Schemas and tables\<close>

definition db_try_enable_timescaledb :: "'d libpq \<Rightarrow> nat \<Rightarrow> 'd world \<Rightarrow> 'd world" where
  "db_try_enable_timescaledb pq c w =
     exec_warn pq c (sql ''CREATE EXTENSION IF NOT EXISTS timescaledb;'') w"

definition db_make_qualified :: "'d libpq \<Rightarrow> nat \<Rightarrow> cstring \<Rightarrow> cstring \<Rightarrow> 'd world \<Rightarrow> 'd world + cstring" where
  "db_make_qualified pq c schema table w =
     and_then (esc_ident pq c schema w) (\<lambda>esc_schema.
     and_then (esc_ident pq c table w) (\<lambda>esc_table.
       Inr (esc_schema @ 0x2e # esc_table)))"

definition db_table_exists :: "'d libpq \<Rightarrow> nat \<Rightarrow> cstring \<Rightarrow> cstring \<Rightarrow> 'd world \<Rightarrow> 'd world + bool \<times> 'd world" where
  "db_table_exists pq c schema table w =
     and_then (esc_lit pq c schema w) (\<lambda>lit_schema.
     and_then (esc_lit pq c table w) (\<lambda>lit_table.
       case PQexec pq c (snprintf_s 512
              (sql ''SELECT to_regclass(format(`%I.%I`, '' @ lit_schema @ sql '', '' @ lit_table @ sql ''));'')) w of
         (PgTuplesOk rows, w1) \<Rightarrow>
           Inr (case rows of [Some v] \<Rightarrow> v \<noteq> [] | _ \<Rightarrow> False, w1)
       | (_, w1) \<Rightarrow> Inl w1))"

definition db_ensure_schema :: "'d libpq \<Rightarrow> nat \<Rightarrow> cstring \<Rightarrow> 'd world \<Rightarrow> 'd world + 'd world" where
  "db_ensure_schema pq c schema w =
     and_then (esc_ident pq c schema w) (\<lambda>esc_schema.
     and_then (exec_or_exit pq c (snprintf_s 512
         (sql ''CREATE SCHEMA IF NOT EXISTS '' @ esc_schema @ sql '' AUTHORIZATION CURRENT_USER;'')) w) (\<lambda>w1.
       Inr (exec_warn pq c (snprintf_s 512
         (sql ''GRANT USAGE ON SCHEMA '' @ esc_schema @ sql '' TO CURRENT_USER;'')) w1)))"

definition tracker_table_sql :: "cstring \<Rightarrow> cstring" where
  "tracker_table_sql tracker = snprintf_s 2048
     (sql ''CREATE TABLE IF NOT EXISTS '' @ tracker @ sql '' (  schema_name  TEXT NOT NULL,'' @
      sql ''  table_name   TEXT NOT NULL,  last_write   TIMESTAMPTZ NOT NULL DEFAULT NOW(),'' @
      sql ''  PRIMARY KEY(schema_name, table_name));'')"

definition update_last_write_sql :: "cstring \<Rightarrow> cstring \<Rightarrow> cstring" where
  "update_last_write_sql esc_schema tracker = snprintf_s 2048
     (sql ''CREATE OR REPLACE FUNCTION '' @ esc_schema @ sql ''.update_last_write()~'' @
      sql ''RETURNS TRIGGER AS $$~BEGIN~  UPDATE '' @ tracker @ sql ''~     SET last_write = NOW()~'' @
      sql ''   WHERE schema_name = TG_TABLE_SCHEMA~     AND table_name  = TG_TABLE_NAME;~'' @
      sql ''  RETURN NEW;~END;~$$ LANGUAGE plpgsql;'')"

definition drop_inactive_sql :: "cstring \<Rightarrow> cstring \<Rightarrow> int \<Rightarrow> cstring" where
  "drop_inactive_sql esc_schema tracker inactive_hours = snprintf_s 2048
     (sql ''CREATE OR REPLACE FUNCTION '' @ esc_schema @ sql ''.drop_inactive_tables()~RETURNS VOID AS $$~'' @
      sql ''DECLARE~  rec RECORD;~BEGIN~  FOR rec IN~    SELECT schema_name, table_name~      FROM '' @ tracker @
      sql ''~     WHERE last_write < NOW() - make_interval(hours => '' @ dec_int inactive_hours @ sql '')~  LOOP~'' @
      sql ''    EXECUTE format(`DROP TABLE IF EXISTS %I.%I`, rec.schema_name, rec.table_name);~    DELETE FROM '' @
      tracker @ sql ''~     WHERE schema_name = rec.schema_name~       AND table_name  = rec.table_name;~'' @
      sql ''  END LOOP;~END;~$$ LANGUAGE plpgsql;'')"

definition db_ensure_tracker_objects ::
    "housekeeping \<Rightarrow> 'd libpq \<Rightarrow> nat \<Rightarrow> cstring \<Rightarrow> 'd world \<Rightarrow> 'd world + 'd world" where
  "db_ensure_tracker_objects g pq c schema w =
     and_then (db_make_qualified pq c schema (sql ''table_activity_tracker'') w) (\<lambda>tracker.
     and_then (esc_ident pq c schema w) (\<lambda>esc_schema.
     and_then (exec_or_exit pq c (tracker_table_sql tracker) w) (\<lambda>w1.
     and_then (exec_or_exit pq c (update_last_write_sql esc_schema tracker) w1) (\<lambda>w2.
       exec_or_exit pq c (drop_inactive_sql esc_schema tracker (g_inactive_hours g)) w2))))"

definition db_register_new_table_in_tracker ::
    "'d libpq \<Rightarrow> nat \<Rightarrow> cstring \<Rightarrow> cstring \<Rightarrow> 'd world \<Rightarrow> 'd world + 'd world" where
  "db_register_new_table_in_tracker pq c schema table w =
     and_then (db_make_qualified pq c schema (sql ''table_activity_tracker'') w) (\<lambda>tracker.
     and_then (esc_lit pq c schema w) (\<lambda>lit_schema.
     and_then (esc_lit pq c table w) (\<lambda>lit_table.
       exec_or_exit pq c (snprintf_s 1024
         (sql ''INSERT INTO '' @ tracker @ sql '' (schema_name, table_name, last_write) VALUES ('' @ lit_schema @
          sql '', '' @ lit_table @ sql '', NOW()) ON CONFLICT (schema_name, table_name) DO NOTHING;'')) w)))"

text \<open>A trigger name is cut to 63 bytes.\<close>

definition trigger_name :: "string \<Rightarrow> cstring \<Rightarrow> cstring" where
  "trigger_name prefix table = take 63 (snprintf_s 80 (sql prefix @ table))"

definition trigger_sql :: "cstring \<Rightarrow> string \<Rightarrow> cstring \<Rightarrow> cstring \<Rightarrow> cstring" where
  "trigger_sql esc_trg event qualified esc_schema = snprintf_s 1024
     (sql ''CREATE TRIGGER '' @ esc_trg @ sql '' AFTER '' @ sql event @ sql '' ON '' @ qualified @
      sql '' FOR EACH STATEMENT EXECUTE FUNCTION '' @ esc_schema @ sql ''.update_last_write();'')"

definition db_create_activity_triggers_for_table ::
    "'d libpq \<Rightarrow> nat \<Rightarrow> cstring \<Rightarrow> cstring \<Rightarrow> 'd world \<Rightarrow> 'd world + 'd world" where
  "db_create_activity_triggers_for_table pq c schema table w =
     and_then (db_make_qualified pq c schema table w) (\<lambda>qualified.
     and_then (esc_ident pq c (trigger_name ''trg_ulw_ins_'' table) w) (\<lambda>esc_ins.
     and_then (esc_ident pq c (trigger_name ''trg_ulw_upd_'' table) w) (\<lambda>esc_upd.
     and_then (esc_ident pq c (trigger_name ''trg_ulw_del_'' table) w) (\<lambda>esc_del.
     and_then (esc_ident pq c schema w) (\<lambda>esc_schema.
       let w1 = exec_warn pq c (trigger_sql esc_ins ''INSERT'' qualified esc_schema) w;
           w2 = exec_warn pq c (trigger_sql esc_upd ''UPDATE'' qualified esc_schema) w1
       in Inr (exec_warn pq c (trigger_sql esc_del ''DELETE'' qualified esc_schema) w2))))))"

text \<open>The three Timescale calls on a table, from escaped literals.\<close>

definition hypertable_sql :: "cstring \<Rightarrow> cstring \<Rightarrow> cstring" where
  "hypertable_sql lit_schema lit_table = snprintf_s 1024
     (sql ''SELECT create_hypertable(format(`%I.%I`, '' @ lit_schema @ sql '', '' @ lit_table @
      sql '')::regclass, `ts`, if_not_exists => TRUE);'')"

definition remove_retention_sql :: "cstring \<Rightarrow> cstring \<Rightarrow> cstring" where
  "remove_retention_sql lit_schema lit_table = snprintf_s 1024
     (sql ''SELECT remove_retention_policy(format(`%I.%I`, '' @ lit_schema @ sql '', '' @ lit_table @
      sql '')::regclass, if_exists => TRUE);'')"

definition add_retention_sql :: "cstring \<Rightarrow> cstring \<Rightarrow> int \<Rightarrow> cstring" where
  "add_retention_sql lit_schema lit_table hours = snprintf_s 1024
     (sql ''SELECT add_retention_policy(format(`%I.%I`, '' @ lit_schema @ sql '', '' @ lit_table @
      sql '')::regclass, make_interval(hours => '' @ dec_int hours @ sql ''), if_not_exists => TRUE);'')"

text \<open>A table seen for the first time gets its tracker entry and triggers.\<close>

definition track_new_table ::
    "housekeeping \<Rightarrow> 'd libpq \<Rightarrow> nat \<Rightarrow> cstring \<Rightarrow> cstring \<Rightarrow> 'd world \<Rightarrow> 'd world + 'd world" where
  "track_new_table g pq c schema table w =
     and_then (db_ensure_tracker_objects g pq c schema w) (\<lambda>w1.
     and_then (db_register_new_table_in_tracker pq c schema table w1) (\<lambda>w2.
       db_create_activity_triggers_for_table pq c schema table w2))"

definition db_ensure_table ::
    "housekeeping \<Rightarrow> 'd libpq \<Rightarrow> nat \<Rightarrow> cstring \<Rightarrow> cstring \<Rightarrow> 'd world \<Rightarrow> 'd world + 'd world" where
  "db_ensure_table g pq c schema table w =
     and_then (db_table_exists pq c schema table w) (\<lambda>(existed_before, w1).
     and_then (db_ensure_schema pq c schema w1) (\<lambda>w2.
       let w3 = db_try_enable_timescaledb pq c w2
       in and_then (db_make_qualified pq c schema table w3) (\<lambda>qualified.
          and_then (exec_or_exit pq c (snprintf_s 1024
              (sql ''CREATE TABLE IF NOT EXISTS '' @ qualified @ sql '' (  ts TIMESTAMPTZ NOT NULL,'' @
               sql ''  pid TEXT NOT NULL,  cpu_pct DOUBLE PRECISION,  rss_kb BIGINT);'')) w3) (\<lambda>w4.
          and_then (esc_lit pq c schema w4) (\<lambda>lit_schema.
          and_then (esc_lit pq c table w4) (\<lambda>lit_table.
            let w5 = exec_warn pq c (hypertable_sql lit_schema lit_table) w4;
                w6 = exec_warn pq c (remove_retention_sql lit_schema lit_table) w5;
                w7 = exec_warn pq c (add_retention_sql lit_schema lit_table (g_retention_hours g)) w6
            in and_then (db_table_exists pq c schema table w7) (\<lambda>(existed_after, w8).
                 if \<not> existed_before \<and> existed_after then track_new_table g pq c schema table w8
                 else Inr w8)))))))"

definition db_prepare_insert ::
    "'d libpq \<Rightarrow> nat \<Rightarrow> cstring \<Rightarrow> cstring \<Rightarrow> cstring \<Rightarrow> 'd world \<Rightarrow> 'd world + 'd world" where
  "db_prepare_insert pq c schema table stmt_name w =
     and_then (db_make_qualified pq c schema table w) (\<lambda>qualified.
       case PQprepare pq c stmt_name (snprintf_s 512
              (sql ''INSERT INTO '' @ qualified @
               sql '' (ts, pid, cpu_pct, rss_kb) VALUES (NOW(), $1::text, $2::float8, $3::int8);'')) 3 w of
         (ok, w1) \<Rightarrow> if \<not> ok then Inl w1 else Inr w1)"

definition db_insert_sample ::
    "'d libpq \<Rightarrow> nat option \<Rightarrow> cstring \<Rightarrow> cstring \<Rightarrow> dbl \<Rightarrow> int \<Rightarrow> 'd world \<Rightarrow> int \<times> 'd world" where
  "db_insert_sample pq conn stmt_name pid cpu_pct rss_kb w =
     (case conn of
        None \<Rightarrow> (- 1, w)
      | Some c \<Rightarrow>
          if \<not> pq_status_ok pq c (w_db w) then (- 1, w)
          else case PQexecPrepared pq c stmt_name
                      [pid, snprintf_s 64 (fmt_g 10 cpu_pct), snprintf_s 64 (dec_int rss_kb)] w of
                 (ok, w1) \<Rightarrow> (if ok then 0 else - 1, w1))"

definition db_ensure_drop_inactive_job :: "'d libpq \<Rightarrow> nat \<Rightarrow> cstring \<Rightarrow> 'd world \<Rightarrow> 'd world + 'd world" where
  "db_ensure_drop_inactive_job pq c schema w =
     (let job_name = snprintf_s 128 (sql ''drop_inactive_tables_every_5_minutes_'' @ schema)
      in case pq_escape_literal pq c job_name (w_db w) of
           None \<Rightarrow> Inr w
         | Some lit_job \<Rightarrow>
             (let finish = (\<lambda>w. exec_warn pq c (snprintf_s 1024
                     (sql ''UPDATE cron.job SET nodename = `` WHERE jobname = '' @ lit_job @ sql '';'')) w)
              in case PQexec pq c (snprintf_s 1024
                        (sql ''SELECT jobid FROM cron.job WHERE jobname = '' @ lit_job @ sql '';'')) w of
                   (PgTuplesOk rows, w1) \<Rightarrow>
                     if rows \<noteq> [] then Inr (finish w1)
                     else
                       and_then (db_make_qualified pq c schema (sql ''drop_inactive_tables'') w1) (\<lambda>fn.
                         case PQexec pq c (snprintf_s 1024
                                (sql ''SELECT cron.schedule(  '' @ lit_job @ sql '',  `*/5 * * * *`,'' @
                                 sql ''  $cron$SELECT '' @ fn @ sql ''();$cron$);'')) w1 of
                           (PgError, w2) \<Rightarrow> Inr w2
                         | (_, w2) \<Rightarrow> Inr (finish w2))
                 | (_, w1) \<Rightarrow> Inr w1))"

end
