(* ===== verification/SpillBuffer.thy ===== *)
theory SpillBuffer
  imports Db
begin

text \<open>
  The offline spill buffer: \<^verbatim>\<open>src/db_buffer.c\<close> and \<^verbatim>\<open>include/db_buffer.h\<close> (its
  \<^verbatim>\<open>pw_json_escape\<close> is in \<^verbatim>\<open>Util\<close>).  Records that could not be inserted are appended to a file,
  one per line; a flush claims the file by renaming it to \<^verbatim>\<open>.flushing\<close>, replays it line by
  line through a callback, and on the first refusal puts the unconsumed lines back through
  \<^verbatim>\<open>.rest\<close>.  The callback works on the buffer, its own state \<open>'u\<close> and the world, because the
  C callback reaches all three.
\<close>

section \<open>State\<close>

record pw_db_buf =
  db_conn :: "nat option"
  db_conninfo :: cstring
  db_spill_path :: cstring
  db_online :: bool
  db_last_reconnect_try :: int
  db_reconnect_interval_sec :: int
  db_spilled :: "64 word"
  db_flushed :: "64 word"
  db_spill_dropped :: "64 word"

type_synonym ('d, 'u) spill_st = "pw_db_buf \<times> 'u \<times> 'd world"
type_synonym ('d, 'u) replay_fn = "byte list \<Rightarrow> ('d, 'u) spill_st \<Rightarrow> 'd world + int \<times> ('d, 'u) spill_st"

definition default_spill_dir :: "'d world \<Rightarrow> cstring" where
  "default_spill_dir w =
     (case w_env w (lit ''PROCWATCH_SPILL_DIR'') of
        Some d \<Rightarrow> if d \<noteq> [] then d else lit ''/var/tmp/procwatch''
      | None \<Rightarrow> lit ''/var/tmp/procwatch'')"

definition spill_companion :: "nat \<Rightarrow> cstring \<Rightarrow> cstring \<Rightarrow> cstring" where
  "spill_companion cap spill suffix = snprintf_s cap (spill @ suffix)"

definition conn_ok :: "'d libpq \<Rightarrow> nat option \<Rightarrow> 'd world \<Rightarrow> bool" where
  "conn_ok pq c w \<longleftrightarrow> (case c of None \<Rightarrow> False | Some h \<Rightarrow> pq_status_ok pq h (w_db w))"

section \<open>Opening and closing\<close>

text \<open>\<^verbatim>\<open>mkdir\<close> has no effect on the files; its result is ignored by the code.\<close>

definition spill_path_of :: "cstring option \<Rightarrow> cstring option \<Rightarrow> 'd world \<Rightarrow> cstring" where
  "spill_path_of spill_dir spill_name w =
     (let dir = (case spill_dir of
                   Some d \<Rightarrow> if d \<noteq> [] then d else default_spill_dir w
                 | None \<Rightarrow> default_spill_dir w)
      in case spill_name of
           Some n \<Rightarrow>
             if 0x2f \<in> set n then snprintf_s 512 n
             else snprintf_s 512 (dir @ 0x2f # (if n \<noteq> [] then n else lit ''spill.ndjson''))
         | None \<Rightarrow> snprintf_s 512 (dir @ 0x2f # lit ''spill.ndjson''))"

definition pw_db_buf_init ::
    "'d libpq \<Rightarrow> cstring option \<Rightarrow> cstring option \<Rightarrow> cstring option \<Rightarrow> 'd world \<Rightarrow> pw_db_buf \<times> 'd world" where
  "pw_db_buf_init pq conninfo spill_dir spill_name w =
     (let ci = snprintf_s 1024 (case conninfo of Some c \<Rightarrow> c | None \<Rightarrow> [])
      in case db_connect pq ci w of (conn, w1) \<Rightarrow>
           let b = \<lparr>db_conn = conn, db_conninfo = ci, db_spill_path = spill_path_of spill_dir spill_name w,
                    db_online = conn_ok pq conn w1, db_last_reconnect_try = 0,
                    db_reconnect_interval_sec = 5, db_spilled = 0, db_flushed = 0, db_spill_dropped = 0\<rparr>
           in if db_online b then (b, w1)
              else case conn of
                     None \<Rightarrow> (b, w1)
                   | Some c \<Rightarrow> (b\<lparr>db_conn := None\<rparr>, w1\<lparr>w_db := pq_finish pq c (w_db w1)\<rparr>))"

definition pw_db_buf_close :: "'d libpq \<Rightarrow> pw_db_buf \<Rightarrow> 'd world \<Rightarrow> pw_db_buf \<times> 'd world" where
  "pw_db_buf_close pq b w =
     (case db_conn b of
        None \<Rightarrow> (b\<lparr>db_online := False\<rparr>, w)
      | Some c \<Rightarrow> (b\<lparr>db_conn := None, db_online := False\<rparr>, w\<lparr>w_db := pq_finish pq c (w_db w)\<rparr>))"

definition pw_db_buf_ensure :: "'d libpq \<Rightarrow> pw_db_buf \<Rightarrow> 'd world \<Rightarrow> bool \<times> pw_db_buf \<times> 'd world" where
  "pw_db_buf_ensure pq b w =
     (if conn_ok pq (db_conn b) w then (True, b\<lparr>db_online := True\<rparr>, w)
      else
        let b1 = b\<lparr>db_online := False\<rparr>;
            now = w_now w
        in if db_last_reconnect_try b1 \<noteq> 0 \<and>
              now - db_last_reconnect_try b1 < db_reconnect_interval_sec b1 then (False, b1, w)
           else
             let b2 = b1\<lparr>db_last_reconnect_try := now\<rparr>
             in case db_reconnect pq (db_conn b2) (db_conninfo b2) w of (ok, conn, w1) \<Rightarrow>
                  if ok then (True, b2\<lparr>db_conn := conn, db_online := True\<rparr>, w1)
                  else (False, b2\<lparr>db_conn := conn\<rparr>, w1))"

section \<open>Spilling\<close>

definition pw_db_buf_spill :: "cstring \<Rightarrow> pw_db_buf \<Rightarrow> 'd world \<Rightarrow> int \<times> pw_db_buf \<times> 'd world" where
  "pw_db_buf_spill line b w =
     (case fs_open_append (db_spill_path b) w of (opened, w1) \<Rightarrow>
        if \<not> opened then (- 1, b\<lparr>db_spill_dropped := db_spill_dropped b + 1\<rparr>, w1)
        else case fs_write_close (db_spill_path b) (line @ [0x0a]) w1 of (ok, w2) \<Rightarrow>
          if \<not> ok then (- 1, b\<lparr>db_spill_dropped := db_spill_dropped b + 1\<rparr>, w2)
          else (0, b\<lparr>db_spilled := db_spilled b + 1\<rparr>, w2))"

section \<open>Flushing\<close>

text \<open>\<^verbatim>\<open>getline\<close>: the next line with its newline, and what follows it.\<close>

definition getline_split :: "byte list \<Rightarrow> byte list \<times> byte list" where
  "getline_split c =
     (let l = takeWhile (\<lambda>b. b \<noteq> 0x0a) c
      in if length l < length c then (l @ [0x0a], drop (length l + 1) c) else (l, []))"

definition strip_eol :: "byte list \<Rightarrow> byte list" where
  "strip_eol l = rev (dropWhile (\<lambda>b. b = 0x0a \<or> b = 0x0d) (rev l))"

lemma getline_split_shrinks: "c \<noteq> [] \<Longrightarrow> (l, after) = getline_split c \<Longrightarrow> length after < length c"
  by (auto simp: getline_split_def Let_def split: if_splits)

definition count_flushed :: "('d, 'u) spill_st \<Rightarrow> ('d, 'u) spill_st" where
  "count_flushed = (\<lambda>(b, u, w). (b\<lparr>db_flushed := db_flushed b + 1\<rparr>, u, w))"

text \<open>
  The replay loop over what the claimed file delivers.  The result names the line the callback
  refused and the text after it, or \<open>None\<close> when the file was drained.
\<close>

function flush_loop ::
    "('d, 'u) replay_fn \<Rightarrow> byte list \<Rightarrow> ('d, 'u) spill_st \<Rightarrow> nat \<Rightarrow>
     'd world + (byte list \<times> byte list) option \<times> nat \<times> ('d, 'u) spill_st" where
  "flush_loop fn c st consumed =
     (if c = [] then Inr (None, consumed, st)
      else case getline_split c of (raw, after) \<Rightarrow>
        let line = strip_eol raw
        in if line = [] then flush_loop fn after st (consumed + 1)
           else case fn line st of
                  Inl w \<Rightarrow> Inl w
                | Inr (rc, st1) \<Rightarrow>
                    if rc \<noteq> 0 then Inr (Some (line, after), consumed, st1)
                    else flush_loop fn after (count_flushed st1) (consumed + 1))"
  by pat_completeness auto
termination
  by (relation "measure (\<lambda>(fn, c, st, n). length c)") (auto dest: getline_split_shrinks)

declare flush_loop.simps [simp del]

text \<open>After a refusal: the remainder goes to \<^verbatim>\<open>.rest\<close>, in front of what was spilled meanwhile.\<close>

definition flush_restore :: "cstring \<Rightarrow> cstring \<Rightarrow> cstring \<Rightarrow> 'd world \<Rightarrow> int \<times> 'd world" where
  "flush_restore spill flushing rest w =
     (let (cur, w1) = fs_open_read spill w;
          (out, w2) = fs_open_append rest w1;
          w3 = (if out \<and> cur then
                  let (c, wa) = fs_read_all spill w2 in snd (fs_write_close rest c wa)
                else w2);
          w4 = snd (fs_unlink spill w3);
          (r, w5) = fs_rename rest spill w4
      in if r \<noteq> IoOk then (- 1, w5)
         else (1, snd (fs_unlink flushing w5)))"

definition flush_stop ::
    "cstring \<Rightarrow> cstring \<Rightarrow> cstring \<Rightarrow> byte list \<Rightarrow> byte list \<Rightarrow> 'd world \<Rightarrow> int \<times> 'd world" where
  "flush_stop spill flushing rest line after w =
     (let (opened, w1) = fs_open_trunc rest w
      in if \<not> opened then (- 1, snd (fs_rename flushing spill w1))
         else
           let (ok, w2) = fs_write_close rest (cstr line @ 0x0a # after) w1
           in if \<not> ok then (- 1, snd (fs_unlink rest (snd (fs_rename flushing spill w2))))
              else flush_restore spill flushing rest w2)"

definition pw_db_buf_flush ::
    "'d libpq \<Rightarrow> ('d, 'u) replay_fn \<Rightarrow> ('d, 'u) spill_st \<Rightarrow> 'd world + int \<times> ('d, 'u) spill_st" where
  "pw_db_buf_flush pq fn = (\<lambda>(b, u, w).
     if \<not> db_online b \<or> db_conn b = None then Inr (- 1, b, u, w)
     else if \<not> conn_ok pq (db_conn b) w then Inr (- 1, b\<lparr>db_online := False\<rparr>, u, w)
     else
       let spill = db_spill_path b;
           flushing = spill_companion 576 spill (lit ''.flushing'');
           rest = spill_companion 576 spill (lit ''.rest'')
       in case fs_rename spill flushing w of
            (IoNoEnt, w1) \<Rightarrow>
              Inr (0, b, u, snd (fs_unlink rest (snd (fs_unlink flushing w1))))
          | (IoErr, w1) \<Rightarrow> Inr (- 1, b, u, w1)
          | (IoOk, w1) \<Rightarrow>
              (case fs_open_read flushing w1 of (opened, w2) \<Rightarrow>
                 if \<not> opened then Inr (- 1, b, u, snd (fs_rename flushing spill w2))
                 else case fs_read_all flushing w2 of (c, w3) \<Rightarrow>
                   (case flush_loop fn c (b, u, w3) 0 of
                      Inl w4 \<Rightarrow> Inl w4
                    | Inr (Some (line, after), consumed, b1, u1, w4) \<Rightarrow>
                        (case flush_stop spill flushing rest line after w4 of (rc, w5) \<Rightarrow>
                           Inr (rc, b1, u1, w5))
                    | Inr (None, consumed, b1, u1, w4) \<Rightarrow>
                        Inr (0, b1, u1, snd (fs_unlink rest (snd (fs_unlink flushing w4)))))))"

definition pw_db_buf_maintain ::
    "'d libpq \<Rightarrow> ('d, 'u) replay_fn \<Rightarrow> ('d, 'u) spill_st \<Rightarrow> 'd world + int \<times> ('d, 'u) spill_st" where
  "pw_db_buf_maintain pq fn = (\<lambda>(b, u, w).
     case pw_db_buf_ensure pq b w of (ok, b1, w1) \<Rightarrow>
       if \<not> ok then Inr (0, b1, u, w1) else pw_db_buf_flush pq fn (b1, u, w1))"

end
