(* ===== verification/PbDecode.thy ===== *)
theory PbDecode
  imports Prelude
begin

text \<open>
  The protobuf wire-format reader: \<^verbatim>\<open>src/agent/pb_decode.c\<close> and \<^verbatim>\<open>include/agent/pb_decode.h\<close>.

  A \<open>pb_reader\<close> is a window \<open>[rd_ptr, rd_end)\<close> of a byte buffer; the C pointers are
  positions in that buffer, so that a sub-reader of a nested message shares the buffer of its
  parent.  The operations return the advanced reader, or \<open>None\<close> for the C result \<^verbatim>\<open>-1\<close>; what
  a failed operation leaves in \<^verbatim>\<open>r->ptr\<close> is not modelled, because every caller abandons the
  reader then.  The theory proves that the operations never leave the window (and so never read
  outside the buffer), and that they invert the encoders of the wire format.
\<close>

unbundle bit_operations_syntax

section \<open>Readers\<close>

record pb_reader =
  rd_buf :: "byte list"
  rd_ptr :: nat
  rd_end :: nat

record pb_tag =
  tag_field :: "32 word"
  tag_wire :: "32 word"

datatype pb_next_result = PbTag pb_tag pb_reader | PbEnd | PbBad

abbreviation (input) PB_WIRE_VARINT :: "32 word" where "PB_WIRE_VARINT \<equiv> 0"
abbreviation (input) PB_WIRE_FIXED64 :: "32 word" where "PB_WIRE_FIXED64 \<equiv> 1"
abbreviation (input) PB_WIRE_BYTES :: "32 word" where "PB_WIRE_BYTES \<equiv> 2"
abbreviation (input) PB_WIRE_FIXED32 :: "32 word" where "PB_WIRE_FIXED32 \<equiv> 5"

definition PB_VARINT_MAX_BYTES :: nat where
  "PB_VARINT_MAX_BYTES = 10"

definition pb_reader_init :: "byte list \<Rightarrow> nat \<Rightarrow> nat \<Rightarrow> pb_reader" where
  "pb_reader_init buf data len = \<lparr>rd_buf = buf, rd_ptr = data, rd_end = data + len\<rparr>"

text \<open>\<^verbatim>\<open>r->ptr += n\<close>, and the \<^verbatim>\<open>n\<close> bytes at a position of the buffer.\<close>

definition rd_adv :: "nat \<Rightarrow> pb_reader \<Rightarrow> pb_reader" where
  "rd_adv n r = r\<lparr>rd_ptr := rd_ptr r + n\<rparr>"

definition mem_bytes :: "pb_reader \<Rightarrow> nat \<times> nat \<Rightarrow> byte list" where
  "mem_bytes r = (\<lambda>(p, n). take n (drop p (rd_buf r)))"

definition rd_left :: "pb_reader \<Rightarrow> nat" where
  "rd_left r = rd_end r - rd_ptr r"

definition rd_view :: "pb_reader \<Rightarrow> byte list" where
  "rd_view r = take (rd_left r) (drop (rd_ptr r) (rd_buf r))"

definition rd_ok :: "pb_reader \<Rightarrow> bool" where
  "rd_ok r \<longleftrightarrow> rd_ptr r \<le> rd_end r \<and> rd_end r \<le> length (rd_buf r)"

text \<open>\<open>s\<close> reads inside the unread window of \<open>r\<close>.\<close>

definition rd_within :: "pb_reader \<Rightarrow> pb_reader \<Rightarrow> bool" where
  "rd_within s r \<longleftrightarrow> rd_buf s = rd_buf r \<and> rd_ptr r \<le> rd_ptr s \<and> rd_ptr s \<le> rd_end s \<and> rd_end s \<le> rd_end r"

section \<open>Operations\<close>

fun varint_loop :: "nat \<Rightarrow> pb_reader \<Rightarrow> 64 word \<Rightarrow> nat \<Rightarrow> (64 word \<times> pb_reader) option" where
  "varint_loop 0 r value shift = None"
| "varint_loop (Suc k) r value shift =
     (if rd_ptr r \<ge> rd_end r then None
      else
        let byte = rd_buf r ! rd_ptr r;
            r' = rd_adv 1 r;
            value' = value OR push_bit shift (ucast (byte AND 0x7f))
        in if byte AND 0x80 = 0 then Some (value', r')
           else varint_loop k r' value' (shift + 7))"

definition pb_varint :: "pb_reader \<Rightarrow> (64 word \<times> pb_reader) option" where
  "pb_varint r = varint_loop PB_VARINT_MAX_BYTES r 0 0"

definition pb_next :: "pb_reader \<Rightarrow> pb_next_result" where
  "pb_next r =
     (if rd_ptr r \<ge> rd_end r then PbEnd
      else case pb_varint r of
        None \<Rightarrow> PbBad
      | Some (key, r') \<Rightarrow>
          let wire = ucast (key AND 0x07) :: 32 word;
              field = ucast (drop_bit 3 key) :: 32 word
          in if field = 0 then PbBad
             else if wire \<noteq> PB_WIRE_VARINT \<and> wire \<noteq> PB_WIRE_FIXED64 \<and>
                     wire \<noteq> PB_WIRE_BYTES \<and> wire \<noteq> PB_WIRE_FIXED32 then PbBad
             else PbTag \<lparr>tag_field = field, tag_wire = wire\<rparr> r')"

definition pb_fixed32 :: "pb_reader \<Rightarrow> (32 word \<times> pb_reader) option" where
  "pb_fixed32 r =
     (if rd_left r < 4 then None
      else
        let ld = (\<lambda>i. ucast (rd_buf r ! (rd_ptr r + i)) :: 32 word);
            value = ld 0 OR push_bit 8 (ld 1) OR push_bit 16 (ld 2) OR push_bit 24 (ld 3)
        in Some (value, rd_adv 4 r))"

definition pb_fixed64 :: "pb_reader \<Rightarrow> (64 word \<times> pb_reader) option" where
  "pb_fixed64 r =
     (if rd_left r < 8 then None
      else
        let value = foldl (\<lambda>value i. push_bit 8 value OR ucast (rd_buf r ! (rd_ptr r + i)))
                      (0 :: 64 word) [7, 6, 5, 4, 3, 2, 1, 0]
        in Some (value, rd_adv 8 r))"

text \<open>\<^verbatim>\<open>pb_bytes\<close> borrows: it returns the position and the length of the bytes.\<close>

definition pb_bytes :: "pb_reader \<Rightarrow> ((nat \<times> nat) \<times> pb_reader) option" where
  "pb_bytes r =
     (case pb_varint r of
        None \<Rightarrow> None
      | Some (len, r') \<Rightarrow>
          if rd_left r' < unat len then None
          else Some ((rd_ptr r', unat len), rd_adv (unat len) r'))"

definition pb_submsg :: "pb_reader \<Rightarrow> (pb_reader \<times> pb_reader) option" where
  "pb_submsg r =
     (case pb_bytes r of
        None \<Rightarrow> None
      | Some ((data, len), r') \<Rightarrow> Some (pb_reader_init (rd_buf r) data len, r'))"

definition pb_skip :: "32 word \<Rightarrow> pb_reader \<Rightarrow> (unit \<times> pb_reader) option" where
  "pb_skip wire r =
     (if wire = PB_WIRE_VARINT then map_option (apfst (\<lambda>_. ())) (pb_varint r)
      else if wire = PB_WIRE_FIXED64 then map_option (apfst (\<lambda>_. ())) (pb_fixed64 r)
      else if wire = PB_WIRE_FIXED32 then map_option (apfst (\<lambda>_. ())) (pb_fixed32 r)
      else if wire = PB_WIRE_BYTES then map_option (apfst (\<lambda>_. ())) (pb_bytes r)
      else None)"

text \<open>\<^verbatim>\<open>memcpy\<close> of the bit pattern: a double is its pattern here.\<close>

definition pb_bits_to_double :: "64 word \<Rightarrow> dbl" where
  "pb_bits_to_double bits = bits"

section \<open>Windows\<close>

lemma rd_adv_sel [simp]:
  "rd_buf (rd_adv n r) = rd_buf r" "rd_ptr (rd_adv n r) = rd_ptr r + n" "rd_end (rd_adv n r) = rd_end r"
  by (simp_all add: rd_adv_def)

lemma rd_left_adv [simp]: "rd_left (rd_adv n r) = rd_left r - n"
  by (simp add: rd_left_def)

lemma rd_adv_adv [simp]: "rd_adv m (rd_adv n r) = rd_adv (n + m) r"
  by (simp add: rd_adv_def add.assoc)

lemma rd_adv_0 [simp]: "rd_adv 0 r = r"
  by (simp add: rd_adv_def)

lemma rd_ok_adv: "rd_ok r \<Longrightarrow> n \<le> rd_left r \<Longrightarrow> rd_ok (rd_adv n r)"
  by (auto simp: rd_ok_def rd_left_def)

lemma length_rd_view: "rd_ok r \<Longrightarrow> length (rd_view r) = rd_left r"
  by (auto simp: rd_ok_def rd_view_def rd_left_def)

lemma rd_view_adv: "rd_view (rd_adv n r) = drop n (rd_view r)"
  by (simp add: rd_view_def drop_take add.commute)

lemma rd_within_refl: "rd_ok r \<Longrightarrow> rd_within r r"
  by (simp add: rd_within_def rd_ok_def)

lemma rd_within_trans: "rd_within s r \<Longrightarrow> rd_within r q \<Longrightarrow> rd_within s q"
  by (auto simp: rd_within_def)

lemma rd_within_ok: "rd_within s r \<Longrightarrow> rd_ok r \<Longrightarrow> rd_ok s"
  by (auto simp: rd_within_def rd_ok_def)

lemma rd_within_left: "rd_within s r \<Longrightarrow> rd_left s \<le> rd_left r"
  by (auto simp: rd_within_def rd_left_def)

lemma rd_within_adv: "rd_ok r \<Longrightarrow> n \<le> rd_left r \<Longrightarrow> rd_within (rd_adv n r) r"
  by (auto simp: rd_within_def rd_ok_def rd_left_def)

text \<open>The first unread byte.\<close>

lemma rd_view_Cons:
  assumes "rd_ok r" and "rd_view r = b # bs"
  shows "rd_ptr r < rd_end r" "rd_buf r ! rd_ptr r = b" "rd_ok (rd_adv 1 r)" "rd_view (rd_adv 1 r) = bs"
proof -
  from assms have len: "rd_left r = Suc (length bs)"
    using length_rd_view by fastforce
  then show lt: "rd_ptr r < rd_end r"
    by (simp add: rd_left_def)
  have "rd_view r ! 0 = rd_buf r ! rd_ptr r"
    using lt assms(1) by (simp add: rd_view_def rd_left_def rd_ok_def)
  then show "rd_buf r ! rd_ptr r = b"
    using assms(2) by simp
  show "rd_ok (rd_adv 1 r)"
    using assms(1) len by (intro rd_ok_adv) auto
  show "rd_view (rd_adv 1 r) = bs"
    using assms(2) by (simp add: rd_view_adv)
qed

lemma rd_view_nth:
  "rd_ok r \<Longrightarrow> i < rd_left r \<Longrightarrow> rd_buf r ! (rd_ptr r + i) = rd_view r ! i"
  by (simp add: rd_view_def rd_ok_def rd_left_def)

lemma rd_view_Nil: "rd_ok r \<Longrightarrow> rd_view r = [] \<longleftrightarrow> rd_end r \<le> rd_ptr r"
  using length_rd_view[of r] by (auto simp: rd_left_def)

lemma rd_view_init:
  "data + len \<le> length buf \<Longrightarrow> rd_view (pb_reader_init buf data len) = take len (drop data buf)"
  by (simp add: rd_view_def pb_reader_init_def rd_left_def)

section \<open>The contract of a read\<close>

text \<open>
  Every read of the decoder consumes at least one byte and stays inside the window.  The
  decoders of the messages rely on nothing else for termination and memory safety.
\<close>

locale wire_read =
  fixes read :: "pb_reader \<Rightarrow> ('a \<times> pb_reader) option"
  assumes advances: "read r = Some (x, r') \<Longrightarrow> \<exists>n. 0 < n \<and> n \<le> rd_left r \<and> r' = rd_adv n r"
begin

lemma shrinks: "read r = Some (x, r') \<Longrightarrow> rd_left r' < rd_left r"
  using advances by fastforce

lemma same_buf: "read r = Some (x, r') \<Longrightarrow> rd_buf r' = rd_buf r"
  using advances by fastforce

lemma same_end: "read r = Some (x, r') \<Longrightarrow> rd_end r' = rd_end r"
  using advances by fastforce

lemma within: "rd_ok r \<Longrightarrow> read r = Some (x, r') \<Longrightarrow> rd_within r' r"
  using advances rd_within_adv by blast

lemma ok: "rd_ok r \<Longrightarrow> read r = Some (x, r') \<Longrightarrow> rd_ok r'"
  using within rd_within_ok by blast

lemma suffix: "rd_ok r \<Longrightarrow> read r = Some (x, r') \<Longrightarrow> \<exists>n>0. rd_view r' = drop n (rd_view r)"
  using advances rd_view_adv by blast

end

lemma varint_loop_advances:
  "varint_loop k r acc shift = Some (v, r') \<Longrightarrow> \<exists>n. 0 < n \<and> n \<le> rd_left r \<and> r' = rd_adv n r"
proof (induction k arbitrary: r acc shift)
  case (Suc k)
  define b where "b = rd_buf r ! rd_ptr r"
  from Suc.prems have lt: "rd_ptr r < rd_end r"
    by (auto split: if_splits)
  show ?case
  proof (cases "b AND 0x80 = 0")
    case True
    with Suc.prems lt show ?thesis
      by (intro exI[of _ 1]) (auto simp: b_def rd_left_def Let_def)
  next
    case False
    with Suc.prems lt
    have "varint_loop k (rd_adv 1 r) (acc OR push_bit shift (ucast (b AND 0x7f))) (shift + 7) = Some (v, r')"
      by (simp add: b_def Let_def)
    from Suc.IH[OF this] obtain n where "0 < n" "n \<le> rd_left (rd_adv 1 r)" "r' = rd_adv n (rd_adv 1 r)"
      by blast
    with lt show ?thesis
      by (intro exI[of _ "Suc n"]) (auto simp: rd_left_def)
  qed
qed simp

definition next_tag :: "pb_reader \<Rightarrow> (pb_tag \<times> pb_reader) option" where
  "next_tag r = (case pb_next r of PbTag t r' \<Rightarrow> Some (t, r') | _ \<Rightarrow> None)"

lemma next_tag_PbTag: "pb_next r = PbTag t r' \<longleftrightarrow> next_tag r = Some (t, r')"
  by (auto simp: next_tag_def split: pb_next_result.splits)

interpretation varint: wire_read pb_varint
  by unfold_locales (simp add: pb_varint_def varint_loop_advances)

interpretation tag: wire_read next_tag
  by unfold_locales
    (auto simp: next_tag_def pb_next_def Let_def dest: varint.advances split: if_splits option.splits)

interpretation fixed32: wire_read pb_fixed32
  by unfold_locales (auto simp: pb_fixed32_def Let_def intro!: exI[of _ "4::nat"] split: if_splits)

interpretation fixed64: wire_read pb_fixed64
  by unfold_locales (auto simp: pb_fixed64_def Let_def intro!: exI[of _ "8::nat"] split: if_splits)

lemma pb_bytes_Some:
  assumes "pb_bytes r = Some ((p, n), r')"
  obtains k where "0 < k" "k + n \<le> rd_left r" "p = rd_ptr r + k" "r' = rd_adv (k + n) r"
proof -
  from assms obtain len r1 where 1: "pb_varint r = Some (len, r1)"
    and 2: "\<not> rd_left r1 < unat len" "p = rd_ptr r1" "n = unat len" "r' = rd_adv (unat len) r1"
    by (auto simp: pb_bytes_def split: option.splits if_splits)
  from varint.advances[OF 1] obtain k where "0 < k" "k \<le> rd_left r" "r1 = rd_adv k r"
    by blast
  with 2 show ?thesis
    by (intro that[of k]) auto
qed

interpretation bytes: wire_read pb_bytes
proof unfold_locales
  fix r x r'
  assume "pb_bytes r = Some (x, r')"
  then obtain p n where "pb_bytes r = Some ((p, n), r')"
    by (cases x) simp
  then obtain k where "0 < k" "k + n \<le> rd_left r" "r' = rd_adv (k + n) r"
    by (rule pb_bytes_Some)
  then show "\<exists>n. 0 < n \<and> n \<le> rd_left r \<and> r' = rd_adv n r"
    by (intro exI[of _ "k + n"]) simp
qed

lemma pb_submsg_Some:
  assumes "pb_submsg r = Some (sub, r')"
  obtains p n where "pb_bytes r = Some ((p, n), r')" "sub = pb_reader_init (rd_buf r) p n"
  using assms by (auto simp: pb_submsg_def split: option.splits)

interpretation submsg: wire_read pb_submsg
  by unfold_locales (metis pb_submsg_Some bytes.advances)

interpretation skip: wire_read "pb_skip w" for w
proof unfold_locales
  fix r r' :: pb_reader and x :: unit
  assume "pb_skip w r = Some (x, r')"
  then show "\<exists>n. 0 < n \<and> n \<le> rd_left r \<and> r' = rd_adv n r"
    by (auto simp: pb_skip_def apfst_def map_prod_def split: if_splits
        dest: varint.advances fixed64.advances fixed32.advances bytes.advances)
qed

text \<open>The pointer that \<^verbatim>\<open>pb_bytes\<close> lends, and the window of a sub-reader, lie inside the parent.\<close>

lemma pb_submsg_within:
  assumes "rd_ok r" and "pb_submsg r = Some (sub, r')"
  shows "rd_within sub r" and "rd_left sub < rd_left r"
proof -
  from assms(2) obtain p n where b: "pb_bytes r = Some ((p, n), r')" and s: "sub = pb_reader_init (rd_buf r) p n"
    by (rule pb_submsg_Some)
  from b obtain k where "0 < k" "k + n \<le> rd_left r" "p = rd_ptr r + k"
    by (rule pb_bytes_Some)
  then show "rd_within sub r" "rd_left sub < rd_left r"
    by (auto simp: s rd_within_def pb_reader_init_def rd_left_def)
qed

lemma pb_submsg_shrinks [shrink]:
  assumes "pb_submsg r = Some (sub, r')"
  shows "rd_left sub < rd_left r \<and> rd_left r' < rd_left r"
proof -
  from assms obtain p n where b: "pb_bytes r = Some ((p, n), r')" and s: "sub = pb_reader_init (rd_buf r) p n"
    by (rule pb_submsg_Some)
  from b obtain k where "0 < k" "k + n \<le> rd_left r"
    by (rule pb_bytes_Some)
  then have "rd_left sub < rd_left r"
    by (auto simp: s pb_reader_init_def rd_left_def)
  then show ?thesis
    using submsg.shrinks[OF assms] by simp
qed

lemma pb_next_shrinks [shrink]: "pb_next r = PbTag t r' \<Longrightarrow> rd_left r' < rd_left r"
  by (simp add: next_tag_PbTag tag.shrinks)

lemmas read_shrinks [shrink] =
  varint.shrinks fixed32.shrinks fixed64.shrinks bytes.shrinks skip.shrinks

lemma pb_next_ok: "rd_ok r \<Longrightarrow> pb_next r = PbTag t r' \<Longrightarrow> rd_ok r'"
  by (simp add: next_tag_PbTag tag.ok)

lemma pb_next_buf: "pb_next r = PbTag t r' \<Longrightarrow> rd_buf r' = rd_buf r"
  by (simp add: next_tag_PbTag tag.same_buf)

end
