(* ===== verification/WireSpec.thy ===== *)
theory WireSpec
  imports PbDecode
begin

text \<open>
  The abstract side of the wire format: encoders written from the protobuf encoding rules, and
  the proofs that the reader of \<^verbatim>\<open>src/agent/pb_decode.c\<close> inverts them.  \<open>reads_as r bs rest\<close>
  says that the window of \<open>r\<close> starts with the bytes \<open>bs\<close> and goes on with \<open>rest\<close>.
\<close>

unbundle bit_operations_syntax

section \<open>Encoders\<close>

fun enc_varint :: "nat \<Rightarrow> byte list" where
  "enc_varint n =
     (if n < 128 then [word_of_nat n]
      else (word_of_nat (n mod 128) OR 0x80) # enc_varint (n div 128))"

declare enc_varint.simps [simp del]

definition enc_fixed64 :: "64 word \<Rightarrow> byte list" where
  "enc_fixed64 w = map (\<lambda>i. ucast (drop_bit (8 * i) w)) [0, 1, 2, 3, 4, 5, 6, 7]"

definition enc_fixed32 :: "32 word \<Rightarrow> byte list" where
  "enc_fixed32 w = map (\<lambda>i. ucast (drop_bit (8 * i) w)) [0, 1, 2, 3]"

definition enc_bytes :: "byte list \<Rightarrow> byte list" where
  "enc_bytes bs = enc_varint (length bs) @ bs"

definition enc_tag :: "nat \<Rightarrow> nat \<Rightarrow> byte list" where
  "enc_tag field wire = enc_varint (8 * field + wire)"

text \<open>One length-delimited field.\<close>

definition enc_field :: "nat \<Rightarrow> byte list \<Rightarrow> byte list" where
  "enc_field field bs = enc_tag field 2 @ enc_bytes bs"

definition reads_as :: "pb_reader \<Rightarrow> byte list \<Rightarrow> byte list \<Rightarrow> bool" where
  "reads_as r bs rest \<longleftrightarrow> rd_ok r \<and> rd_view r = bs @ rest"

lemma enc_varint_nonempty [simp]: "enc_varint n \<noteq> []"
  by (subst enc_varint.simps) simp

lemma reads_as_adv:
  "reads_as r (bs @ cs) rest \<Longrightarrow> reads_as (rd_adv (length bs) r) cs rest"
  using length_rd_view[of r] by (auto simp: reads_as_def rd_view_adv intro!: rd_ok_adv)

section \<open>Varints\<close>

lemma word_low7: "(word_of_nat n AND 0x7f :: byte) = word_of_nat n" if "n < 128"
proof -
  have "(word_of_nat n AND 0x7f :: byte) = take_bit 7 (word_of_nat n)"
    by (simp add: take_bit_eq_mask mask_eq_exp_minus_1)
  also have "\<dots> = word_of_nat (take_bit 7 n)"
    by (simp add: of_nat_take_bit)
  also have "take_bit 7 n = n"
    using that by (simp add: take_bit_nat_eq_self)
  finally show ?thesis .
qed

lemma word_no_bit7: "(word_of_nat n AND 0x80 :: byte) = 0" if "n < 128"
proof -
  have "(word_of_nat n AND 0x80 :: byte) = (word_of_nat n AND 0x7f) AND 0x80"
    using word_low7[OF that] by simp
  then show ?thesis by (simp add: and.assoc)
qed

lemma byte_128_or_and_7f: "((word_of_nat n OR 0x80) AND 0x7f :: byte) = word_of_nat n" if "n < 128"
  using word_low7[OF that] by (simp add: bit.conj_disj_distrib2)

lemma byte_128_or_and_80: "((word_of_nat n OR 0x80) AND 0x80 :: byte) \<noteq> 0"
  by (simp add: bit.conj_disj_distrib2)

lemma ucast_of_small_nat: "(ucast (word_of_nat n :: byte) :: 64 word) = word_of_nat n" if "n < 256"
  using that by (simp add: unsigned_of_nat take_bit_nat_eq_self)

lemma word_of_nat_split7:
  "(word_of_nat (n mod 128) OR push_bit 7 (word_of_nat (n div 128)) :: 64 word) = word_of_nat n"
proof (rule bit_eqI)
  fix i assume "possible_bit TYPE(64 word) i"
  have "bit (n mod 128) i \<longleftrightarrow> i < 7 \<and> bit n i"
    using bit_take_bit_iff[of 7 n i] by (simp add: take_bit_eq_mod)
  moreover have "7 \<le> i \<Longrightarrow> bit (n div 128) (i - 7) \<longleftrightarrow> bit n i"
    using bit_drop_bit_eq[of 7 n] by (simp add: drop_bit_eq_div)
  ultimately show "bit (word_of_nat (n mod 128) OR push_bit 7 (word_of_nat (n div 128)) :: 64 word) i
      = bit (word_of_nat n :: 64 word) i"
    by (auto simp: bit_or_iff bit_push_bit_iff bit_of_nat_iff)
qed

lemma varint_loop_enc:
  "n < 2 ^ (7 * k) \<Longrightarrow> 0 < k \<Longrightarrow> reads_as r (enc_varint n) rest \<Longrightarrow>
   varint_loop k r acc shift =
     Some (acc OR push_bit shift (word_of_nat n), rd_adv (length (enc_varint n)) r)"
proof (induction k arbitrary: n r acc shift)
  case (Suc k)
  show ?case
  proof (cases "n < 128")
    case True
    then have enc: "enc_varint n = [word_of_nat n]"
      by (simp add: enc_varint.simps)
    with Suc.prems(3) have ok: "rd_ok r" "rd_view r = word_of_nat n # rest"
      by (simp_all add: reads_as_def)
    note b = rd_view_Cons[OF ok]
    show ?thesis
      using b(1,2) True
      by (simp add: enc word_low7 word_no_bit7 ucast_of_small_nat Let_def)
  next
    case False
    define c where "c = (word_of_nat (n mod 128) OR 0x80 :: byte)"
    from False have enc: "enc_varint n = c # enc_varint (n div 128)"
      by (subst enc_varint.simps) (simp add: c_def)
    with Suc.prems(3) have ok: "rd_ok r" "rd_view r = c # enc_varint (n div 128) @ rest"
      by (simp_all add: reads_as_def)
    note b = rd_view_Cons[OF ok]
    have k: "0 < k"
      using Suc.prems(1) False by (cases k) auto
    have "n < 128 * 2 ^ (7 * k)"
      using Suc.prems(1) by (simp add: power_add mult.commute)
    then have small: "n div 128 < 2 ^ (7 * k)"
      by (simp add: less_mult_imp_div_less mult.commute)
    have "reads_as (rd_adv 1 r) (enc_varint (n div 128)) rest"
      using b(3,4) by (simp add: reads_as_def)
    note IH = Suc.IH[OF small k this]
    have "c AND 0x80 \<noteq> 0" "(ucast (c AND 0x7f) :: 64 word) = word_of_nat (n mod 128)"
      by (simp_all add: c_def byte_128_or_and_80 byte_128_or_and_7f ucast_of_small_nat)
    then have "varint_loop (Suc k) r acc shift =
        varint_loop k (rd_adv 1 r) (acc OR push_bit shift (word_of_nat (n mod 128))) (shift + 7)"
      using b(1,2) by (simp add: Let_def)
    also have "\<dots> = Some (acc OR push_bit shift (word_of_nat (n mod 128)) OR
        push_bit (shift + 7) (word_of_nat (n div 128)), rd_adv (Suc (length (enc_varint (n div 128)))) r)"
      using IH by (simp add: or.assoc)
    also have "acc OR push_bit shift (word_of_nat (n mod 128)) OR
        push_bit (shift + 7) (word_of_nat (n div 128)) = acc OR push_bit shift (word_of_nat n)"
      by (simp add: word_of_nat_split7[symmetric, of n] push_bit_or push_bit_push_bit or.assoc add.commute)
    finally show ?thesis by (simp add: enc)
  qed
qed simp

lemma pb_varint_enc:
  "n < 2 ^ 64 \<Longrightarrow> reads_as r (enc_varint n) rest \<Longrightarrow>
   pb_varint r = Some (word_of_nat n, rd_adv (length (enc_varint n)) r)"
  using varint_loop_enc[of n 10 r rest 0 0] by (simp add: pb_varint_def PB_VARINT_MAX_BYTES_def)

section \<open>Fixed-width fields\<close>

lemma length_enc_fixed64 [simp]: "length (enc_fixed64 w) = 8"
  by (simp add: enc_fixed64_def)

lemma length_enc_fixed32 [simp]: "length (enc_fixed32 w) = 4"
  by (simp add: enc_fixed32_def)

lemma reads_as_left: "reads_as r bs rest \<Longrightarrow> length bs \<le> rd_left r"
  using length_rd_view[of r] by (simp add: reads_as_def)

lemma reads_as_nth:
  "reads_as r bs rest \<Longrightarrow> i < length bs \<Longrightarrow> rd_buf r ! (rd_ptr r + i) = bs ! i"
  using rd_view_nth[of r i] reads_as_left[of r bs rest] by (simp add: reads_as_def nth_append)

text \<open>One step of a little-endian load: the next lower byte goes below the bits so far.\<close>

lemma le_step64:
  "push_bit 8 (drop_bit (k + 8) w) OR ucast (ucast (drop_bit k w) :: byte) = drop_bit k (w :: 64 word)"
  by (rule bit_eqI) (auto simp: bit_simps)

lemma le_step32:
  "push_bit k (ucast (ucast (drop_bit k w) :: byte)) OR push_bit (k + 8) (drop_bit (k + 8) w)
     = push_bit k (drop_bit k (w :: 32 word))"
proof (rule bit_eqI)
  fix i assume "possible_bit TYPE(32 word) i"
  show "bit (push_bit k (ucast (ucast (drop_bit k w) :: byte)) OR push_bit (k + 8) (drop_bit (k + 8) w)) i
      = bit (push_bit k (drop_bit k w)) i"
    by (cases "k + 8 \<le> i") (auto simp: bit_simps)
qed

lemma pb_fixed64_enc:
  assumes "reads_as r (enc_fixed64 w) rest"
  shows "pb_fixed64 r = Some (w, rd_adv 8 r)"
proof -
  note left = reads_as_left[OF assms] and nth = reads_as_nth[OF assms]
  have top: "ucast (ucast (drop_bit 56 w) :: byte) = drop_bit 56 w"
    by (rule bit_eqI) (auto simp: bit_simps dest: bit_imp_le_length)
  show ?thesis
    using left nth[of 0] nth[of 1] nth[of 2] nth[of 3] nth[of 4] nth[of 5] nth[of 6] nth[of 7] top
      le_step64[of 0 w] le_step64[of 8 w] le_step64[of 16 w] le_step64[of 24 w] le_step64[of 32 w]
      le_step64[of 40 w] le_step64[of 48 w]
    by (simp add: pb_fixed64_def enc_fixed64_def)
qed

lemma pb_fixed32_enc:
  assumes "reads_as r (enc_fixed32 w) rest"
  shows "pb_fixed32 r = Some (w, rd_adv 4 r)"
proof -
  note left = reads_as_left[OF assms] and nth = reads_as_nth[OF assms]
  have top: "ucast (ucast (drop_bit 24 w) :: byte) = drop_bit 24 w"
    by (rule bit_eqI) (auto simp: bit_simps dest: bit_imp_le_length)
  show ?thesis
    using left nth[of 0] nth[of 1] nth[of 2] nth[of 3] top
      le_step32[of 0 w] le_step32[of 8 w] le_step32[of 16 w]
    by (simp add: pb_fixed32_def enc_fixed32_def or.assoc)
qed

section \<open>Tags and length-delimited fields\<close>

lemma key_wire: "(ucast (word_of_nat n AND 0x07 :: 64 word) :: 32 word) = word_of_nat (n mod 8)"
proof (rule bit_eqI)
  fix i assume "possible_bit TYPE(32 word) i"
  have "bit (n mod 8) i \<longleftrightarrow> i < 3 \<and> bit n i"
    using bit_take_bit_iff[of 3 n i] by (simp add: take_bit_eq_mod)
  moreover have "(word_of_nat n AND 0x07 :: 64 word) = take_bit 3 (word_of_nat n)"
    by (simp add: take_bit_eq_mask mask_eq_exp_minus_1)
  ultimately show "bit (ucast (word_of_nat n AND 0x07 :: 64 word) :: 32 word) i
      = bit (word_of_nat (n mod 8) :: 32 word) i"
    by (auto simp: bit_simps bit_of_nat_iff)
qed

lemma key_field:
  assumes "n < 2 ^ 64"
  shows "(ucast (drop_bit 3 (word_of_nat n :: 64 word)) :: 32 word) = word_of_nat (n div 8)"
proof -
  have "drop_bit 3 (word_of_nat n :: 64 word) = word_of_nat (n div 8)"
    using assms by (intro word_unat_eq_iff[THEN iffD2])
      (simp add: unat_div unat_of_nat drop_bit_eq_div)
  moreover have "n div 8 < 2 ^ 64"
    using assms by (simp add: div_le_dividend order_le_less_trans)
  ultimately show ?thesis
    by (simp add: unsigned_of_nat take_bit_nat_eq_self)
qed

definition tag_of :: "nat \<Rightarrow> nat \<Rightarrow> pb_tag" where
  "tag_of field wire = \<lparr>tag_field = word_of_nat field, tag_wire = word_of_nat wire\<rparr>"

lemma pb_next_enc:
  assumes "reads_as r (enc_tag field wire) rest"
    and field: "0 < field" "field < 2 ^ 29" and wire: "wire \<in> {0, 1, 2, 5}"
  shows "pb_next r = PbTag (tag_of field wire) (rd_adv (length (enc_tag field wire)) r)"
proof -
  have bound: "8 * field + wire < 2 ^ 64"
    using field wire by auto
  have v: "pb_varint r = Some (word_of_nat (8 * field + wire), rd_adv (length (enc_tag field wire)) r)"
    using pb_varint_enc[OF bound] assms(1) by (simp add: enc_tag_def)
  have left: "rd_ptr r < rd_end r"
    using varint.shrinks[OF v] by (simp add: rd_left_def)
  have w: "(8 * field + wire) mod 8 = wire" and f: "(8 * field + wire) div 8 = field"
    using wire by auto
  have nz: "(word_of_nat field :: 32 word) \<noteq> 0"
  proof -
    have "unat (word_of_nat field :: 32 word) = field"
      using field by (simp add: unat_of_nat)
    then show ?thesis using field by auto
  qed
  have split: "(ucast (word_of_nat (8 * field + wire) AND 0x07 :: 64 word) :: 32 word) = word_of_nat wire"
      "(ucast (drop_bit 3 (word_of_nat (8 * field + wire) :: 64 word)) :: 32 word) = word_of_nat field"
    by (simp_all only: key_wire key_field[OF bound] w f)
  show ?thesis
    unfolding pb_next_def v option.case prod.case Let_def split
    using left nz wire by (auto simp: tag_of_def)
qed

lemma pb_bytes_enc:
  assumes "reads_as r (enc_bytes bs) rest" and "length bs < 2 ^ 64"
  shows "pb_bytes r = Some ((rd_ptr r + length (enc_varint (length bs)), length bs),
    rd_adv (length (enc_bytes bs)) r)"
proof -
  have "reads_as r (enc_varint (length bs)) (bs @ rest)"
    using assms(1) by (simp add: reads_as_def enc_bytes_def)
  then have v: "pb_varint r = Some (word_of_nat (length bs), rd_adv (length (enc_varint (length bs))) r)"
    using assms(2) by (rule pb_varint_enc[rotated])
  have "unat (word_of_nat (length bs) :: 64 word) = length bs"
    using assms(2) by (simp add: unat_of_nat)
  moreover have "length bs \<le> rd_left (rd_adv (length (enc_varint (length bs))) r)"
    using reads_as_left[OF assms(1)] by (simp add: enc_bytes_def)
  ultimately show ?thesis
    by (simp add: pb_bytes_def v enc_bytes_def)
qed

text \<open>What is borrowed are the encoded bytes, and the sub-reader sees exactly them.\<close>

lemma mem_bytes_enc:
  assumes "reads_as r (enc_bytes bs) rest" and that: "rd_buf q = rd_buf r"
  shows "mem_bytes q (rd_ptr r + length (enc_varint (length bs)), length bs) = bs"
proof -
  have "reads_as (rd_adv (length (enc_varint (length bs))) r) bs rest"
    using assms(1) by (intro reads_as_adv) (simp add: enc_bytes_def)
  then have "take (length bs) (rd_view (rd_adv (length (enc_varint (length bs))) r)) = bs"
    and "length bs \<le> rd_left (rd_adv (length (enc_varint (length bs))) r)"
    by (auto simp: reads_as_def dest: length_rd_view)
  then show ?thesis
    using that by (simp add: rd_view_def mem_bytes_def min_def)
qed

lemma pb_submsg_enc:
  assumes "reads_as r (enc_bytes bs) rest" and "length bs < 2 ^ 64"
  obtains sub where "pb_submsg r = Some (sub, rd_adv (length (enc_bytes bs)) r)"
    and "reads_as sub bs []" and "rd_buf sub = rd_buf r"
proof -
  define p where "p = rd_ptr r + length (enc_varint (length bs))"
  have ok: "rd_ok r"
    using assms(1) by (simp add: reads_as_def)
  have b: "pb_bytes r = Some ((p, length bs), rd_adv (length (enc_bytes bs)) r)"
    using pb_bytes_enc[OF assms] by (simp add: p_def)
  then have s: "pb_submsg r = Some (pb_reader_init (rd_buf r) p (length bs), rd_adv (length (enc_bytes bs)) r)"
    by (simp add: pb_submsg_def)
  have "rd_ok (pb_reader_init (rd_buf r) p (length bs))"
    using pb_submsg_within(1)[OF ok s] ok by (rule rd_within_ok)
  moreover have "rd_view (pb_reader_init (rd_buf r) p (length bs)) = bs"
    using mem_bytes_enc[OF assms(1) refl] by (simp add: rd_view_def rd_left_def pb_reader_init_def mem_bytes_def p_def)
  ultimately show ?thesis
    using that[OF s] by (simp add: reads_as_def pb_reader_init_def)
qed

end
