(* ===== verification/OtlpCommon.thy ===== *)
theory OtlpCommon
  imports CDouble WireSpec
begin

text \<open>
  The wire-format helpers shared by the trace and metric decoders:
  \<^verbatim>\<open>src/agent/otlp_common.c\<close> and \<^verbatim>\<open>include/agent/otlp_common.h\<close>.  The bounded string builder
  \<^verbatim>\<open>pw_sb_t\<close>, JSON string escaping, the copies into fixed \<^verbatim>\<open>char\<close> arrays, and the mutually
  recursive renderer of an OTLP \<^verbatim>\<open>AnyValue\<close> as JSON.  The C loops
  \<^verbatim>\<open>while (pb_next(r, &tag) == 1)\<close> are recursive functions over the reader; a \<^verbatim>\<open>break\<close> or an
  early \<^verbatim>\<open>return\<close> is the branch that does not recurse.
\<close>

unbundle bit_operations_syntax

section \<open>The bounded string builder\<close>

text \<open>\<open>sb_buf\<close> holds the \<^verbatim>\<open>len\<close> bytes written so far; the byte after them is always NUL.\<close>

record pw_sb =
  sb_buf :: "byte list"
  sb_cap :: nat
  sb_overflow :: bool

definition pw_sb_init :: "nat \<Rightarrow> pw_sb" where
  "pw_sb_init cap = \<lparr>sb_buf = [], sb_cap = cap, sb_overflow = False\<rparr>"

definition pw_sb_putc :: "pw_sb \<Rightarrow> byte \<Rightarrow> pw_sb" where
  "pw_sb_putc sb c =
     (if length (sb_buf sb) + 1 \<ge> sb_cap sb then sb\<lparr>sb_overflow := True\<rparr>
      else sb\<lparr>sb_buf := sb_buf sb @ [c]\<rparr>)"

fun pw_sb_puts :: "pw_sb \<Rightarrow> byte list \<Rightarrow> pw_sb" where
  "pw_sb_puts sb [] = sb"
| "pw_sb_puts sb (c # s) = pw_sb_puts (pw_sb_putc sb c) s"

text \<open>The callers' roll-back: \<^verbatim>\<open>sb->len = mark; sb->buf[mark] = 0\<close>.\<close>

definition sb_rollback :: "nat \<Rightarrow> pw_sb \<Rightarrow> pw_sb" where
  "sb_rollback mark sb = sb\<lparr>sb_buf := take mark (sb_buf sb)\<rparr>"

section \<open>UTF-8 and JSON strings\<close>

text \<open>\<open>s\<close> are the \<^verbatim>\<open>avail\<close> bytes at \<^verbatim>\<open>s\<close>, at least one.\<close>

definition utf8_need :: "byte \<Rightarrow> nat" where
  "utf8_need c =
     (if c < 0x80 then 1
      else if c AND 0xe0 = 0xc0 then 2
      else if c AND 0xf0 = 0xe0 then 3
      else if c AND 0xf8 = 0xf0 then 4
      else 0)"

definition utf8_seq_len :: "byte list \<Rightarrow> nat" where
  "utf8_seq_len s =
     (let c = s ! 0; need = utf8_need c
      in if need = 1 then 1
         else if need = 0 then 0
         else if length s < need then 0
         else if \<not> list_all (\<lambda>b. b AND 0xc0 = 0x80) (take (need - 1) (drop 1 s)) then 0
         else if need = 2 \<and> c < 0xc2 then 0
         else if need = 3 \<and> c = 0xe0 \<and> s ! 1 < 0xa0 then 0
         else if need = 4 \<and> (c > 0xf4 \<or> c = 0xf0 \<and> s ! 1 < 0x90) then 0
         else need)"

text \<open>What one step of the escaping loop writes, and how many input bytes it consumes.\<close>

definition json_step :: "byte list \<Rightarrow> byte list \<times> nat" where
  "json_step s =
     (let c = s ! 0
      in if c = 0x22 \<or> c = 0x5c then ([0x5c, c], 1)
         else if c = 0x0a then (0x5c # lit ''n'', 1)
         else if c = 0x0d then (0x5c # lit ''r'', 1)
         else if c = 0x09 then (0x5c # lit ''t'', 1)
         else if c < 0x20 then (0x5c # lit ''u'' @ hex04 c, 1)
         else if c < 0x80 then ([c], 1)
         else let n = utf8_seq_len s
              in if n = 0 then (0x5c # lit ''ufffd'', 1) else (take n s, n))"

lemma json_step_pos: "0 < snd (json_step s)"
  by (auto simp: json_step_def Let_def)

lemma json_step_pos2: "(out, n) = json_step s \<Longrightarrow> 0 < n"
  using json_step_pos[of s] by (cases "json_step s") simp

function json_loop :: "pw_sb \<Rightarrow> byte list \<Rightarrow> pw_sb" where
  "json_loop sb s =
     (if s = [] then sb
      else case json_step s of (out, n) \<Rightarrow> json_loop (pw_sb_puts sb out) (drop n s))"
  by pat_completeness auto
termination
  by (relation "measure (\<lambda>(sb, s). length s)") (auto dest: json_step_pos2)

declare json_loop.simps [simp del]

definition pw_sb_json_string :: "pw_sb \<Rightarrow> byte list \<Rightarrow> pw_sb" where
  "pw_sb_json_string sb s = pw_sb_putc (json_loop (pw_sb_putc sb 0x22) s) 0x22"

section \<open>Copies into fixed arrays\<close>

definition pw_copy_str :: "nat \<Rightarrow> byte list \<Rightarrow> cstring" where
  "pw_copy_str cap src = cstr (take (if length src \<ge> cap then cap - 1 else length src) src)"

definition pw_to_hex :: "nat \<Rightarrow> byte list \<Rightarrow> cstring" where
  "pw_to_hex dst_cap src =
     concat (map (\<lambda>b. [hex_digit (drop_bit 4 b), hex_digit (b AND 0x0f)])
       (take (min (length src) ((dst_cap - 1) div 2)) src))"

section \<open>KeyValue\<close>

abbreviation (input) F_KV_KEY :: "32 word" where "F_KV_KEY \<equiv> 1"
abbreviation (input) F_KV_VALUE :: "32 word" where "F_KV_VALUE \<equiv> 2"
abbreviation (input) F_AV_STRING :: "32 word" where "F_AV_STRING \<equiv> 1"
abbreviation (input) F_AV_BOOL :: "32 word" where "F_AV_BOOL \<equiv> 2"
abbreviation (input) F_AV_INT :: "32 word" where "F_AV_INT \<equiv> 3"
abbreviation (input) F_AV_DOUBLE :: "32 word" where "F_AV_DOUBLE \<equiv> 4"
abbreviation (input) F_AV_ARRAY :: "32 word" where "F_AV_ARRAY \<equiv> 5"
abbreviation (input) F_AV_KVLIST :: "32 word" where "F_AV_KVLIST \<equiv> 6"
abbreviation (input) F_AV_BYTES :: "32 word" where "F_AV_BYTES \<equiv> 7"
abbreviation (input) F_LIST_VALUES :: "32 word" where "F_LIST_VALUES \<equiv> 1"

definition PW_ATTR_MAX_DEPTH :: nat where "PW_ATTR_MAX_DEPTH = 4"

definition is_field :: "pb_tag \<Rightarrow> 32 word \<Rightarrow> 32 word \<Rightarrow> bool" where
  "is_field t f w \<longleftrightarrow> tag_field t = f \<and> tag_wire t = w"

text \<open>\<^verbatim>\<open>key\<close> and \<^verbatim>\<open>value_out\<close> as they stand; no value means \<^verbatim>\<open>*have_value == 0\<close>.\<close>

function parse_kv_loop ::
    "nat \<Rightarrow> pb_reader \<Rightarrow> cstring \<Rightarrow> pb_reader option \<Rightarrow> cstring \<times> pb_reader option" where
  "parse_kv_loop key_cap kv key val =
     (case pb_next kv of
        PbTag tag kv1 \<Rightarrow>
          if is_field tag F_KV_KEY PB_WIRE_BYTES then
            (case pb_bytes kv1 of
               None \<Rightarrow> (key, val)
             | Some (s, kv2) \<Rightarrow> parse_kv_loop key_cap kv2 (pw_copy_str key_cap (mem_bytes kv2 s)) val)
          else if is_field tag F_KV_VALUE PB_WIRE_BYTES then
            (case pb_submsg kv1 of
               None \<Rightarrow> (key, val)
             | Some (sub, kv2) \<Rightarrow> parse_kv_loop key_cap kv2 key (Some sub))
          else
            (case pb_skip (tag_wire tag) kv1 of
               None \<Rightarrow> (key, val)
             | Some (_, kv2) \<Rightarrow> parse_kv_loop key_cap kv2 key val)
      | _ \<Rightarrow> (key, val))"
  by pat_completeness auto
termination
  by (relation "measure (\<lambda>(c, kv, k, v). rd_left kv)") (auto dest!: shrink)

declare parse_kv_loop.simps [simp del]

definition pw_parse_kv :: "nat \<Rightarrow> pb_reader \<Rightarrow> cstring \<times> pb_reader option" where
  "pw_parse_kv key_cap kv = parse_kv_loop key_cap kv [] None"

text \<open>\<^verbatim>\<open>None\<close> is the result 0, where \<^verbatim>\<open>out\<close> is left as it was.\<close>

function pw_any_value_as_string :: "pb_reader \<Rightarrow> nat \<Rightarrow> cstring option" where
  "pw_any_value_as_string val cap =
     (case pb_next val of
        PbTag tag val1 \<Rightarrow>
          if is_field tag F_AV_STRING PB_WIRE_BYTES then
            (case pb_bytes val1 of
               None \<Rightarrow> None
             | Some (s, val2) \<Rightarrow> Some (pw_copy_str cap (mem_bytes val2 s)))
          else
            (case pb_skip (tag_wire tag) val1 of
               None \<Rightarrow> None
             | Some (_, val2) \<Rightarrow> pw_any_value_as_string val2 cap)
      | _ \<Rightarrow> None)"
  by pat_completeness auto
termination
  by (relation "measure (\<lambda>(r, c). rd_left r)") (auto dest!: shrink)

declare pw_any_value_as_string.simps [simp del]

text \<open>The value a KeyValue yields is a proper part of it: the recursion below terminates on it.\<close>

lemma parse_kv_loop_shrinks:
  "parse_kv_loop c kv k v = (key, Some r) \<Longrightarrow> rd_left kv \<le> n \<Longrightarrow>
   (\<And>q. v = Some q \<Longrightarrow> rd_left q < n) \<Longrightarrow> rd_left r < n"
proof (induction c kv k v rule: parse_kv_loop.induct)
  case (1 c kv k v)
  show ?case
  proof (cases "pb_next kv")
    case (PbTag tag kv1)
    note lt = pb_next_shrinks[OF PbTag]
    show ?thesis
      using "1.prems" PbTag lt "1.IH"[OF PbTag]
      by (subst (asm) parse_kv_loop.simps)
        (fastforce split: if_splits option.splits dest: shrink)
  qed (use "1.prems" in \<open>auto simp: parse_kv_loop.simps[of c kv]\<close>)
qed

lemma pw_parse_kv_shrinks: "pw_parse_kv c kv = (key, Some r) \<Longrightarrow> rd_left r < rd_left kv"
  unfolding pw_parse_kv_def by (erule parse_kv_loop_shrinks) auto

lemma pw_parse_kv_shrinks' [shrink]: "(key, Some r) = pw_parse_kv c kv \<Longrightarrow> rd_left r < rd_left kv"
  by (metis pw_parse_kv_shrinks)

section \<open>AnyValue as JSON\<close>

function decode_any_value :: "pb_reader \<Rightarrow> pw_sb \<Rightarrow> nat \<Rightarrow> pw_sb"
  and any_value_loop :: "pb_reader \<Rightarrow> pw_sb \<Rightarrow> nat \<Rightarrow> bool \<Rightarrow> pw_sb \<times> bool"
  and decode_value_list :: "pb_reader \<Rightarrow> pw_sb \<Rightarrow> nat \<Rightarrow> pw_sb"
  and value_list_loop :: "pb_reader \<Rightarrow> pw_sb \<Rightarrow> nat \<Rightarrow> bool \<Rightarrow> pw_sb"
  and decode_kvlist :: "pb_reader \<Rightarrow> pw_sb \<Rightarrow> nat \<Rightarrow> pw_sb"
  and kvlist_loop :: "pb_reader \<Rightarrow> pw_sb \<Rightarrow> nat \<Rightarrow> bool \<Rightarrow> pw_sb"
  and pw_append_kv_json :: "pb_reader \<Rightarrow> pw_sb \<Rightarrow> nat \<Rightarrow> bool \<times> pw_sb"
where
  "decode_any_value r sb depth =
     (if depth > PW_ATTR_MAX_DEPTH then pw_sb_puts sb (lit ''null'')
      else case any_value_loop r sb depth False of (sb1, wrote) \<Rightarrow>
        if \<not> wrote then pw_sb_puts sb1 (lit ''null'') else sb1)"
| "any_value_loop r sb depth wrote =
     (case pb_next r of
        PbTag tag r1 \<Rightarrow>
          if is_field tag F_AV_STRING PB_WIRE_BYTES then
            (case pb_bytes r1 of
               None \<Rightarrow> (sb, wrote)
             | Some (s, r2) \<Rightarrow> any_value_loop r2 (pw_sb_json_string sb (mem_bytes r2 s)) depth True)
          else if is_field tag F_AV_BOOL PB_WIRE_VARINT then
            (case pb_varint r1 of
               None \<Rightarrow> (sb, wrote)
             | Some (v, r2) \<Rightarrow>
                 any_value_loop r2 (pw_sb_puts sb (if v \<noteq> 0 then lit ''true'' else lit ''false'')) depth True)
          else if is_field tag F_AV_INT PB_WIRE_VARINT then
            (case pb_varint r1 of
               None \<Rightarrow> (sb, wrote)
             | Some (v, r2) \<Rightarrow> any_value_loop r2 (pw_sb_puts sb (dec_int (sint v))) depth True)
          else if is_field tag F_AV_DOUBLE PB_WIRE_FIXED64 then
            (case pb_fixed64 r1 of
               None \<Rightarrow> (sb, wrote)
             | Some (bits, r2) \<Rightarrow>
                 any_value_loop r2 (pw_sb_puts sb (fmt_g 17 (pb_bits_to_double bits))) depth True)
          else if is_field tag F_AV_ARRAY PB_WIRE_BYTES then
            (case pb_submsg r1 of
               None \<Rightarrow> (sb, wrote)
             | Some (sub, r2) \<Rightarrow> any_value_loop r2 (decode_value_list sub sb depth) depth True)
          else if is_field tag F_AV_KVLIST PB_WIRE_BYTES then
            (case pb_submsg r1 of
               None \<Rightarrow> (sb, wrote)
             | Some (sub, r2) \<Rightarrow> any_value_loop r2 (decode_kvlist sub sb depth) depth True)
          else if is_field tag F_AV_BYTES PB_WIRE_BYTES then
            (case pb_bytes r1 of
               None \<Rightarrow> (sb, wrote)
             | Some (s, r2) \<Rightarrow>
                 any_value_loop r2 (pw_sb_json_string sb (pw_to_hex 129 (mem_bytes r2 s))) depth True)
          else
            (case pb_skip (tag_wire tag) r1 of
               None \<Rightarrow> (sb, wrote)
             | Some (_, r2) \<Rightarrow> any_value_loop r2 sb depth wrote)
      | _ \<Rightarrow> (sb, wrote))"
| "decode_value_list r sb depth = pw_sb_putc (value_list_loop r (pw_sb_putc sb 0x5b) depth True) 0x5d"
| "value_list_loop r sb depth first =
     (case pb_next r of
        PbTag tag r1 \<Rightarrow>
          if is_field tag F_LIST_VALUES PB_WIRE_BYTES then
            (case pb_submsg r1 of
               None \<Rightarrow> sb
             | Some (sub, r2) \<Rightarrow>
                 value_list_loop r2
                   (decode_any_value sub (if \<not> first then pw_sb_putc sb 0x2c else sb) (depth + 1))
                   depth False)
          else
            (case pb_skip (tag_wire tag) r1 of
               None \<Rightarrow> sb
             | Some (_, r2) \<Rightarrow> value_list_loop r2 sb depth first)
      | _ \<Rightarrow> sb)"
| "decode_kvlist r sb depth = pw_sb_putc (kvlist_loop r (pw_sb_putc sb 0x7b) depth True) 0x7d"
| "kvlist_loop r sb depth first =
     (case pb_next r of
        PbTag tag r1 \<Rightarrow>
          if is_field tag F_LIST_VALUES PB_WIRE_BYTES then
            (case pb_submsg r1 of
               None \<Rightarrow> sb
             | Some (kv, r2) \<Rightarrow>
                 (case pw_append_kv_json kv (if \<not> first then pw_sb_putc sb 0x2c else sb) depth of
                    (wrote, sb1) \<Rightarrow>
                      if \<not> wrote then kvlist_loop r2 (sb_rollback (length (sb_buf sb)) sb1) depth first
                      else kvlist_loop r2 sb1 depth False))
          else
            (case pb_skip (tag_wire tag) r1 of
               None \<Rightarrow> sb
             | Some (_, r2) \<Rightarrow> kvlist_loop r2 sb depth first)
      | _ \<Rightarrow> sb)"
| "pw_append_kv_json kv sb depth =
     (case pw_parse_kv 256 kv of
        (key, val) \<Rightarrow>
          if key = [] then (False, sb)
          else
            let sb1 = pw_sb_putc (pw_sb_json_string sb key) 0x3a
            in case val of
                 Some v \<Rightarrow> (True, decode_any_value v sb1 (depth + 1))
               | None \<Rightarrow> (True, pw_sb_puts sb1 (lit ''null'')))"
  by pat_completeness auto
termination
  by (relation "measure (\<lambda>x. case x of
        Inl (Inl (r, sb, d)) \<Rightarrow> 2 * rd_left r + 1
      | Inl (Inr (Inl (r, sb, d, w))) \<Rightarrow> 2 * rd_left r
      | Inl (Inr (Inr (r, sb, d))) \<Rightarrow> 2 * rd_left r + 1
      | Inr (Inl (Inl (r, sb, d, f))) \<Rightarrow> 2 * rd_left r
      | Inr (Inl (Inr (r, sb, d))) \<Rightarrow> 2 * rd_left r + 1
      | Inr (Inr (Inl (r, sb, d, f))) \<Rightarrow> 2 * rd_left r
      | Inr (Inr (Inr (r, sb, d))) \<Rightarrow> 2 * rd_left r + 1)")
    (auto dest!: shrink)

lemmas any_value_simps =
  decode_any_value.simps any_value_loop.simps decode_value_list.simps value_list_loop.simps
  decode_kvlist.simps kvlist_loop.simps pw_append_kv_json.simps

declare any_value_simps [simp del]

end
