(* ===== verification/OtlpTrace.thy ===== *)
theory OtlpTrace
  imports OtlpCommon
begin

text \<open>
  The trace decoder: \<^verbatim>\<open>src/agent/otlp_trace.c\<close> with \<^verbatim>\<open>pw_span_t\<close> of \<^verbatim>\<open>include/agent/otlp.h\<close>.
  The sink is a state transformer on the caller's \<^verbatim>\<open>user_data\<close>; \<^verbatim>\<open>NULL\<close> is \<open>None\<close>.  Results
  \<open>(rc, \<dots>)\<close> are the C return codes: negative for a malformed message, positive when the
  sink asked to stop.
\<close>

unbundle bit_operations_syntax

section \<open>Spans\<close>

record pw_span =
  sp_label :: cstring
  sp_trace_id :: cstring
  sp_span_id :: cstring
  sp_parent_span_id :: cstring
  sp_name :: cstring
  sp_service_name :: cstring
  sp_scope_name :: cstring
  sp_kind :: cstring
  sp_status_code :: cstring
  sp_status_message :: cstring
  sp_start_ns :: "64 word"
  sp_end_ns :: "64 word"
  sp_duration_ns :: "64 word"
  sp_attributes_json :: cstring

record span_context =
  ctx_service_name :: cstring
  ctx_scope_name :: cstring
  ctx_label :: cstring

type_synonym 'u pw_span_sink = "(pw_span \<Rightarrow> 'u \<Rightarrow> int \<times> 'u) option"

definition PW_SPAN_NAME_MAX :: nat where "PW_SPAN_NAME_MAX = 512"
definition PW_SPAN_SERVICE_MAX :: nat where "PW_SPAN_SERVICE_MAX = 256"
definition PW_SPAN_SCOPE_MAX :: nat where "PW_SPAN_SCOPE_MAX = 256"
definition PW_SPAN_STATUS_MSG_MAX :: nat where "PW_SPAN_STATUS_MSG_MAX = 512"
definition PW_SPAN_ATTRS_MAX :: nat where "PW_SPAN_ATTRS_MAX = 8192"
definition PW_SPAN_LABEL_MAX :: nat where "PW_SPAN_LABEL_MAX = 100"

lemmas span_caps =
  PW_SPAN_NAME_MAX_def PW_SPAN_SERVICE_MAX_def PW_SPAN_SCOPE_MAX_def
  PW_SPAN_STATUS_MSG_MAX_def PW_SPAN_ATTRS_MAX_def PW_SPAN_LABEL_MAX_def

definition span_kind_name :: "64 word \<Rightarrow> cstring" where
  "span_kind_name kind =
     (if kind = 1 then lit ''INTERNAL''
      else if kind = 2 then lit ''SERVER''
      else if kind = 3 then lit ''CLIENT''
      else if kind = 4 then lit ''PRODUCER''
      else if kind = 5 then lit ''CONSUMER''
      else lit ''UNSPECIFIED'')"

definition status_code_name :: "64 word \<Rightarrow> cstring" where
  "status_code_name code =
     (if code = 1 then lit ''OK''
      else if code = 2 then lit ''ERROR''
      else lit ''UNSET'')"

section \<open>One span\<close>

definition span_init :: "span_context \<Rightarrow> pw_span" where
  "span_init ctx =
     \<lparr>sp_label = snprintf_s PW_SPAN_LABEL_MAX (ctx_label ctx),
      sp_trace_id = [], sp_span_id = [], sp_parent_span_id = [], sp_name = [],
      sp_service_name = snprintf_s PW_SPAN_SERVICE_MAX (ctx_service_name ctx),
      sp_scope_name = snprintf_s PW_SPAN_SCOPE_MAX (ctx_scope_name ctx),
      sp_kind = span_kind_name 0, sp_status_code = status_code_name 0,
      sp_status_message = [], sp_start_ns = 0, sp_end_ns = 0, sp_duration_ns = 0,
      sp_attributes_json = []\<rparr>"

text \<open>The loop over a \<^verbatim>\<open>Status\<close> submessage.\<close>

function status_loop :: "pb_reader \<Rightarrow> pw_span \<Rightarrow> pw_span" where
  "status_loop st sp =
     (case pb_next st of
        PbTag stt st1 \<Rightarrow>
          if is_field stt 2 PB_WIRE_BYTES then
            (case pb_bytes st1 of
               None \<Rightarrow> sp
             | Some (s, st2) \<Rightarrow>
                 status_loop st2
                   (sp\<lparr>sp_status_message := pw_copy_str PW_SPAN_STATUS_MSG_MAX (mem_bytes st2 s)\<rparr>))
          else if is_field stt 3 PB_WIRE_VARINT then
            (case pb_varint st1 of
               None \<Rightarrow> sp
             | Some (v, st2) \<Rightarrow> status_loop st2 (sp\<lparr>sp_status_code := status_code_name v\<rparr>))
          else
            (case pb_skip (tag_wire stt) st1 of
               None \<Rightarrow> sp
             | Some (_, st2) \<Rightarrow> status_loop st2 sp)
      | _ \<Rightarrow> sp)"
  by pat_completeness auto
termination
  by (relation "measure (\<lambda>(st, sp). rd_left st)") (auto dest!: shrink)

declare status_loop.simps [simp del]

text \<open>
  The field loop of \<^verbatim>\<open>decode_span\<close>.  \<open>attrs\<close> builds \<^verbatim>\<open>span.attributes_json\<close>; the result
  \<open>None\<close> is \<^verbatim>\<open>return -1\<close>.
\<close>

function span_loop ::
    "pb_reader \<Rightarrow> pw_span \<Rightarrow> pw_sb \<Rightarrow> bool \<Rightarrow> bool \<Rightarrow> (pw_span \<times> pw_sb \<times> bool) option" where
  "span_loop r sp attrs first_attr have_attrs =
     (case pb_next r of
        PbTag tag r1 \<Rightarrow>
          if is_field tag 1 PB_WIRE_BYTES then
            (case pb_bytes r1 of
               None \<Rightarrow> None
             | Some (s, r2) \<Rightarrow>
                 span_loop r2 (sp\<lparr>sp_trace_id := pw_to_hex 33 (mem_bytes r2 s)\<rparr>) attrs first_attr have_attrs)
          else if is_field tag 2 PB_WIRE_BYTES then
            (case pb_bytes r1 of
               None \<Rightarrow> None
             | Some (s, r2) \<Rightarrow>
                 span_loop r2 (sp\<lparr>sp_span_id := pw_to_hex 17 (mem_bytes r2 s)\<rparr>) attrs first_attr have_attrs)
          else if is_field tag 4 PB_WIRE_BYTES then
            (case pb_bytes r1 of
               None \<Rightarrow> None
             | Some (s, r2) \<Rightarrow>
                 span_loop r2 (sp\<lparr>sp_parent_span_id := pw_to_hex 17 (mem_bytes r2 s)\<rparr>)
                   attrs first_attr have_attrs)
          else if is_field tag 5 PB_WIRE_BYTES then
            (case pb_bytes r1 of
               None \<Rightarrow> None
             | Some (s, r2) \<Rightarrow>
                 span_loop r2 (sp\<lparr>sp_name := pw_copy_str PW_SPAN_NAME_MAX (mem_bytes r2 s)\<rparr>)
                   attrs first_attr have_attrs)
          else if is_field tag 6 PB_WIRE_VARINT then
            (case pb_varint r1 of
               None \<Rightarrow> None
             | Some (v, r2) \<Rightarrow>
                 span_loop r2 (sp\<lparr>sp_kind := span_kind_name v\<rparr>) attrs first_attr have_attrs)
          else if is_field tag 7 PB_WIRE_FIXED64 then
            (case pb_fixed64 r1 of
               None \<Rightarrow> None
             | Some (v, r2) \<Rightarrow> span_loop r2 (sp\<lparr>sp_start_ns := v\<rparr>) attrs first_attr have_attrs)
          else if is_field tag 8 PB_WIRE_FIXED64 then
            (case pb_fixed64 r1 of
               None \<Rightarrow> None
             | Some (v, r2) \<Rightarrow> span_loop r2 (sp\<lparr>sp_end_ns := v\<rparr>) attrs first_attr have_attrs)
          else if is_field tag 9 PB_WIRE_BYTES then
            (case pb_submsg r1 of
               None \<Rightarrow> None
             | Some (kv, r2) \<Rightarrow>
                 (case pw_append_kv_json kv (if \<not> first_attr then pw_sb_putc attrs 0x2c else attrs) 0 of
                    (wrote, attrs1) \<Rightarrow>
                      if wrote then span_loop r2 sp attrs1 False True
                      else span_loop r2 sp (sb_rollback (length (sb_buf attrs)) attrs1)
                             first_attr have_attrs))
          else if is_field tag 15 PB_WIRE_BYTES then
            (case pb_submsg r1 of
               None \<Rightarrow> None
             | Some (st, r2) \<Rightarrow> span_loop r2 (status_loop st sp) attrs first_attr have_attrs)
          else
            (case pb_skip (tag_wire tag) r1 of
               None \<Rightarrow> None
             | Some (_, r2) \<Rightarrow> span_loop r2 sp attrs first_attr have_attrs)
      | _ \<Rightarrow> Some (sp, attrs, have_attrs))"
  by pat_completeness auto
termination
  by (relation "measure (\<lambda>(r, sp, attrs, f, h). rd_left r)") (auto dest!: shrink)

declare span_loop.simps [simp del]

definition span_finish :: "pw_span \<Rightarrow> pw_sb \<Rightarrow> bool \<Rightarrow> pw_span" where
  "span_finish sp attrs have_attrs =
     sp\<lparr>sp_attributes_json :=
            (if \<not> have_attrs then lit ''{}'' else sb_buf (pw_sb_putc attrs 0x7d)),
          sp_duration_ns :=
            (if sp_end_ns sp \<ge> sp_start_ns sp then sp_end_ns sp - sp_start_ns sp else 0)\<rparr>"

definition decode_span :: "pb_reader \<Rightarrow> span_context \<Rightarrow> 'u pw_span_sink \<Rightarrow> 'u \<Rightarrow> int \<times> 'u" where
  "decode_span r ctx sink u =
     (case span_loop r (span_init ctx) (pw_sb_putc (pw_sb_init PW_SPAN_ATTRS_MAX) 0x7b) True False of
        None \<Rightarrow> (- 1, u)
      | Some (sp, attrs, have_attrs) \<Rightarrow>
          (case sink of
             None \<Rightarrow> (0, u)
           | Some f \<Rightarrow> f (span_finish sp attrs have_attrs) u))"

section \<open>Scopes, resources, the request\<close>

text \<open>The loop over an \<^verbatim>\<open>InstrumentationScope\<close>; it starts from the name held in the context.\<close>

function scope_loop :: "pb_reader \<Rightarrow> cstring \<Rightarrow> cstring" where
  "scope_loop scope name =
     (case pb_next scope of
        PbTag st scope1 \<Rightarrow>
          if is_field st 1 PB_WIRE_BYTES then
            (case pb_bytes scope1 of
               None \<Rightarrow> name
             | Some (s, scope2) \<Rightarrow> scope_loop scope2 (pw_copy_str PW_SPAN_SCOPE_MAX (mem_bytes scope2 s)))
          else
            (case pb_skip (tag_wire st) scope1 of
               None \<Rightarrow> name
             | Some (_, scope2) \<Rightarrow> scope_loop scope2 name)
      | _ \<Rightarrow> name)"
  by pat_completeness auto
termination
  by (relation "measure (\<lambda>(r, n). rd_left r)") (auto dest!: shrink)

declare scope_loop.simps [simp del]

function decode_scope_spans ::
    "pb_reader \<Rightarrow> span_context \<Rightarrow> 'u pw_span_sink \<Rightarrow> 'u \<Rightarrow> nat \<Rightarrow> int \<times> span_context \<times> 'u \<times> nat" where
  "decode_scope_spans r ctx sink u count =
     (case pb_next r of
        PbTag tag r1 \<Rightarrow>
          if is_field tag 1 PB_WIRE_BYTES then
            (case pb_submsg r1 of
               None \<Rightarrow> (- 1, ctx, u, count)
             | Some (scope, r2) \<Rightarrow>
                 decode_scope_spans r2 (ctx\<lparr>ctx_scope_name := scope_loop scope (ctx_scope_name ctx)\<rparr>)
                   sink u count)
          else if is_field tag 2 PB_WIRE_BYTES then
            (case pb_submsg r1 of
               None \<Rightarrow> (- 1, ctx, u, count)
             | Some (sp, r2) \<Rightarrow>
                 (case decode_span sp ctx sink u of (rc, u1) \<Rightarrow>
                    if rc < 0 then (- 1, ctx, u1, count)
                    else if rc > 0 then (1, ctx, u1, count)
                    else decode_scope_spans r2 ctx sink u1 (count + 1)))
          else
            (case pb_skip (tag_wire tag) r1 of
               None \<Rightarrow> (- 1, ctx, u, count)
             | Some (_, r2) \<Rightarrow> decode_scope_spans r2 ctx sink u count)
      | _ \<Rightarrow> (0, ctx, u, count))"
  by pat_completeness auto
termination
  by (relation "measure (\<lambda>(r, c, s, u, n). rd_left r)") (auto dest!: shrink)

declare decode_scope_spans.simps [simp del]

text \<open>The attributes of a \<^verbatim>\<open>Resource\<close>; the last \<^verbatim>\<open>service.name\<close> and \<^verbatim>\<open>procwatch.label\<close> win.\<close>

definition span_res_attr :: "pb_reader \<Rightarrow> span_context \<Rightarrow> span_context" where
  "span_res_attr kv ctx =
     (case pw_parse_kv 256 kv of
        (_, None) \<Rightarrow> ctx
      | (key, Some val) \<Rightarrow>
          if key = lit ''service.name'' then
            (case pw_any_value_as_string val PW_SPAN_SERVICE_MAX of
               None \<Rightarrow> ctx | Some s \<Rightarrow> ctx\<lparr>ctx_service_name := s\<rparr>)
          else if key = lit ''procwatch.label'' then
            (case pw_any_value_as_string val PW_SPAN_LABEL_MAX of
               None \<Rightarrow> ctx | Some s \<Rightarrow> ctx\<lparr>ctx_label := s\<rparr>)
          else ctx)"

function span_resource_loop :: "pb_reader \<Rightarrow> span_context \<Rightarrow> span_context" where
  "span_resource_loop res ctx =
     (case pb_next res of
        PbTag rt res1 \<Rightarrow>
          if is_field rt 1 PB_WIRE_BYTES then
            (case pb_submsg res1 of
               None \<Rightarrow> ctx
             | Some (kv, res2) \<Rightarrow> span_resource_loop res2 (span_res_attr kv ctx))
          else
            (case pb_skip (tag_wire rt) res1 of
               None \<Rightarrow> ctx
             | Some (_, res2) \<Rightarrow> span_resource_loop res2 ctx)
      | _ \<Rightarrow> ctx)"
  by pat_completeness auto
termination
  by (relation "measure (\<lambda>(r, c). rd_left r)") (auto dest!: shrink)

declare span_resource_loop.simps [simp del]

definition PENDING_MAX :: nat where "PENDING_MAX = 64"

definition span_ctx_init :: span_context where
  "span_ctx_init =
     \<lparr>ctx_service_name = snprintf_s PW_SPAN_SERVICE_MAX (lit ''unknown_service''),
      ctx_scope_name = [], ctx_label = []\<rparr>"

text \<open>
  The first loop of \<^verbatim>\<open>decode_resource_spans\<close>: \<open>Inl\<close> is an early return, \<open>Inr\<close> the context and
  the buffered scopes at the end of the message.
\<close>

function resource_spans_loop ::
    "pb_reader \<Rightarrow> span_context \<Rightarrow> pb_reader list \<Rightarrow> 'u pw_span_sink \<Rightarrow> 'u \<Rightarrow> nat \<Rightarrow>
     (int \<times> 'u \<times> nat) + (span_context \<times> pb_reader list \<times> 'u \<times> nat)" where
  "resource_spans_loop r ctx pending sink u count =
     (case pb_next r of
        PbTag tag r1 \<Rightarrow>
          if is_field tag 1 PB_WIRE_BYTES then
            (case pb_submsg r1 of
               None \<Rightarrow> Inl (- 1, u, count)
             | Some (res, r2) \<Rightarrow>
                 resource_spans_loop r2 (span_resource_loop res ctx) pending sink u count)
          else if is_field tag 2 PB_WIRE_BYTES then
            (case pb_submsg r1 of
               None \<Rightarrow> Inl (- 1, u, count)
             | Some (ss, r2) \<Rightarrow>
                 if length pending < PENDING_MAX then
                   resource_spans_loop r2 ctx (pending @ [ss]) sink u count
                 else
                   (case decode_scope_spans ss ctx sink u count of (rc, ctx1, u1, count1) \<Rightarrow>
                      if rc \<noteq> 0 then Inl (rc, u1, count1)
                      else resource_spans_loop r2 ctx1 pending sink u1 count1))
          else
            (case pb_skip (tag_wire tag) r1 of
               None \<Rightarrow> Inl (- 1, u, count)
             | Some (_, r2) \<Rightarrow> resource_spans_loop r2 ctx pending sink u count)
      | _ \<Rightarrow> Inr (ctx, pending, u, count))"
  by pat_completeness auto
termination
  by (relation "measure (\<lambda>(r, c, p, s, u, n). rd_left r)") (auto dest!: shrink)

declare resource_spans_loop.simps [simp del]

fun pending_spans ::
    "pb_reader list \<Rightarrow> span_context \<Rightarrow> 'u pw_span_sink \<Rightarrow> 'u \<Rightarrow> nat \<Rightarrow> int \<times> 'u \<times> nat" where
  "pending_spans [] ctx sink u count = (0, u, count)"
| "pending_spans (ss # rest) ctx sink u count =
     (case decode_scope_spans ss ctx sink u count of (rc, ctx1, u1, count1) \<Rightarrow>
        if rc \<noteq> 0 then (rc, u1, count1) else pending_spans rest ctx1 sink u1 count1)"

definition decode_resource_spans ::
    "pb_reader \<Rightarrow> 'u pw_span_sink \<Rightarrow> 'u \<Rightarrow> nat \<Rightarrow> int \<times> 'u \<times> nat" where
  "decode_resource_spans r sink u count =
     (case resource_spans_loop r span_ctx_init [] sink u count of
        Inl res \<Rightarrow> res
      | Inr (ctx, pending, u1, count1) \<Rightarrow> pending_spans pending ctx sink u1 count1)"

text \<open>\<^verbatim>\<open>return count ? count : -1\<close>\<close>

definition count_or_error :: "nat \<Rightarrow> int" where
  "count_or_error count = (if count \<noteq> 0 then int count else - 1)"

function traces_loop :: "pb_reader \<Rightarrow> 'u pw_span_sink \<Rightarrow> 'u \<Rightarrow> nat \<Rightarrow> int \<times> 'u" where
  "traces_loop r sink u count =
     (case pb_next r of
        PbTag tag r1 \<Rightarrow>
          if is_field tag 1 PB_WIRE_BYTES then
            (case pb_submsg r1 of
               None \<Rightarrow> (count_or_error count, u)
             | Some (rs, r2) \<Rightarrow>
                 (case decode_resource_spans rs sink u count of (rc, u1, count1) \<Rightarrow>
                    if rc < 0 then (count_or_error count1, u1)
                    else if rc > 0 then (int count1, u1)
                    else traces_loop r2 sink u1 count1))
          else
            (case pb_skip (tag_wire tag) r1 of
               None \<Rightarrow> (count_or_error count, u)
             | Some (_, r2) \<Rightarrow> traces_loop r2 sink u count)
      | _ \<Rightarrow> (int count, u))"
  by pat_completeness auto
termination
  by (relation "measure (\<lambda>(r, s, u, n). rd_left r)") (auto dest!: shrink)

declare traces_loop.simps [simp del]

definition otlp_decode_traces :: "byte list \<Rightarrow> 'u pw_span_sink \<Rightarrow> 'u \<Rightarrow> int \<times> 'u" where
  "otlp_decode_traces body sink u = traces_loop (pb_reader_init body 0 (length body)) sink u 0"

end
