(* ===== verification/OtlpMetric.thy ===== *)
theory OtlpMetric
  imports OtlpTrace
begin

text \<open>
  The metrics decoder: \<^verbatim>\<open>src/agent/otlp_metric.c\<close> with \<^verbatim>\<open>pw_metric_point_t\<close> of
  \<^verbatim>\<open>include/agent/otlp.h\<close>.  Gauge, sum and histogram points become one flat record each and
  are handed to a sink, with the same return codes as the trace decoder.
\<close>

unbundle bit_operations_syntax

section \<open>Data points\<close>

record pw_metric_point =
  mp_label :: cstring
  mp_service_name :: cstring
  mp_scope_name :: cstring
  mp_pid_key :: cstring
  mp_metric_name :: cstring
  mp_description :: cstring
  mp_unit :: cstring
  mp_metric_type :: cstring
  mp_value :: dbl
  mp_count :: "64 word"
  mp_time_ns :: "64 word"
  mp_attributes_json :: cstring

record metric_context =
  mctx_service_name :: cstring
  mctx_scope_name :: cstring
  mctx_label :: cstring
  mctx_pid_key :: cstring

type_synonym 'u pw_metric_sink = "(pw_metric_point \<Rightarrow> 'u \<Rightarrow> int \<times> 'u) option"

definition PW_METRIC_NAME_MAX :: nat where "PW_METRIC_NAME_MAX = 256"
definition PW_METRIC_UNIT_MAX :: nat where "PW_METRIC_UNIT_MAX = 64"
definition PW_METRIC_DESC_MAX :: nat where "PW_METRIC_DESC_MAX = 256"
definition PW_METRIC_ATTRS_MAX :: nat where "PW_METRIC_ATTRS_MAX = 2048"
definition PW_METRIC_PID_KEY_MAX :: nat where "PW_METRIC_PID_KEY_MAX = 64"

lemmas metric_caps =
  PW_METRIC_NAME_MAX_def PW_METRIC_UNIT_MAX_def PW_METRIC_DESC_MAX_def
  PW_METRIC_ATTRS_MAX_def PW_METRIC_PID_KEY_MAX_def

datatype metric_kind = Gauge | Sum | Histogram

definition kind_name :: "metric_kind \<Rightarrow> cstring" where
  "kind_name k = (case k of Gauge \<Rightarrow> lit ''gauge'' | Sum \<Rightarrow> lit ''sum'' | Histogram \<Rightarrow> lit ''histogram'')"

text \<open>
  \<^verbatim>\<open>decode_point_attrs\<close>: the builder and the flags \<^verbatim>\<open>first\<close> and \<^verbatim>\<open>have_attrs\<close> after one
  attribute.
\<close>

definition decode_point_attrs :: "pb_reader \<Rightarrow> pw_sb \<Rightarrow> bool \<Rightarrow> bool \<Rightarrow> pw_sb \<times> bool \<times> bool" where
  "decode_point_attrs kv attrs first have_attrs =
     (case pw_append_kv_json kv (if \<not> first then pw_sb_putc attrs 0x2c else attrs) 0 of
        (wrote, attrs1) \<Rightarrow>
          if wrote then (attrs1, False, True)
          else (sb_rollback (length (sb_buf attrs)) attrs1, first, have_attrs))"

definition point_init ::
    "metric_context \<Rightarrow> cstring \<Rightarrow> cstring \<Rightarrow> cstring \<Rightarrow> cstring \<Rightarrow> 64 word \<Rightarrow> pw_metric_point" where
  "point_init ctx name description unit metric_type count =
     \<lparr>mp_label = snprintf_s PW_SPAN_LABEL_MAX (mctx_label ctx),
      mp_service_name = snprintf_s PW_SPAN_SERVICE_MAX (mctx_service_name ctx),
      mp_scope_name = snprintf_s PW_SPAN_SCOPE_MAX (mctx_scope_name ctx),
      mp_pid_key = snprintf_s PW_METRIC_PID_KEY_MAX (mctx_pid_key ctx),
      mp_metric_name = snprintf_s PW_METRIC_NAME_MAX name,
      mp_description = snprintf_s PW_METRIC_DESC_MAX description,
      mp_unit = snprintf_s PW_METRIC_UNIT_MAX unit,
      mp_metric_type = metric_type, mp_value = 0, mp_count = count, mp_time_ns = 0,
      mp_attributes_json = []\<rparr>"

definition point_finish :: "pw_metric_point \<Rightarrow> pw_sb \<Rightarrow> bool \<Rightarrow> pw_metric_point" where
  "point_finish pt attrs have_attrs =
     pt\<lparr>mp_attributes_json := (if \<not> have_attrs then lit ''{}'' else sb_buf (pw_sb_putc attrs 0x7d))\<rparr>"

function number_loop ::
    "pb_reader \<Rightarrow> pw_metric_point \<Rightarrow> pw_sb \<Rightarrow> bool \<Rightarrow> bool \<Rightarrow> (pw_metric_point \<times> pw_sb \<times> bool) option" where
  "number_loop r pt attrs first_attr have_attrs =
     (case pb_next r of
        PbTag tag r1 \<Rightarrow>
          if is_field tag 3 PB_WIRE_FIXED64 then
            (case pb_fixed64 r1 of
               None \<Rightarrow> None
             | Some (v, r2) \<Rightarrow> number_loop r2 (pt\<lparr>mp_time_ns := v\<rparr>) attrs first_attr have_attrs)
          else if is_field tag 4 PB_WIRE_FIXED64 then
            (case pb_fixed64 r1 of
               None \<Rightarrow> None
             | Some (bits, r2) \<Rightarrow>
                 number_loop r2 (pt\<lparr>mp_value := pb_bits_to_double bits\<rparr>) attrs first_attr have_attrs)
          else if is_field tag 6 PB_WIRE_FIXED64 then
            (case pb_fixed64 r1 of
               None \<Rightarrow> None
             | Some (bits, r2) \<Rightarrow>
                 number_loop r2 (pt\<lparr>mp_value := dbl_of_int64 bits\<rparr>) attrs first_attr have_attrs)
          else if is_field tag 7 PB_WIRE_BYTES then
            (case pb_submsg r1 of
               None \<Rightarrow> None
             | Some (kv, r2) \<Rightarrow>
                 (case decode_point_attrs kv attrs first_attr have_attrs of
                    (attrs1, first1, have1) \<Rightarrow> number_loop r2 pt attrs1 first1 have1))
          else
            (case pb_skip (tag_wire tag) r1 of
               None \<Rightarrow> None
             | Some (_, r2) \<Rightarrow> number_loop r2 pt attrs first_attr have_attrs)
      | _ \<Rightarrow> Some (pt, attrs, have_attrs))"
  by pat_completeness auto
termination
  by (relation "measure (\<lambda>(r, pt, attrs, f, h). rd_left r)") (auto dest!: shrink)

declare number_loop.simps [simp del]

definition decode_number_point ::
    "pb_reader \<Rightarrow> metric_context \<Rightarrow> cstring \<Rightarrow> cstring \<Rightarrow> cstring \<Rightarrow> cstring \<Rightarrow>
     'u pw_metric_sink \<Rightarrow> 'u \<Rightarrow> int \<times> 'u" where
  "decode_number_point r ctx name description unit metric_type sink u =
     (case number_loop r (point_init ctx name description unit metric_type 1)
             (pw_sb_putc (pw_sb_init PW_METRIC_ATTRS_MAX) 0x7b) True False of
        None \<Rightarrow> (- 1, u)
      | Some (pt, attrs, have_attrs) \<Rightarrow>
          (case sink of None \<Rightarrow> (0, u) | Some f \<Rightarrow> f (point_finish pt attrs have_attrs) u))"

function histogram_loop ::
    "pb_reader \<Rightarrow> pw_metric_point \<Rightarrow> pw_sb \<Rightarrow> bool \<Rightarrow> bool \<Rightarrow> (pw_metric_point \<times> pw_sb \<times> bool) option" where
  "histogram_loop r pt attrs first_attr have_attrs =
     (case pb_next r of
        PbTag tag r1 \<Rightarrow>
          if is_field tag 3 PB_WIRE_FIXED64 then
            (case pb_fixed64 r1 of
               None \<Rightarrow> None
             | Some (v, r2) \<Rightarrow> histogram_loop r2 (pt\<lparr>mp_time_ns := v\<rparr>) attrs first_attr have_attrs)
          else if is_field tag 4 PB_WIRE_FIXED64 then
            (case pb_fixed64 r1 of
               None \<Rightarrow> None
             | Some (v, r2) \<Rightarrow> histogram_loop r2 (pt\<lparr>mp_count := v\<rparr>) attrs first_attr have_attrs)
          else if is_field tag 5 PB_WIRE_FIXED64 then
            (case pb_fixed64 r1 of
               None \<Rightarrow> None
             | Some (bits, r2) \<Rightarrow>
                 histogram_loop r2 (pt\<lparr>mp_value := pb_bits_to_double bits\<rparr>) attrs first_attr have_attrs)
          else if is_field tag 9 PB_WIRE_BYTES then
            (case pb_submsg r1 of
               None \<Rightarrow> None
             | Some (kv, r2) \<Rightarrow>
                 (case decode_point_attrs kv attrs first_attr have_attrs of
                    (attrs1, first1, have1) \<Rightarrow> histogram_loop r2 pt attrs1 first1 have1))
          else
            (case pb_skip (tag_wire tag) r1 of
               None \<Rightarrow> None
             | Some (_, r2) \<Rightarrow> histogram_loop r2 pt attrs first_attr have_attrs)
      | _ \<Rightarrow> Some (pt, attrs, have_attrs))"
  by pat_completeness auto
termination
  by (relation "measure (\<lambda>(r, pt, attrs, f, h). rd_left r)") (auto dest!: shrink)

declare histogram_loop.simps [simp del]

definition decode_histogram_point ::
    "pb_reader \<Rightarrow> metric_context \<Rightarrow> cstring \<Rightarrow> cstring \<Rightarrow> cstring \<Rightarrow>
     'u pw_metric_sink \<Rightarrow> 'u \<Rightarrow> int \<times> 'u" where
  "decode_histogram_point r ctx name description unit sink u =
     (case histogram_loop r (point_init ctx name description unit (lit ''histogram'') 0)
             (pw_sb_putc (pw_sb_init PW_METRIC_ATTRS_MAX) 0x7b) True False of
        None \<Rightarrow> (- 1, u)
      | Some (pt, attrs, have_attrs) \<Rightarrow>
          (case sink of None \<Rightarrow> (0, u) | Some f \<Rightarrow> f (point_finish pt attrs have_attrs) u))"

section \<open>Metrics\<close>

definition METRIC_PENDING_MAX :: nat where "METRIC_PENDING_MAX = 8"

record metric_head =
  mh_name :: cstring
  mh_description :: cstring
  mh_unit :: cstring
  mh_pending :: "(metric_kind \<times> pb_reader) list"

text \<open>The first loop of \<^verbatim>\<open>decode_metric\<close>; \<open>None\<close> is \<^verbatim>\<open>return -1\<close>.\<close>

function metric_head_loop :: "pb_reader \<Rightarrow> metric_head \<Rightarrow> metric_head option" where
  "metric_head_loop r h =
     (case pb_next r of
        PbTag tag r1 \<Rightarrow>
          if is_field tag 1 PB_WIRE_BYTES then
            (case pb_bytes r1 of
               None \<Rightarrow> None
             | Some (s, r2) \<Rightarrow>
                 metric_head_loop r2 (h\<lparr>mh_name := pw_copy_str PW_METRIC_NAME_MAX (mem_bytes r2 s)\<rparr>))
          else if is_field tag 2 PB_WIRE_BYTES then
            (case pb_bytes r1 of
               None \<Rightarrow> None
             | Some (s, r2) \<Rightarrow>
                 metric_head_loop r2 (h\<lparr>mh_description := pw_copy_str PW_METRIC_DESC_MAX (mem_bytes r2 s)\<rparr>))
          else if is_field tag 3 PB_WIRE_BYTES then
            (case pb_bytes r1 of
               None \<Rightarrow> None
             | Some (s, r2) \<Rightarrow>
                 metric_head_loop r2 (h\<lparr>mh_unit := pw_copy_str PW_METRIC_UNIT_MAX (mem_bytes r2 s)\<rparr>))
          else if is_field tag 5 PB_WIRE_BYTES \<or> is_field tag 7 PB_WIRE_BYTES \<or> is_field tag 9 PB_WIRE_BYTES then
            (case pb_submsg r1 of
               None \<Rightarrow> None
             | Some (sub, r2) \<Rightarrow>
                 metric_head_loop r2
                   (if length (mh_pending h) < METRIC_PENDING_MAX then
                      h\<lparr>mh_pending := mh_pending h @
                          [(if tag_field tag = 5 then Gauge else if tag_field tag = 7 then Sum else Histogram, sub)]\<rparr>
                    else h))
          else
            (case pb_skip (tag_wire tag) r1 of
               None \<Rightarrow> None
             | Some (_, r2) \<Rightarrow> metric_head_loop r2 h)
      | _ \<Rightarrow> Some h)"
  by pat_completeness auto
termination
  by (relation "measure (\<lambda>(r, h). rd_left r)") (auto dest!: shrink)

declare metric_head_loop.simps [simp del]

definition decode_point ::
    "metric_kind \<Rightarrow> pb_reader \<Rightarrow> metric_context \<Rightarrow> metric_head \<Rightarrow> 'u pw_metric_sink \<Rightarrow> 'u \<Rightarrow> int \<times> 'u" where
  "decode_point k point ctx h sink u =
     (if k = Histogram then
        decode_histogram_point point ctx (mh_name h) (mh_description h) (mh_unit h) sink u
      else
        decode_number_point point ctx (mh_name h) (mh_description h) (mh_unit h) (kind_name k) sink u)"

text \<open>The data points of one gauge, sum or histogram (all keep them in field 1).\<close>

function points_loop ::
    "metric_kind \<Rightarrow> pb_reader \<Rightarrow> metric_context \<Rightarrow> metric_head \<Rightarrow> 'u pw_metric_sink \<Rightarrow> 'u \<Rightarrow> nat \<Rightarrow>
     int \<times> 'u \<times> nat" where
  "points_loop k container ctx h sink u count =
     (case pb_next container of
        PbTag dtag c1 \<Rightarrow>
          if is_field dtag 1 PB_WIRE_BYTES then
            (case pb_submsg c1 of
               None \<Rightarrow> (- 1, u, count)
             | Some (point, c2) \<Rightarrow>
                 (case decode_point k point ctx h sink u of (rc, u1) \<Rightarrow>
                    if rc < 0 then (- 1, u1, count)
                    else if rc > 0 then (1, u1, count)
                    else points_loop k c2 ctx h sink u1 (count + 1)))
          else
            (case pb_skip (tag_wire dtag) c1 of
               None \<Rightarrow> (- 1, u, count)
             | Some (_, c2) \<Rightarrow> points_loop k c2 ctx h sink u count)
      | _ \<Rightarrow> (0, u, count))"
  by pat_completeness auto
termination
  by (relation "measure (\<lambda>(k, r, c, h, s, u, n). rd_left r)") (auto dest!: shrink)

declare points_loop.simps [simp del]

fun pending_points ::
    "(metric_kind \<times> pb_reader) list \<Rightarrow> metric_context \<Rightarrow> metric_head \<Rightarrow> 'u pw_metric_sink \<Rightarrow> 'u \<Rightarrow> nat \<Rightarrow>
     int \<times> 'u \<times> nat" where
  "pending_points [] ctx h sink u count = (0, u, count)"
| "pending_points ((k, container) # rest) ctx h sink u count =
     (case points_loop k container ctx h sink u count of (rc, u1, count1) \<Rightarrow>
        if rc \<noteq> 0 then (rc, u1, count1) else pending_points rest ctx h sink u1 count1)"

definition decode_metric ::
    "pb_reader \<Rightarrow> metric_context \<Rightarrow> 'u pw_metric_sink \<Rightarrow> 'u \<Rightarrow> nat \<Rightarrow> int \<times> 'u \<times> nat" where
  "decode_metric r ctx sink u count =
     (case metric_head_loop r \<lparr>mh_name = [], mh_description = [], mh_unit = [], mh_pending = []\<rparr> of
        None \<Rightarrow> (- 1, u, count)
      | Some h \<Rightarrow>
          if mh_name h = [] then (0, u, count)
          else pending_points (mh_pending h) ctx h sink u count)"

section \<open>Scopes, resources, the request\<close>

text \<open>The scope's name is read by the same loop as in the trace decoder.\<close>

function decode_scope_metrics ::
    "pb_reader \<Rightarrow> metric_context \<Rightarrow> 'u pw_metric_sink \<Rightarrow> 'u \<Rightarrow> nat \<Rightarrow> int \<times> metric_context \<times> 'u \<times> nat" where
  "decode_scope_metrics r ctx sink u count =
     (case pb_next r of
        PbTag tag r1 \<Rightarrow>
          if is_field tag 1 PB_WIRE_BYTES then
            (case pb_submsg r1 of
               None \<Rightarrow> (- 1, ctx, u, count)
             | Some (scope, r2) \<Rightarrow>
                 decode_scope_metrics r2 (ctx\<lparr>mctx_scope_name := scope_loop scope (mctx_scope_name ctx)\<rparr>)
                   sink u count)
          else if is_field tag 2 PB_WIRE_BYTES then
            (case pb_submsg r1 of
               None \<Rightarrow> (- 1, ctx, u, count)
             | Some (metric, r2) \<Rightarrow>
                 (case decode_metric metric ctx sink u count of (rc, u1, count1) \<Rightarrow>
                    if rc < 0 then (- 1, ctx, u1, count1)
                    else if rc > 0 then (1, ctx, u1, count1)
                    else decode_scope_metrics r2 ctx sink u1 count1))
          else
            (case pb_skip (tag_wire tag) r1 of
               None \<Rightarrow> (- 1, ctx, u, count)
             | Some (_, r2) \<Rightarrow> decode_scope_metrics r2 ctx sink u count)
      | _ \<Rightarrow> (0, ctx, u, count))"
  by pat_completeness auto
termination
  by (relation "measure (\<lambda>(r, c, s, u, n). rd_left r)") (auto dest!: shrink)

declare decode_scope_metrics.simps [simp del]

definition metric_res_attr :: "pb_reader \<Rightarrow> metric_context \<Rightarrow> metric_context" where
  "metric_res_attr kv ctx =
     (case pw_parse_kv 256 kv of
        (_, None) \<Rightarrow> ctx
      | (key, Some val) \<Rightarrow>
          if key = lit ''service.name'' then
            (case pw_any_value_as_string val PW_SPAN_SERVICE_MAX of
               None \<Rightarrow> ctx | Some s \<Rightarrow> ctx\<lparr>mctx_service_name := s\<rparr>)
          else if key = lit ''procwatch.label'' then
            (case pw_any_value_as_string val PW_SPAN_LABEL_MAX of
               None \<Rightarrow> ctx | Some s \<Rightarrow> ctx\<lparr>mctx_label := s\<rparr>)
          else if key = lit ''procwatch.pid_key'' then
            (case pw_any_value_as_string val PW_METRIC_PID_KEY_MAX of
               None \<Rightarrow> ctx | Some s \<Rightarrow> ctx\<lparr>mctx_pid_key := s\<rparr>)
          else ctx)"

function metric_resource_loop :: "pb_reader \<Rightarrow> metric_context \<Rightarrow> metric_context" where
  "metric_resource_loop res ctx =
     (case pb_next res of
        PbTag rt res1 \<Rightarrow>
          if is_field rt 1 PB_WIRE_BYTES then
            (case pb_submsg res1 of
               None \<Rightarrow> ctx
             | Some (kv, res2) \<Rightarrow> metric_resource_loop res2 (metric_res_attr kv ctx))
          else
            (case pb_skip (tag_wire rt) res1 of
               None \<Rightarrow> ctx
             | Some (_, res2) \<Rightarrow> metric_resource_loop res2 ctx)
      | _ \<Rightarrow> ctx)"
  by pat_completeness auto
termination
  by (relation "measure (\<lambda>(r, c). rd_left r)") (auto dest!: shrink)

declare metric_resource_loop.simps [simp del]

definition metric_ctx_init :: metric_context where
  "metric_ctx_init =
     \<lparr>mctx_service_name = snprintf_s PW_SPAN_SERVICE_MAX (lit ''unknown_service''),
      mctx_scope_name = [], mctx_label = [], mctx_pid_key = []\<rparr>"

function resource_metrics_loop ::
    "pb_reader \<Rightarrow> metric_context \<Rightarrow> pb_reader list \<Rightarrow> 'u pw_metric_sink \<Rightarrow> 'u \<Rightarrow> nat \<Rightarrow>
     (int \<times> 'u \<times> nat) + (metric_context \<times> pb_reader list \<times> 'u \<times> nat)" where
  "resource_metrics_loop r ctx pending sink u count =
     (case pb_next r of
        PbTag tag r1 \<Rightarrow>
          if is_field tag 1 PB_WIRE_BYTES then
            (case pb_submsg r1 of
               None \<Rightarrow> Inl (- 1, u, count)
             | Some (res, r2) \<Rightarrow>
                 resource_metrics_loop r2 (metric_resource_loop res ctx) pending sink u count)
          else if is_field tag 2 PB_WIRE_BYTES then
            (case pb_submsg r1 of
               None \<Rightarrow> Inl (- 1, u, count)
             | Some (sm, r2) \<Rightarrow>
                 if length pending < PENDING_MAX then
                   resource_metrics_loop r2 ctx (pending @ [sm]) sink u count
                 else
                   (case decode_scope_metrics sm ctx sink u count of (rc, ctx1, u1, count1) \<Rightarrow>
                      if rc \<noteq> 0 then Inl (rc, u1, count1)
                      else resource_metrics_loop r2 ctx1 pending sink u1 count1))
          else
            (case pb_skip (tag_wire tag) r1 of
               None \<Rightarrow> Inl (- 1, u, count)
             | Some (_, r2) \<Rightarrow> resource_metrics_loop r2 ctx pending sink u count)
      | _ \<Rightarrow> Inr (ctx, pending, u, count))"
  by pat_completeness auto
termination
  by (relation "measure (\<lambda>(r, c, p, s, u, n). rd_left r)") (auto dest!: shrink)

declare resource_metrics_loop.simps [simp del]

fun pending_metrics ::
    "pb_reader list \<Rightarrow> metric_context \<Rightarrow> 'u pw_metric_sink \<Rightarrow> 'u \<Rightarrow> nat \<Rightarrow> int \<times> 'u \<times> nat" where
  "pending_metrics [] ctx sink u count = (0, u, count)"
| "pending_metrics (sm # rest) ctx sink u count =
     (case decode_scope_metrics sm ctx sink u count of (rc, ctx1, u1, count1) \<Rightarrow>
        if rc \<noteq> 0 then (rc, u1, count1) else pending_metrics rest ctx1 sink u1 count1)"

definition decode_resource_metrics ::
    "pb_reader \<Rightarrow> 'u pw_metric_sink \<Rightarrow> 'u \<Rightarrow> nat \<Rightarrow> int \<times> 'u \<times> nat" where
  "decode_resource_metrics r sink u count =
     (case resource_metrics_loop r metric_ctx_init [] sink u count of
        Inl res \<Rightarrow> res
      | Inr (ctx, pending, u1, count1) \<Rightarrow> pending_metrics pending ctx sink u1 count1)"

function metrics_loop :: "pb_reader \<Rightarrow> 'u pw_metric_sink \<Rightarrow> 'u \<Rightarrow> nat \<Rightarrow> int \<times> 'u" where
  "metrics_loop r sink u count =
     (case pb_next r of
        PbTag tag r1 \<Rightarrow>
          if is_field tag 1 PB_WIRE_BYTES then
            (case pb_submsg r1 of
               None \<Rightarrow> (count_or_error count, u)
             | Some (rm, r2) \<Rightarrow>
                 (case decode_resource_metrics rm sink u count of (rc, u1, count1) \<Rightarrow>
                    if rc < 0 then (count_or_error count1, u1)
                    else if rc > 0 then (int count1, u1)
                    else metrics_loop r2 sink u1 count1))
          else
            (case pb_skip (tag_wire tag) r1 of
               None \<Rightarrow> (count_or_error count, u)
             | Some (_, r2) \<Rightarrow> metrics_loop r2 sink u count)
      | _ \<Rightarrow> (int count, u))"
  by pat_completeness auto
termination
  by (relation "measure (\<lambda>(r, s, u, n). rd_left r)") (auto dest!: shrink)

declare metrics_loop.simps [simp del]

definition otlp_decode_metrics :: "byte list \<Rightarrow> 'u pw_metric_sink \<Rightarrow> 'u \<Rightarrow> int \<times> 'u" where
  "otlp_decode_metrics body sink u = metrics_loop (pb_reader_init body 0 (length body)) sink u 0"

end
