(* ===== verification/DbOtlp.thy ===== *)
theory DbOtlp
  imports Db OtlpTrace OtlpMetric
begin

text \<open>
  Storage of spans, process metrics and OTLP metrics: \<^verbatim>\<open>src/agent/db_otlp.c\<close>.  The static array
  \<^verbatim>\<open>g_labels\<close> with \<^verbatim>\<open>g_label_count\<close> is a list of entries in the order of creation; it is part of
  the state the functions pass along.
\<close>

section \<open>Names\<close>

record label_entry =
  le_label :: cstring
  le_span_stmt :: cstring
  le_metric_stmt :: cstring
  le_otel_metric_stmt :: cstring
  le_ready :: bool

type_synonym label_cache = "label_entry list"

definition LABEL_CACHE_MAX :: nat where "LABEL_CACHE_MAX = 64"
definition STMT_NAME_MAX :: nat where "STMT_NAME_MAX = 80"

definition db_label_cache_reset :: label_cache where
  "db_label_cache_reset = []"

definition suffixed_name :: "nat \<Rightarrow> cstring \<Rightarrow> cstring \<Rightarrow> cstring" where
  "suffixed_name cap label suffix =
     (let out = snprintf_s cap (label @ suffix)
      in if length out > 63 then take 63 out else out)"

definition index_name :: "cstring \<Rightarrow> string \<Rightarrow> cstring" where
  "index_name table suffix = take 63 (snprintf_s 80 (sql ''idx_'' @ table @ sql suffix))"

section \<open>Tables\<close>

definition hypertable_and_retention ::
    "housekeeping \<Rightarrow> 'd libpq \<Rightarrow> nat \<Rightarrow> cstring \<Rightarrow> cstring \<Rightarrow> 'd world \<Rightarrow> 'd world" where
  "hypertable_and_retention g pq c schema table w =
     (case (pq_escape_literal pq c schema (w_db w), pq_escape_literal pq c table (w_db w)) of
        (Some lit_schema, Some lit_table) \<Rightarrow>
          (let w1 = exec_warn pq c (hypertable_sql lit_schema lit_table) w;
               w2 = exec_warn pq c (remove_retention_sql lit_schema lit_table) w1
           in exec_warn pq c (add_retention_sql lit_schema lit_table (g_retention_hours g)) w2)
      | _ \<Rightarrow> w)"

text \<open>\<^verbatim>\<open>CREATE INDEX\<close> on a column, skipped when the name cannot be escaped.\<close>

definition create_index ::
    "'d libpq \<Rightarrow> nat \<Rightarrow> cstring \<Rightarrow> cstring \<Rightarrow> string \<Rightarrow> 'd world \<Rightarrow> 'd world" where
  "create_index pq c idx qualified column w =
     (case pq_escape_identifier pq c idx (w_db w) of
        None \<Rightarrow> w
      | Some esc_idx \<Rightarrow>
          exec_warn pq c (snprintf_s 2048
            (sql ''CREATE INDEX IF NOT EXISTS '' @ esc_idx @ sql '' ON '' @ qualified @
             sql '' ('' @ sql column @ sql '', ts DESC);'')) w)"

text \<open>
  What the three table functions share.  \<open>create\<close> is the text of the \<^verbatim>\<open>CREATE TABLE\<close> and \<open>after\<close>
  what follows its success, both from the qualified name; a table that could not be created is
  reported and left.
\<close>

definition ensure_table_with ::
    "housekeeping \<Rightarrow> 'd libpq \<Rightarrow> nat \<Rightarrow> cstring \<Rightarrow> cstring \<Rightarrow> (cstring \<Rightarrow> cstring) \<Rightarrow>
     (cstring \<Rightarrow> 'd world \<Rightarrow> 'd world) \<Rightarrow> 'd world \<Rightarrow> 'd world + 'd world" where
  "ensure_table_with g pq c schema table create after w =
     and_then (db_table_exists pq c schema table w) (\<lambda>(existed_before, w1).
     and_then (db_ensure_schema pq c schema w1) (\<lambda>w2.
       let w3 = db_try_enable_timescaledb pq c w2
       in and_then (db_make_qualified pq c schema table w3) (\<lambda>qualified.
            case PQexec pq c (create qualified) w3 of (r, w4) \<Rightarrow>
              if r \<noteq> PgCommandOk then Inr w4
              else
                let w5 = hypertable_and_retention g pq c schema table (after qualified w4)
                in if existed_before then Inr w5
                   else and_then (db_table_exists pq c schema table w5) (\<lambda>(exists_now, w6).
                          if exists_now then track_new_table g pq c schema table w6 else Inr w6))))"

definition span_table_sql :: "cstring \<Rightarrow> cstring" where
  "span_table_sql qualified = snprintf_s 2048
     (sql ''CREATE TABLE IF NOT EXISTS '' @ qualified @ sql '' (  ts TIMESTAMPTZ NOT NULL,'' @
      sql ''  trace_id TEXT NOT NULL,  span_id TEXT NOT NULL,  parent_span_id TEXT,  name TEXT,'' @
      sql ''  kind TEXT,  service_name TEXT,  scope_name TEXT,  duration_ns BIGINT,'' @
      sql ''  status_code TEXT,  status_message TEXT,  attributes JSONB);'')"

definition ensure_span_table ::
    "housekeeping \<Rightarrow> 'd libpq \<Rightarrow> nat \<Rightarrow> cstring \<Rightarrow> cstring \<Rightarrow> 'd world \<Rightarrow> 'd world + 'd world" where
  "ensure_span_table g pq c schema label w =
     (let table = suffixed_name 80 label (sql ''_spans'')
      in ensure_table_with g pq c schema table span_table_sql
           (\<lambda>q w. create_index pq c (index_name table ''_svc'') q ''service_name''
                    (create_index pq c (index_name table ''_trace'') q ''trace_id'' w)) w)"

definition metric_table_sql :: "cstring \<Rightarrow> cstring" where
  "metric_table_sql qualified = snprintf_s 2048
     (sql ''CREATE TABLE IF NOT EXISTS '' @ qualified @ sql '' (  ts TIMESTAMPTZ NOT NULL,'' @
      sql ''  service_name TEXT,  container_id TEXT,  pod TEXT,  pid TEXT,  comm TEXT,'' @
      sql ''  runtime TEXT,  cpu_pct DOUBLE PRECISION,  rss_kb BIGINT,  threads INTEGER);'')"

definition ensure_metric_table ::
    "housekeeping \<Rightarrow> 'd libpq \<Rightarrow> nat \<Rightarrow> cstring \<Rightarrow> cstring \<Rightarrow> 'd world \<Rightarrow> 'd world + 'd world" where
  "ensure_metric_table g pq c schema label w =
     (let table = suffixed_name 80 label (sql ''_procs'')
      in ensure_table_with g pq c schema table metric_table_sql
           (\<lambda>q w. create_index pq c (index_name table ''_svc'') q ''service_name''
                    (exec_warn pq c (snprintf_s 2048
                       (sql ''DO $$ BEGIN   ALTER TABLE '' @ q @
                        sql '' ALTER COLUMN pid TYPE TEXT USING pid::text; '' @
                        sql ''EXCEPTION WHEN others THEN NULL; END $$;'')) w)) w)"

definition otel_metric_table_sql :: "cstring \<Rightarrow> cstring" where
  "otel_metric_table_sql qualified = snprintf_s 2048
     (sql ''CREATE TABLE IF NOT EXISTS '' @ qualified @ sql '' (  ts TIMESTAMPTZ NOT NULL,'' @
      sql ''  service_name TEXT,  scope_name TEXT,  pid TEXT,  metric_name TEXT NOT NULL,'' @
      sql ''  metric_type TEXT,  description TEXT,  unit TEXT,  value DOUBLE PRECISION,'' @
      sql ''  count BIGINT,  attributes JSONB);'')"

definition ensure_otel_metric_table ::
    "housekeeping \<Rightarrow> 'd libpq \<Rightarrow> nat \<Rightarrow> cstring \<Rightarrow> cstring \<Rightarrow> 'd world \<Rightarrow> 'd world + 'd world" where
  "ensure_otel_metric_table g pq c schema label w =
     (let table = suffixed_name 80 label (sql ''_otel_metrics'')
      in ensure_table_with g pq c schema table otel_metric_table_sql
           (\<lambda>q w. create_index pq c (index_name table ''_svc'') q ''service_name''
                    (create_index pq c (index_name table ''_name'') q ''metric_name''
                      (exec_warn pq c (snprintf_s 2048
                         (sql ''ALTER TABLE '' @ q @ sql '' ADD COLUMN IF NOT EXISTS pid TEXT;'')) w))) w)"

section \<open>Prepared statements\<close>

definition prepare_span ::
    "'d libpq \<Rightarrow> nat \<Rightarrow> cstring \<Rightarrow> cstring \<Rightarrow> cstring \<Rightarrow> 'd world \<Rightarrow> 'd world + 'd world" where
  "prepare_span pq c schema label stmt_name w =
     and_then (db_make_qualified pq c schema (suffixed_name 80 label (sql ''_spans'')) w) (\<lambda>qualified.
       Inr (snd (PQprepare pq c stmt_name (snprintf_s 1024
         (sql ''INSERT INTO '' @ qualified @ sql '' (ts, trace_id, span_id, parent_span_id, name, kind,'' @
          sql '' service_name, scope_name, duration_ns, status_code, status_message, attributes)'' @
          sql '' VALUES (to_timestamp($1::float8), $2::text, $3::text,'' @
          sql '' NULLIF($4::text, ``), $5::text, $6::text, $7::text, $8::text,'' @
          sql '' $9::int8, $10::text, NULLIF($11::text, ``), $12::jsonb);'')) 12 w)))"

definition prepare_metric ::
    "'d libpq \<Rightarrow> nat \<Rightarrow> cstring \<Rightarrow> cstring \<Rightarrow> cstring \<Rightarrow> 'd world \<Rightarrow> 'd world + 'd world" where
  "prepare_metric pq c schema label stmt_name w =
     and_then (db_make_qualified pq c schema (suffixed_name 80 label (sql ''_procs'')) w) (\<lambda>qualified.
       Inr (snd (PQprepare pq c stmt_name (snprintf_s 1024
         (sql ''INSERT INTO '' @ qualified @ sql '' (ts, service_name, container_id, pod, pid, comm,'' @
          sql '' runtime, cpu_pct, rss_kb, threads)'' @
          sql '' VALUES (NOW(), $1::text, NULLIF($2::text, ``), NULLIF($3::text, ``),'' @
          sql '' $4::text, $5::text, $6::text, $7::float8, $8::int8, $9::int4);'')) 9 w)))"

definition prepare_otel_metric ::
    "'d libpq \<Rightarrow> nat \<Rightarrow> cstring \<Rightarrow> cstring \<Rightarrow> cstring \<Rightarrow> 'd world \<Rightarrow> 'd world + 'd world" where
  "prepare_otel_metric pq c schema label stmt_name w =
     and_then (db_make_qualified pq c schema (suffixed_name 80 label (sql ''_otel_metrics'')) w) (\<lambda>qualified.
       Inr (snd (PQprepare pq c stmt_name (snprintf_s 1024
         (sql ''INSERT INTO '' @ qualified @ sql '' (ts, service_name, scope_name, pid, metric_name,'' @
          sql '' metric_type, description, unit, value, count, attributes)'' @
          sql '' VALUES (to_timestamp($1::float8), $2::text, $3::text,'' @
          sql '' NULLIF($4::text, ``), $5::text, $6::text, NULLIF($7::text, ``),'' @
          sql '' NULLIF($8::text, ``), $9::float8, $10::int8, $11::jsonb);'')) 11 w)))"

section \<open>Labels\<close>

definition find_label :: "label_cache \<Rightarrow> cstring \<Rightarrow> label_entry option" where
  "find_label cache label = List.find (\<lambda>e. le_label e = label) cache"

definition label_entry_init :: "cstring \<Rightarrow> label_entry" where
  "label_entry_init label =
     \<lparr>le_label = snprintf_s 100 label,
      le_span_stmt = snprintf_s STMT_NAME_MAX (lit ''pw_span_'' @ label),
      le_metric_stmt = snprintf_s STMT_NAME_MAX (lit ''pw_metric_'' @ label),
      le_otel_metric_stmt = snprintf_s STMT_NAME_MAX (lit ''pw_otelm_'' @ label),
      le_ready = False\<rparr>"

definition set_ready :: "cstring \<Rightarrow> label_cache \<Rightarrow> label_cache" where
  "set_ready label cache = map (\<lambda>e. if le_label e = label then e\<lparr>le_ready := True\<rparr> else e) cache"

definition prepare_label ::
    "housekeeping \<Rightarrow> 'd libpq \<Rightarrow> nat \<Rightarrow> cstring \<Rightarrow> cstring \<Rightarrow> label_entry \<Rightarrow> 'd world \<Rightarrow> 'd world + 'd world" where
  "prepare_label g pq c schema label e w =
     and_then (ensure_span_table g pq c schema label w) (\<lambda>w1.
     and_then (ensure_metric_table g pq c schema label w1) (\<lambda>w2.
     and_then (ensure_otel_metric_table g pq c schema label w2) (\<lambda>w3.
     and_then (prepare_span pq c schema label (le_span_stmt e) w3) (\<lambda>w4.
     and_then (prepare_metric pq c schema label (le_metric_stmt e) w4) (\<lambda>w5.
       prepare_otel_metric pq c schema label (le_otel_metric_stmt e) w5)))))"

definition db_ensure_label ::
    "housekeeping \<Rightarrow> 'd libpq \<Rightarrow> nat option \<Rightarrow> cstring \<Rightarrow> cstring \<Rightarrow> label_cache \<Rightarrow> 'd world \<Rightarrow>
     'd world + int \<times> label_cache \<times> 'd world" where
  "db_ensure_label g pq conn schema label cache w =
     (case conn of
        None \<Rightarrow> Inr (- 1, cache, w)
      | Some c \<Rightarrow>
          if \<not> pq_status_ok pq c (w_db w) then Inr (- 1, cache, w)
          else if \<not> validate_identifier label \<or> \<not> validate_identifier schema then Inr (- 1, cache, w)
          else
            let ready = (\<lambda>e cache. and_then (prepare_label g pq c schema label e w)
                                   (\<lambda>w1. Inr (0, set_ready label cache, w1)))
            in case find_label cache label of
                 Some e \<Rightarrow> if le_ready e then Inr (0, cache, w) else ready e cache
               | None \<Rightarrow>
                   if length cache \<ge> LABEL_CACHE_MAX then Inr (- 1, cache, w)
                   else let e = label_entry_init label in ready e (cache @ [e]))"

section \<open>Inserts\<close>

definition span_ts_buf :: "pw_span \<Rightarrow> cstring" where
  "span_ts_buf sp =
     snprintf_s 64 (fmt_f 6 (ns_to_sec (if sp_end_ns sp = 0 then sp_start_ns sp else sp_end_ns sp)))"

text \<open>Run the label's prepared statement on the values; \<open>stmt\<close> selects it from the entry.\<close>

definition insert_labeled ::
    "'d libpq \<Rightarrow> label_cache \<Rightarrow> nat option \<Rightarrow> cstring \<Rightarrow> (label_entry \<Rightarrow> cstring) \<Rightarrow> cstring list \<Rightarrow> 'd world \<Rightarrow>
     int \<times> 'd world" where
  "insert_labeled pq cache conn label stmt vals w =
     (case conn of
        None \<Rightarrow> (- 1, w)
      | Some c \<Rightarrow>
          if \<not> pq_status_ok pq c (w_db w) then (- 1, w)
          else case find_label cache label of
                 None \<Rightarrow> (- 1, w)
               | Some e \<Rightarrow>
                   if \<not> le_ready e then (- 1, w)
                   else case PQexecPrepared pq c (stmt e) vals w of (ok, w1) \<Rightarrow> (if ok then 0 else - 1, w1))"

definition db_insert_span ::
    "'d libpq \<Rightarrow> label_cache \<Rightarrow> nat option \<Rightarrow> pw_span \<Rightarrow> 'd world \<Rightarrow> int \<times> 'd world" where
  "db_insert_span pq cache conn sp w =
     insert_labeled pq cache conn (sp_label sp) le_span_stmt
       [span_ts_buf sp, sp_trace_id sp, sp_span_id sp, sp_parent_span_id sp,
        sp_name sp, sp_kind sp, sp_service_name sp, sp_scope_name sp,
        snprintf_s 32 (dec_int (sint (sp_duration_ns sp))), sp_status_code sp,
        sp_status_message sp, sp_attributes_json sp] w"

record proc_metric =
  pm_label :: cstring
  pm_service :: cstring
  pm_container_id :: cstring
  pm_pod :: cstring
  pm_pid :: cstring
  pm_comm :: cstring
  pm_runtime :: cstring
  pm_cpu :: dbl
  pm_rss :: int
  pm_threads :: int

definition db_insert_metric_labeled ::
    "'d libpq \<Rightarrow> label_cache \<Rightarrow> nat option \<Rightarrow> proc_metric \<Rightarrow> 'd world \<Rightarrow> int \<times> 'd world" where
  "db_insert_metric_labeled pq cache conn m w =
     insert_labeled pq cache conn (pm_label m) le_metric_stmt
       [pm_service m, pm_container_id m, pm_pod m, pm_pid m, pm_comm m, pm_runtime m,
        snprintf_s 64 (fmt_g 10 (pm_cpu m)), snprintf_s 32 (dec_int (pm_rss m)),
        snprintf_s 16 (dec_int (pm_threads m))] w"

definition db_insert_otel_metric ::
    "'d libpq \<Rightarrow> label_cache \<Rightarrow> nat option \<Rightarrow> pw_metric_point \<Rightarrow> 'd world \<Rightarrow> int \<times> 'd world" where
  "db_insert_otel_metric pq cache conn point w =
     insert_labeled pq cache conn (mp_label point) le_otel_metric_stmt
       [snprintf_s 64 (fmt_f 9 (ns_to_sec (mp_time_ns point))), mp_service_name point, mp_scope_name point,
        mp_pid_key point, mp_metric_name point, mp_metric_type point, mp_description point, mp_unit point,
        snprintf_s 64 (fmt_g 17 (mp_value point)), snprintf_s 32 (dec_int (sint (mp_count point))),
        if mp_attributes_json point \<noteq> [] then mp_attributes_json point else lit ''{}''] w"

end
