(* ===== verification/CNumber.thy ===== *)
theory CNumber
  imports CDouble
begin

text \<open>
  The C library's integer parsing in base 10 (\<^verbatim>\<open>strtoull\<close>, \<^verbatim>\<open>strtol\<close>, \<^verbatim>\<open>atoi\<close>) and the string
  searches the sources use (\<^verbatim>\<open>strchr\<close>, \<^verbatim>\<open>strstr\<close>/\<^verbatim>\<open>memmem\<close>), on the bytes of a C string.
\<close>

section \<open>Integers\<close>

text \<open>Sign, value and rest of the number after white space; \<open>None\<close> without a digit.\<close>

definition scan_int :: "cstring \<Rightarrow> (bool \<times> int \<times> cstring) option" where
  "scan_int s =
     (let t = dropWhile is_space s;
          (neg, u) = (case t of c # r \<Rightarrow> if c = 45 then (True, r) else if c = 43 then (False, r) else (False, t)
                               | [] \<Rightarrow> (False, t))
      in case scan_digits 10 u 0 0 of (v, n, r) \<Rightarrow> if n = 0 then None else Some (neg, v, r))"

text \<open>\<^verbatim>\<open>strtoull(s, &end, 10)\<close>: saturates; a minus sign negates modulo \<open>2 ^ 64\<close>.\<close>

definition strtoull :: "cstring \<Rightarrow> (64 word \<times> cstring) option" where
  "strtoull s =
     (case scan_int s of
        None \<Rightarrow> None
      | Some (neg, v, r) \<Rightarrow>
          Some (if v \<ge> 2 ^ 64 then - 1 else if neg then - word_of_int v else word_of_int v, r))"

definition strtoull_val :: "cstring \<Rightarrow> 64 word" where
  "strtoull_val s = (case strtoull s of None \<Rightarrow> 0 | Some (v, _) \<Rightarrow> v)"

definition strtol_val :: "cstring \<Rightarrow> int" where
  "strtol_val s =
     (case scan_int s of
        None \<Rightarrow> 0
      | Some (neg, v, r) \<Rightarrow> if neg then max (- v) (- (2 ^ 63)) else min v (2 ^ 63 - 1))"

text \<open>\<^verbatim>\<open>atoi(s)\<close> is \<^verbatim>\<open>(int)strtol(s, NULL, 10)\<close>.\<close>

definition atoi :: "cstring \<Rightarrow> int" where
  "atoi s = sint (word_of_int (strtol_val s) :: 32 word)"

section \<open>Searching\<close>

definition is_prefix :: "byte list \<Rightarrow> byte list \<Rightarrow> bool" where
  "is_prefix p s \<longleftrightarrow> take (length p) s = p"

text \<open>The text from the first occurrence on.\<close>

fun strstr :: "byte list \<Rightarrow> byte list \<Rightarrow> byte list option" where
  "strstr [] pat = (if pat = [] then Some [] else None)"
| "strstr (c # s) pat = (if is_prefix pat (c # s) then Some (c # s) else strstr s pat)"

fun strchr :: "byte list \<Rightarrow> byte \<Rightarrow> byte list option" where
  "strchr [] b = None"
| "strchr (c # s) b = (if c = b then Some (c # s) else strchr s b)"

lemma is_prefix_append [simp]: "is_prefix p (p @ s)"
  by (simp add: is_prefix_def)

lemma is_prefix_iff: "is_prefix p s \<longleftrightarrow> (\<exists>t. s = p @ t)"
  unfolding is_prefix_def by (metis append_eq_conv_conj append_take_drop_id)

lemma strstr_here: "strstr (p @ rest) p = Some (p @ rest)"
  using is_prefix_append[of p rest] by (cases "p @ rest") (auto simp: is_prefix_def)

lemma strstr_Some: "strstr s pat = Some t \<Longrightarrow> \<exists>pre. s = pre @ t \<and> is_prefix pat t"
  by (induction s pat rule: strstr.induct) (auto split: if_splits simp: is_prefix_def intro: exI[of _ "_ # _"])

lemma strstr_length: "strstr s pat = Some t \<Longrightarrow> length t \<le> length s"
  by (auto dest!: strstr_Some)

lemma strchr_Some: "strchr s b = Some t \<Longrightarrow> \<exists>pre u. s = pre @ t \<and> t = b # u \<and> b \<notin> set pre"
proof (induction s b rule: strchr.induct)
  case (2 c s b)
  show ?case
  proof (cases "c = b")
    case True
    with "2.prems" show ?thesis by (intro exI[of _ "[]"] exI[of _ s]) auto
  next
    case False
    with 2 obtain pre u where "s = pre @ t" "t = b # u" "b \<notin> set pre" by auto
    with False show ?thesis by (intro exI[of _ "c # pre"] exI[of _ u]) auto
  qed
qed simp

lemma strchr_None: "strchr s b = None \<longleftrightarrow> b \<notin> set s"
  by (induction s b rule: strchr.induct) auto

lemma strchr_split: "b \<notin> set pre \<Longrightarrow> strchr (pre @ b # u) b = Some (b # u)"
  by (induction pre) auto

lemma strstr_skip:
  "q \<notin> set s \<Longrightarrow> strstr (s @ rest) (q # p) = strstr rest (q # p)"
  by (induction s) (auto simp: is_prefix_def)

end
