(* ===== verification/JsonScan.thy ===== *)
theory JsonScan
  imports CNumber Util
begin

text \<open>
  The key lookups \<^verbatim>\<open>json_str\<close> and \<^verbatim>\<open>json_num\<close> of \<^verbatim>\<open>src/agent/agentd.c\<close>: a scan for \<^verbatim>\<open>"key"\<close>
  followed by a colon, not a JSON parser.  The body is the \<^verbatim>\<open>len\<close> bytes; the byte after them
  is taken to be NUL, as it is for a spill line.
\<close>

definition key_pat :: "cstring \<Rightarrow> cstring" where
  "key_pat key = snprintf_s 128 (0x22 # key @ [0x22])"

text \<open>The copy loop up to the closing quote; a backslash yields the character after it.\<close>

fun json_copy :: "byte list \<Rightarrow> nat \<Rightarrow> nat \<Rightarrow> byte list" where
  "json_copy [] i out_cap = []"
| "json_copy (c # s) i out_cap =
     (if c = 0x22 \<or> i + 1 \<ge> out_cap then []
      else if c = 0x5c then
        (case s of
           [] \<Rightarrow> [c]
         | d # t \<Rightarrow> d # json_copy t (i + 1) out_cap)
      else c # json_copy s (i + 1) out_cap)"

definition skip_json_ws :: "byte list \<Rightarrow> byte list" where
  "skip_json_ws s = dropWhile (\<lambda>c. c = 0x20 \<or> c = 0x09 \<or> c = 0x0a \<or> c = 0x0d) s"

definition skip_blanks :: "byte list \<Rightarrow> byte list" where
  "skip_blanks s = dropWhile (\<lambda>c. c = 0x20 \<or> c = 0x09) s"

text \<open>The text after the colon of a hit; \<open>None\<close> when no colon follows the key.\<close>

definition after_colon :: "cstring \<Rightarrow> byte list \<Rightarrow> byte list option" where
  "after_colon pat hit =
     (case skip_json_ws (drop (length pat) hit) of
        [] \<Rightarrow> None
      | c # s \<Rightarrow> if c \<noteq> 0x3a then None else Some (skip_blanks s))"

lemma strstr_tl_shrinks: "strstr p pat = Some hit \<Longrightarrow> p \<noteq> [] \<Longrightarrow> length hit - Suc 0 < length p"
  using strstr_length[of p pat hit] by (cases p) auto

function json_str_loop :: "cstring \<Rightarrow> byte list \<Rightarrow> nat \<Rightarrow> cstring option" where
  "json_str_loop pat p out_cap =
     (if p = [] then None
      else case strstr p pat of
             None \<Rightarrow> None
           | Some hit \<Rightarrow>
               if hit = [] then None
               else case after_colon pat hit of
                 Some (c # s) \<Rightarrow>
                   if c \<noteq> 0x22 then json_str_loop pat (drop 1 hit) out_cap
                   else Some (json_copy s 0 out_cap)
               | _ \<Rightarrow> json_str_loop pat (drop 1 hit) out_cap)"
  by pat_completeness auto
termination
  by (relation "measure (\<lambda>(pat, p, n). length p)") (auto dest: strstr_tl_shrinks)

declare json_str_loop.simps [simp del]

text \<open>
  \<open>None\<close> is \<^verbatim>\<open>-1\<close>, where \<^verbatim>\<open>out\<close> is left alone.  \<^verbatim>\<open>strstr\<close> stops at a NUL of the body, and so does
  every read of the copied string.
\<close>

definition json_str :: "byte list \<Rightarrow> cstring \<Rightarrow> nat \<Rightarrow> cstring option" where
  "json_str body key out_cap = map_option cstr (json_str_loop (key_pat key) (cstr body) out_cap)"

function json_num_loop :: "cstring \<Rightarrow> byte list \<Rightarrow> dbl option \<Rightarrow> bool \<times> dbl option" where
  "json_num_loop pat p out =
     (if p = [] then (False, out)
      else case strstr p pat of
             None \<Rightarrow> (False, out)
           | Some hit \<Rightarrow>
               if hit = [] then (False, out)
               else case after_colon pat hit of
                 None \<Rightarrow> json_num_loop pat (drop 1 hit) out
               | Some s \<Rightarrow>
                   (case strtod s of
                      None \<Rightarrow> json_num_loop pat (drop 1 hit) (Some 0)
                    | Some (v, _) \<Rightarrow> (True, Some v)))"
  by pat_completeness auto
termination
  by (relation "measure (\<lambda>(pat, p, n). length p)") (auto dest: strstr_tl_shrinks)

declare json_num_loop.simps [simp del]

text \<open>
  Success and the value left in \<^verbatim>\<open>*out\<close>: a hit without a number stores the 0 of \<^verbatim>\<open>strtod\<close>.
\<close>

definition json_num :: "byte list \<Rightarrow> cstring \<Rightarrow> dbl \<Rightarrow> bool \<times> dbl" where
  "json_num body key out =
     (case json_num_loop (key_pat key) (cstr body) None of (ok, v) \<Rightarrow> (ok, case v of None \<Rightarrow> out | Some x \<Rightarrow> x))"

end
