(* ===== verification/NumText.thy ===== *)
theory NumText
  imports CNumber
begin

text \<open>
  Numbers through text: the decimal digits \<^verbatim>\<open>printf\<close> writes are read back by the scanners of
  \<^verbatim>\<open>strtod\<close>, and integers below \<open>2 ^ 53\<close> pass through a \<^verbatim>\<open>double\<close> unchanged.
\<close>

section \<open>Digits\<close>

lemma digit_byte:
  assumes "0 \<le> k" "k < 10"
  shows "digit_value 10 (48 + word_of_int k) = Some k"
    and "is_digit (48 + word_of_int k)"
proof -
  have "uint (48 + word_of_int k :: byte) = 48 + k"
    using assms by (simp add: uint_word_arith_bintrs uint_word_of_int take_bit_eq_mod)
  moreover from this show "is_digit (48 + word_of_int k)"
    using assms by (simp add: is_digit_def word_le_def)
  ultimately show "digit_value 10 (48 + word_of_int k) = Some k"
    by (simp add: digit_value_def)
qed

lemma dec_digits_digits: "0 \<le> n \<Longrightarrow> c \<in> set (dec_digits n) \<Longrightarrow> is_digit c"
  by (induction n rule: dec_digits.induct) (subst (asm) (2) dec_digits.simps, auto split: if_splits intro: digit_byte)

lemma dec_digits_ne [simp]: "dec_digits n \<noteq> []"
  by (subst dec_digits.simps) simp

lemma scan_digits_snoc:
  "(\<And>c. c \<in> set ds \<Longrightarrow> digit_value b c \<noteq> None) \<Longrightarrow>
   scan_digits b (ds @ s) v n =
     (case scan_digits b ds v n of (v1, n1, _) \<Rightarrow> scan_digits b s v1 n1)"
proof (induction ds arbitrary: v n)
  case (Cons c ds)
  then obtain d where "digit_value b c = Some d" by force
  with Cons show ?case by simp
qed simp

lemma is_digit_value: "is_digit c \<Longrightarrow> digit_value 10 c \<noteq> None"
  by (simp add: digit_value_def)

lemma scan_dec_digits:
  "0 \<le> n \<Longrightarrow> \<exists>k>0. scan_digits 10 (dec_digits n) 0 m = (n, m + k, [])"
proof (induction n rule: dec_digits.induct)
  case (1 n)
  show ?case
  proof (cases "n < 10")
    case True
    then show ?thesis
      using 1 by (subst dec_digits.simps) (simp add: digit_byte)
  next
    case False
    have "0 \<le> n div 10"
      using 1 by (simp add: pos_imp_zdiv_nonneg_iff)
    then obtain k where "k > 0" "scan_digits 10 (dec_digits (n div 10)) 0 m = (n div 10, m + k, [])"
      using 1 False by auto
    moreover have "\<And>c. c \<in> set (dec_digits (n div 10)) \<Longrightarrow> digit_value 10 c \<noteq> None"
      using 1 by (meson dec_digits_digits is_digit_value pos_imp_zdiv_nonneg_iff zero_less_numeral)
    ultimately show ?thesis
      using False by (subst dec_digits.simps) (simp add: scan_digits_snoc digit_byte)
  qed
qed

lemma scan_dec_digits_stop:
  assumes "0 \<le> n" "rest = [] \<or> \<not> is_digit (hd rest)"
  shows "\<exists>k>0. scan_digits 10 (dec_digits n @ rest) 0 m = (n, m + k, rest)"
proof -
  have "\<And>c. c \<in> set (dec_digits n) \<Longrightarrow> digit_value 10 c \<noteq> None"
    using assms(1) by (meson dec_digits_digits is_digit_value)
  moreover have "scan_digits 10 rest v k = (v, k, rest)" for v k
    using assms(2) by (cases rest) (simp_all add: digit_value_def)
  ultimately show ?thesis
    using scan_dec_digits[OF assms(1), of m] by (auto simp: scan_digits_snoc)
qed

section \<open>Reading a decimal integer\<close>

definition ends_number :: "byte list \<Rightarrow> bool" where
  "ends_number rest \<longleftrightarrow> rest = [] \<or> hd rest = 0x2c \<or> hd rest = 0x7d"

lemma scan_number_dec:
  assumes "0 \<le> n" "ends_number rest"
  shows "scan_number 10 (dec_digits n @ rest) = Some (n, 1, rest)"
proof -
  have "rest = [] \<or> \<not> is_digit (hd rest)"
    using assms(2) by (auto simp: ends_number_def is_digit_def)
  from scan_dec_digits_stop[OF assms(1) this, of 0] obtain k where
    k: "k > 0" "scan_digits 10 (dec_digits n @ rest) 0 0 = (n, k, rest)" by auto
  then show ?thesis
    using assms(2) by (cases rest) (auto simp: scan_number_def rat_pow_def ends_number_def)
qed

lemma ci_prefix_digit:
  assumes "is_digit c" "pre \<noteq> []" "\<not> is_digit (hd pre)"
  shows "\<not> ci_prefix pre (c # s)"
proof -
  have "lower c = c"
    using assms(1) by (auto simp: lower_def is_digit_def word_le_nat_alt)
  then show ?thesis
    using assms by (cases pre) (auto simp: ci_prefix_def)
qed

lemma dec_digits_0x: "0 \<le> n \<Longrightarrow> ends_number rest \<Longrightarrow> \<not> ci_prefix (lit ''0x'') (dec_digits n @ rest)"
proof
  assume n: "0 \<le> n" "ends_number rest" and p: "ci_prefix (lit ''0x'') (dec_digits n @ rest)"
  obtain c ds where c: "dec_digits n = c # ds" by (cases "dec_digits n") auto
  have d: "is_digit x" if "x \<in> set (c # ds)" for x
    using dec_digits_digits[OF n(1)] that c by simp
  have low: "lower x = x" if "is_digit x" for x
    using that by (auto simp: lower_def is_digit_def word_le_nat_alt)
  show False
  proof (cases ds)
    case Nil
    then show False
      using p c n(2) by (cases rest) (auto simp: ci_prefix_def lit_def ends_number_def lower_def)
  next
    case (Cons e es)
    then show False
      using p c d[of e] low[of e] by (auto simp: ci_prefix_def lit_def is_digit_def)
  qed
qed

lemma strtod_dec:
  assumes "0 \<le> n" "ends_number rest"
  shows "strtod (dec_digits n @ rest) = Some (dbl_round False n 1, rest)"
    and "strtod (45 # dec_digits n @ rest) = Some (dbl_round True n 1, rest)"
proof -
  obtain c ds where c: "dec_digits n @ rest = c # ds" and d: "is_digit c"
    using dec_digits_digits[OF assms(1)] by (cases "dec_digits n") auto
  have ws: "\<not> is_space c" "c \<noteq> 45" "c \<noteq> 43"
    using d by (auto simp: is_digit_def is_space_def word_le_nat_alt)
  have no: "\<not> ci_prefix (lit ''infinity'') (c # ds)" "\<not> ci_prefix (lit ''inf'') (c # ds)" "\<not> ci_prefix (lit ''nan'') (c # ds)"
    using ci_prefix_digit[OF d] by (simp_all add: lit_def is_digit_def)
  have hex: "\<not> ci_prefix (lit ''0x'') (c # ds)" and num: "scan_number 10 (c # ds) = Some (n, 1, rest)"
    using dec_digits_0x[OF assms] scan_number_dec[OF assms] c by simp_all
  show "strtod (dec_digits n @ rest) = Some (dbl_round False n 1, rest)"
    using ws no hex num by (simp add: strtod_def c)
  have "\<not> is_space (45 :: byte)" by (simp add: is_space_def)
  then show "strtod (45 # dec_digits n @ rest) = Some (dbl_round True n 1, rest)"
    using no hex num by (simp add: strtod_def c)
qed

lemma strtod_dec_int:
  "ends_number rest \<Longrightarrow> strtod (dec_int i @ rest) = Some (dbl_of_int i, rest)"
  using strtod_dec[of "\<bar>i\<bar>" rest] by (auto simp: dec_int_def dbl_of_int_def)

section \<open>Integers as doubles\<close>

lemma bit_len_bounds: "0 < n \<Longrightarrow> 0 < bit_len n \<and> 2 ^ (bit_len n - 1) \<le> n \<and> n < 2 ^ bit_len n"
proof (induction n rule: bit_len.induct)
  case (1 n)
  show ?case
  proof (cases "n = 1")
    case True
    then show ?thesis by (simp add: bit_len.simps)
  next
    case False
    let ?k = "bit_len (n div 2)"
    have k: "0 < ?k" "2 ^ (?k - 1) \<le> n div 2" "n div 2 < 2 ^ ?k"
      using 1 False by auto
    have len: "bit_len n = Suc ?k"
      using 1 by (subst bit_len.simps) simp
    have "(2 :: int) ^ ?k = 2 * 2 ^ (?k - 1)"
      using k(1) by (cases ?k) auto
    then have "2 ^ ?k \<le> n" "n < 2 * 2 ^ ?k"
      using k(2,3) by linarith+
    then show ?thesis
      by (simp add: len)
  qed
qed

lemma floor_log2_int:
  assumes "0 < n"
  shows "floor_log2 n 1 = int (bit_len n) - 1"
proof -
  have "bit_len 1 = 1" by (simp add: bit_len.simps)
  moreover have "nat (int (bit_len n) - 1) = bit_len n - 1" by simp
  ultimately show ?thesis
    using bit_len_bounds[OF assms] by (simp add: floor_log2_def Let_def)
qed

lemma round_half_even_int [simp]: "round_half_even n 1 = n"
  by (simp add: round_half_even_def)

text \<open>The pattern of a positive integer below \<open>2 ^ 53\<close>: exponent field \<open>bit_len n + 1022\<close>.\<close>

lemma dbl_round_int:
  assumes "0 < n" "n < 2 ^ 53"
  defines "k \<equiv> 53 - bit_len n"
  shows "dbl_round neg n 1 =
    word_of_int ((if neg then 2 ^ 63 else 0) + ((1074 - int k) * 2 ^ 52 + n * 2 ^ k))"
    and "2 ^ 52 \<le> n * 2 ^ k" "n * 2 ^ k < 2 ^ 53" "k \<le> 52"
proof -
  note b = bit_len_bounds[OF assms(1)]
  have "(2 :: int) ^ (bit_len n - 1) < 2 ^ 53"
    using b assms(2) by linarith
  then have len: "bit_len n \<le> 53"
    by (subst (asm) power_strict_increasing_iff) auto
  have "(2 :: int) ^ 52 = 2 ^ (bit_len n - 1) * 2 ^ k"
    using b len by (simp add: k_def flip: power_add)
  then show lo: "2 ^ 52 \<le> n * 2 ^ k"
    using b by (metis mult_right_mono zero_le_numeral zero_le_power)
  have "(2 :: int) ^ 53 = 2 ^ bit_len n * 2 ^ k"
    using len by (simp add: k_def flip: power_add)
  then show hi: "n * 2 ^ k < 2 ^ 53"
    using b by (metis mult_strict_right_mono zero_less_numeral zero_less_power)
  show k: "k \<le> 52"
    using b len unfolding k_def by linarith
  have e: "max (floor_log2 n 1 - 52) (- 1074) = - int k"
    using b len by (simp add: floor_log2_int[OF assms(1)] k_def of_nat_diff)
  have q: "scale_round n 1 (- int k) = n * 2 ^ k"
    by (simp add: scale_round_def)
  have "(1074 - int k) * 2 ^ 52 + n * 2 ^ k \<le> 2047 * 2 ^ 52"
  proof -
    have "(1074 - int k) * 2 ^ 52 \<le> 1074 * 2 ^ 52" by (rule mult_right_mono) auto
    then show ?thesis using hi by simp
  qed
  then show "dbl_round neg n 1 =
    word_of_int ((if neg then 2 ^ 63 else 0) + ((1074 - int k) * 2 ^ 52 + n * 2 ^ k))"
    using assms(1) lo by (simp add: dbl_round_def Let_def e q not_less)
qed

lemma pattern_fields:
  fixes neg :: bool and e m :: int
  assumes "0 \<le> e" "e < 2047" "0 \<le> m" "m < 2 ^ 52"
  defines "d \<equiv> word_of_int ((if neg then 2 ^ 63 else 0) + (e * 2 ^ 52 + m)) :: dbl"
  shows "dbl_neg d = neg" "dbl_exp d = e" "dbl_man d = m"
proof -
  have lo: "0 \<le> e * 2 ^ 52 + m" and hi: "e * 2 ^ 52 + m < 2 ^ 63"
    using assms by (auto intro: order_less_le_trans[of _ "(e + 1) * 2 ^ 52"] simp: algebra_simps)
  define x where "x = (if neg then 2 ^ 63 else 0) + (e * 2 ^ 52 + m)"
  have "0 \<le> x" "x < 2 ^ 64"
    using lo hi by (auto simp: x_def)
  then have "uint (word_of_int x :: dbl) = x"
    by (simp only: uint_word_of_int) (simp add: take_bit_int_eq_self)
  then have u: "uint d = (if neg then 2 ^ 63 else 0) + (e * 2 ^ 52 + m)"
    by (simp only: d_def x_def)
  show "dbl_neg d = neg"
    using lo hi by (auto simp: dbl_neg_def u)
  have "((if neg then 2 ^ 63 else 0) + (e * 2 ^ 52 + m)) = ((if neg then 2 ^ 11 else 0) + e) * 2 ^ 52 + m"
    by simp
  then have div: "uint d div 2 ^ 52 = (if neg then 2 ^ 11 else 0) + e" and "uint d mod 2 ^ 52 = m"
    using assms(3,4) by (simp_all add: u)
  then show "dbl_exp d = e" "dbl_man d = m"
    using assms(1,2) by (auto simp: dbl_exp_def dbl_man_def)
qed

lemma dbl_trunc_round_int:
  assumes "0 \<le> n" "n < 2 ^ 53"
  shows "dbl_finite (dbl_round neg n 1) \<and> dbl_trunc (dbl_round neg n 1) = (if neg then - n else n)"
proof (cases "n = 0")
  case True
  then show ?thesis
    using pattern_fields[of 0 0 neg] by (auto simp: dbl_round_def dbl_finite_def dbl_trunc_def dbl_ratio_def)
next
  case False
  define k where "k = 53 - bit_len n"
  note r = dbl_round_int[of n, folded k_def]
  define e where "e = 1075 - int k"
  define m where "m = n * 2 ^ k - 2 ^ 52"
  have n: "0 < n" using False assms by simp
  note lo = r(2)[OF n assms(2)] and hi = r(3)[OF n assms(2)] and k = r(4)[OF n assms(2)]
  have "(1074 - int k) * 2 ^ 52 + n * 2 ^ k = e * 2 ^ 52 + m"
    by (simp add: e_def m_def algebra_simps)
  then have d: "dbl_round neg n 1 = word_of_int ((if neg then 2 ^ 63 else 0) + (e * 2 ^ 52 + m))"
    using r(1)[OF n assms(2), of neg] by simp
  have "0 \<le> e" "e < 2047" "0 \<le> m" "m < 2 ^ 52"
    using lo hi k by (simp_all add: e_def m_def)
  note f = pattern_fields[OF this, of neg, folded d]
  have ratio: "dbl_ratio (dbl_round neg n 1) = (n * 2 ^ k, 2 ^ k)"
  proof (cases "k = 0")
    case True
    then show ?thesis by (simp add: dbl_ratio_def f e_def m_def)
  next
    case False
    then show ?thesis
      using k by (simp add: dbl_ratio_def f e_def m_def)
  qed
  show ?thesis
    using k f by (simp add: dbl_finite_def dbl_trunc_def ratio e_def)
qed

lemma dbl_to_long_of_int:
  assumes "\<bar>i\<bar> < 2 ^ 53"
  shows "dbl_to_long (dbl_of_int i) = i"
proof -
  have t: "dbl_trunc (dbl_of_int i) = i" "dbl_finite (dbl_of_int i)"
    using dbl_trunc_round_int[of "\<bar>i\<bar>" "i < 0"] assms by (auto simp: dbl_of_int_def)
  have "- (2 ^ 63) \<le> i" "i < 2 ^ 63"
    using assms by auto
  then show ?thesis
    using t by (simp add: dbl_to_long_def dbl_to_signed_def)
qed

section \<open>The characters of numbers\<close>

text \<open>Digits, signs, the point, and the letters of exponents, infinities and NaNs.\<close>

definition number_text :: "byte list \<Rightarrow> bool" where
  "number_text s \<longleftrightarrow> (\<forall>c\<in>set s. is_digit c \<or> c \<in> {43, 45, 46, 97, 101, 102, 105, 110})"

lemma number_text_simps [simp]:
  "number_text []"
  "number_text (c # s) \<longleftrightarrow> (is_digit c \<or> c \<in> {43, 45, 46, 97, 101, 102, 105, 110}) \<and> number_text s"
  "number_text (s @ t) \<longleftrightarrow> number_text s \<and> number_text t"
  by (auto simp: number_text_def)

lemma number_text_part [simp]: "number_text s \<Longrightarrow> number_text (take n s)" "number_text s \<Longrightarrow> number_text (drop n s)"
  by (auto simp: number_text_def dest: in_set_takeD in_set_dropD)

lemma is_digit_0 [simp]: "is_digit 48"
  by (simp add: is_digit_def)

lemma number_text_zeros [simp]: "number_text (replicate n 48)"
  by (simp add: number_text_def)

lemma number_text_digits: "0 \<le> n \<Longrightarrow> number_text (dec_digits n)"
  using dec_digits_digits by (simp add: number_text_def)

lemma number_text_int [simp]: "number_text (dec_int i)" "number_text (dec_nat n)"
  by (simp_all add: dec_int_def dec_nat_def number_text_digits)

lemma round_half_even_nonneg: "0 \<le> n \<Longrightarrow> 0 < d \<Longrightarrow> 0 \<le> round_half_even n d"
  by (simp add: round_half_even_def Let_def pos_imp_zdiv_nonneg_iff)

lemma dbl_ratio_pos: "dbl_ratio d = (num, den) \<Longrightarrow> 0 \<le> num \<and> 0 < den"
  by (auto simp: dbl_ratio_def Let_def dbl_man_def split: if_splits)

lemma sci_digits_nonneg: "0 \<le> num \<Longrightarrow> 0 < den \<Longrightarrow> sci_digits p num den = (x, ds) \<Longrightarrow> 0 \<le> ds"
  by (auto simp: sci_digits_def Let_def round_half_even_nonneg split: if_splits)

lemma number_text_with_point: "number_text ip \<Longrightarrow> number_text fr \<Longrightarrow> number_text (with_point ip fr)"
  by (auto simp: with_point_def strip_zeros_def number_text_def Let_def dest!: set_dropWhileD)

lemma number_text_infnan [simp]: "number_text (lit ''inf'')" "number_text (lit ''nan'')"
  by (simp_all add: lit_def)

lemma number_text_fmt_g [simp]: "number_text (fmt_g p d)"
proof (cases "dbl_finite d")
  case True
  obtain num den where r: "dbl_ratio d = (num, den)" by (cases "dbl_ratio d")
  obtain x ds where s: "sci_digits p num den = (x, ds)" by (cases "sci_digits p num den")
  have "number_text (dec_digits ds)"
    using dbl_ratio_pos[OF r] s by (auto intro: number_text_digits sci_digits_nonneg)
  then show ?thesis
    using True by (simp add: fmt_g_def r s Let_def number_text_with_point number_text_digits)
qed (simp add: fmt_g_def Let_def)

lemma number_text_fmt_f [simp]: "number_text (fmt_f p d)"
proof (cases "dbl_finite d")
  case True
  obtain num den where r: "dbl_ratio d = (num, den)" by (cases "dbl_ratio d")
  then have "0 \<le> round_half_even (num * 10 ^ p) den"
    using dbl_ratio_pos[OF r] by (intro round_half_even_nonneg) auto
  then show ?thesis
    using True by (simp add: fmt_f_def r Let_def number_text_digits pos_imp_zdiv_nonneg_iff)
qed (simp add: fmt_f_def Let_def)

lemma number_text_plain: "number_text s \<Longrightarrow> 0x22 \<notin> set s \<and> 0 \<notin> set s \<and> 0x0a \<notin> set s"
  by (fastforce simp: number_text_def is_digit_def)

section \<open>The length of numbers\<close>

lemma div_less_of_less_mult: "0 < b \<Longrightarrow> a < b * c \<Longrightarrow> a div b < (c :: int)"
  by (smt (verit) minus_mult_div_eq_mod mult_le_cancel_left_pos pos_mod_sign)

lemma length_dec_digits: "n < 10 ^ k \<Longrightarrow> 0 < k \<Longrightarrow> length (dec_digits n) \<le> k"
proof (induction n arbitrary: k rule: dec_digits.induct)
  case (1 n)
  show ?case
  proof (cases "n < 10")
    case True
    then show ?thesis
      using "1.prems" by (subst dec_digits.simps) simp
  next
    case False
    with "1.prems" obtain j where j: "k = Suc j" "0 < j"
      by (cases k; cases "k - 1") auto
    then have "n div 10 < 10 ^ j"
      using "1.prems" by (intro div_less_of_less_mult) (simp_all add: j(1))
    then show ?thesis
      using "1.IH"[OF False _ j(2)] False j by (subst dec_digits.simps) simp
  qed
qed

lemma log10_up_bounds:
  "0 < den \<Longrightarrow> den \<le> num \<Longrightarrow> 0 \<le> log10_up num den \<and>
   den * 10 ^ nat (log10_up num den) \<le> num \<and> num < den * 10 ^ nat (log10_up num den + 1)"
proof (induction num den rule: log10_up.induct)
  case (1 num den)
  show ?case
  proof (cases "10 * den \<le> num")
    case True
    then have IH: "0 \<le> log10_up num (10 * den)" "10 * den * 10 ^ nat (log10_up num (10 * den)) \<le> num"
        "num < 10 * den * 10 ^ nat (log10_up num (10 * den) + 1)"
      using 1 by auto
    then show ?thesis
      using "1.prems" True by (subst (1 2 3) log10_up.simps) (simp add: nat_add_distrib mult.commute mult.left_commute)
  next
    case False
    then show ?thesis
      using "1.prems" by (subst (1 2 3) log10_up.simps) simp
  qed
qed

lemma log10_down_bounds:
  "0 < num \<Longrightarrow> num < den \<Longrightarrow> log10_down num den < 0 \<and>
   den \<le> num * 10 ^ nat (- log10_down num den) \<and> num * 10 ^ nat (- log10_down num den - 1) < den"
proof (induction num den rule: log10_down.induct)
  case (1 num den)
  have step: "log10_down num den = log10_down (10 * num) den - 1"
    using "1.prems" by (subst log10_down.simps) simp
  show ?case
  proof (cases "10 * num < den")
    case True
    then have IH: "log10_down (10 * num) den < 0" "den \<le> 10 * num * 10 ^ nat (- log10_down (10 * num) den)"
        "10 * num * 10 ^ nat (- log10_down (10 * num) den - 1) < den"
      using 1 by auto
    let ?l = "- log10_down (10 * num) den"
    have e: "nat (- log10_down num den) = Suc (nat ?l)" "nat (- log10_down num den - 1) = Suc (nat (?l - 1))"
      using IH(1) by (simp_all add: step nat_diff_distrib Suc_nat_eq_nat_zadd1)
    show ?thesis
      unfolding e using IH step by (simp add: algebra_simps)
  next
    case False
    then have "log10_down (10 * num) den = 0"
      by (subst log10_down.simps) simp
    then show ?thesis
      using "1.prems" False by (simp add: step)
  qed
qed

lemma round_half_even_le:
  assumes "n < d * k" "0 < d"
  shows "round_half_even n d \<le> k"
proof -
  have "n div d < k"
    using assms by (rule div_less_of_less_mult[rotated])
  then show ?thesis
    by (simp add: round_half_even_def Let_def)
qed

lemma sci_digits_less:
  assumes "0 < num" "0 < den" "0 < p" "sci_digits p num den = (x, ds)"
  shows "ds < 10 ^ p" and "x = floor_log10 num den \<or> x = floor_log10 num den + 1"
proof -
  let ?x = "floor_log10 num den"
  define s where "s = int p - 1 - ?x"
  define d where "d = (if 0 \<le> s then round_half_even (num * 10 ^ nat s) den
      else round_half_even num (den * 10 ^ nat (- s)))"
  have "d \<le> 10 ^ p"
  proof (cases "den \<le> num")
    case True
    then have b: "0 \<le> ?x" "num < den * 10 ^ nat (?x + 1)"
      using log10_up_bounds[OF assms(2) True] by (simp_all add: floor_log10_def)
    show ?thesis
    proof (cases "0 \<le> s")
      case True
      then have "nat (?x + 1) + nat s = p"
        using b(1) by (simp add: s_def)
      then have "den * 10 ^ nat (?x + 1) * 10 ^ nat s = den * 10 ^ p"
        by (simp add: mult.assoc flip: power_add)
      moreover have "num * 10 ^ nat s < den * 10 ^ nat (?x + 1) * 10 ^ nat s"
        using b(2) by simp
      ultimately have "num * 10 ^ nat s < den * 10 ^ p"
        by (simp only:)
      then show ?thesis
        using True assms(2) by (simp add: d_def round_half_even_le)
    next
      case False
      then have "nat (?x + 1) = nat (- s) + p"
        using b(1) by (simp add: s_def)
      then have "num < den * 10 ^ nat (- s) * 10 ^ p"
        using b(2) by (simp add: power_add mult.assoc)
      then show ?thesis
        using False assms(2) by (simp add: d_def round_half_even_le)
    qed
  next
    case False
    then have b: "?x < 0" "num * 10 ^ nat (- ?x - 1) < den"
      using log10_down_bounds[OF assms(1)] by (simp_all add: floor_log10_def)
    then have "nat s = nat (- ?x - 1) + p" "0 \<le> s"
      by (simp_all add: s_def)
    then have "num * 10 ^ nat s = num * 10 ^ nat (- ?x - 1) * 10 ^ p"
      by (simp add: power_add)
    moreover have "num * 10 ^ nat (- ?x - 1) * 10 ^ p < den * 10 ^ p"
      using b(2) by simp
    ultimately have "num * 10 ^ nat s < den * 10 ^ p"
      by (simp only:)
    then show ?thesis
      using \<open>0 \<le> s\<close> assms(2) by (simp add: d_def round_half_even_le)
  qed
  moreover have "(10 :: int) ^ (p - 1) < 10 ^ p"
    using assms(3) by (intro power_strict_increasing) auto
  moreover have "(if d = 10 ^ p then (?x + 1, 10 ^ (p - 1)) else (?x, d)) = (x, ds)"
    using assms(4) unfolding sci_digits_def Let_def d_def s_def .
  ultimately show "ds < 10 ^ p" "x = ?x \<or> x = ?x + 1"
    by (auto split: if_splits)
qed

lemma dbl_ratio_bounds:
  assumes "dbl_ratio d = (num, den)"
  shows "num < 2 ^ 1026" "den \<le> 2 ^ 1074"
proof -
  have m: "0 \<le> dbl_man d" "dbl_man d < 2 ^ 52" and e: "0 \<le> dbl_exp d" "dbl_exp d < 2048"
    by (simp_all add: dbl_man_def dbl_exp_def)
  have pow: "(2 :: int) ^ nat k \<le> 2 ^ n" if "k \<le> int n" for k n
    using that by (intro power_increasing) auto
  have big: "(2 ^ 52 + dbl_man d) * 2 ^ nat (dbl_exp d - 1075) < 2 ^ 53 * 2 ^ 973" if "1075 \<le> dbl_exp d"
    using m pow[of "dbl_exp d - 1075" 973] e by (intro mult_less_le_imp_less) auto
  have "(2 ^ 53 * 2 ^ 973 :: int) = 2 ^ 1026" "(2 :: int) ^ 53 \<le> 2 ^ 1026" "(2 :: int) ^ 52 \<le> 2 ^ 1026" "(1 :: int) \<le> 2 ^ 1074"
    by (simp only: power_add[symmetric]) (auto intro: power_increasing)
  moreover have "2 ^ 52 + dbl_man d < 2 ^ 53"
    using m by simp
  ultimately have small: "dbl_man d < 2 ^ 1026" "2 ^ 52 + dbl_man d < 2 ^ 1026" "(2 ^ 53 * 2 ^ 973 :: int) = 2 ^ 1026"
      "(1 :: int) \<le> 2 ^ 1074"
    using m(2) by (simp_all only: order_less_le_trans)
  then show "num < 2 ^ 1026" "den \<le> 2 ^ 1074"
    using assms m e big pow[of "1075 - dbl_exp d" 1074] small
    by (auto simp only: dbl_ratio_def Let_def prod.inject split: if_splits)
qed

lemma power10_less: "(10 :: int) ^ k < 2 ^ n \<Longrightarrow> k < n"
proof -
  assume "(10 :: int) ^ k < 2 ^ n"
  moreover have "(2 :: int) ^ k \<le> 10 ^ k"
    by (rule power_mono) auto
  ultimately have "(2 :: int) ^ k < 2 ^ n" by linarith
  then show ?thesis by (rule power_less_imp_less_exp[rotated]) simp
qed

lemma floor_log10_range:
  assumes r: "dbl_ratio d = (num, den)" and "0 < num"
  shows "\<bar>floor_log10 num den\<bar> \<le> 1076"
proof (cases "den \<le> num")
  case True
  have den: "0 < den" using dbl_ratio_pos[OF r] by simp
  from log10_up_bounds[OF this True] have b: "0 \<le> log10_up num den" "den * 10 ^ nat (log10_up num den) \<le> num"
    by auto
  have "10 ^ nat (log10_up num den) \<le> den * 10 ^ nat (log10_up num den)"
    using den by simp
  then have "(10 :: int) ^ nat (log10_up num den) < 2 ^ 1026"
    using b(2) dbl_ratio_bounds(1)[OF r] by linarith
  from power10_less[OF this] show ?thesis
    using b(1) True by (simp add: floor_log10_def)
next
  case False
  let ?l = "log10_down num den"
  from log10_down_bounds[OF assms(2), of den] False
  have b: "?l < 0" "num * 10 ^ nat (- ?l - 1) < den" by auto
  have "10 ^ nat (- ?l - 1) \<le> num * 10 ^ nat (- ?l - 1)"
    using assms(2) by simp
  then have "(10 :: int) ^ nat (- ?l - 1) < 2 ^ 1074"
    using b(2) dbl_ratio_bounds(2)[OF r] by linarith
  from power10_less[OF this] show ?thesis
    using b(1) False by (simp add: floor_log10_def)
qed

lemma length_strip_zeros: "length (strip_zeros s) \<le> length s"
  using length_dropWhile_le[of "\<lambda>b. b = 48" "rev s"] by (simp add: strip_zeros_def)

lemma length_with_point: "length (with_point ip fr) \<le> length ip + 1 + length fr"
  using length_strip_zeros[of fr] by (simp add: with_point_def Let_def)

lemma length_with_point_split: "length (with_point (take k s) (drop k s)) \<le> length s + 1"
  using length_with_point[of "take k s" "drop k s"] by simp

text \<open>\<^verbatim>\<open>%.pg\<close> writes a sign, the digits, a point and at most three zeros or an exponent.\<close>

lemma length_fmt_g:
  assumes "0 < p"
  shows "length (fmt_g p d) \<le> p + 9"
proof (cases "dbl_finite d \<and> fst (dbl_ratio d) \<noteq> 0")
  case True
  obtain num den where r: "dbl_ratio d = (num, den)" by (cases "dbl_ratio d")
  obtain x ds where s: "sci_digits p num den = (x, ds)" by (cases "sci_digits p num den")
  have num: "0 < num" "0 < den"
    using dbl_ratio_pos[OF r] True by (auto simp: r)
  note ds = sci_digits_less[OF num assms s]
  have digits: "length (dec_digits ds) \<le> p"
    using length_dec_digits[OF ds(1) assms] .
  have "\<bar>x\<bar> < 10 ^ 4"
    using floor_log10_range[OF r num(1)] ds(2) by auto
  then have ex: "length (dec_digits \<bar>x\<bar>) \<le> 4"
    by (intro length_dec_digits) auto
  have ten: "\<bar>x\<bar> < 10 \<Longrightarrow> length (dec_digits \<bar>x\<bar>) = 1"
    by (subst dec_digits.simps) simp
  show ?thesis
    using True digits ex ten assms length_with_point_split[of 1 "dec_digits ds"]
      length_with_point_split[of "nat x + 1" "dec_digits ds"]
      length_with_point[of "[48]" "replicate (nat (- x) - 1) 48 @ dec_digits ds"]
    by (auto simp: fmt_g_def r s Let_def)
next
  case False
  then show ?thesis
    by (cases "dbl_ratio d") (auto simp: fmt_g_def Let_def)
qed

lemma length_dec_int: "\<bar>i\<bar> < 10 ^ k \<Longrightarrow> 0 < k \<Longrightarrow> length (dec_int i) \<le> k + 1"
  using length_dec_digits[of "\<bar>i\<bar>" k] by (auto simp: dec_int_def)

end
