(* ===== verification/JsonLine.thy ===== *)
theory JsonLine
  imports JsonScan NumText
begin

text \<open>
  The text of a spill line: one JSON object whose members are quoted strings or numbers; and what
  the scans \<open>json_str\<close> and \<open>json_num\<close> of the replay find in such a line.  In a text \<open>qlit ''...''\<close> a
  backquote stands for a double quote.
\<close>

section \<open>Writing\<close>

definition qlit :: "string \<Rightarrow> byte list" where
  "qlit s = map (\<lambda>c. if c = CHR 0x60 then 0x22 else of_char c) s"

text \<open>The JSON texts of the spill lines: keys with a string or a number.\<close>

definition esc :: "nat \<Rightarrow> cstring \<Rightarrow> cstring" where
  "esc cap s = snd (pw_json_escape cap s)"

definition json_member :: "cstring \<times> cstring \<Rightarrow> byte list" where
  "json_member = (\<lambda>(k, v). 0x22 # k @ [0x22, 0x3a] @ v)"

definition quoted :: "cstring \<Rightarrow> byte list" where
  "quoted s = 0x22 # s @ [0x22]"

fun commas :: "byte list list \<Rightarrow> byte list" where
  "commas [] = []"
| "commas [x] = x"
| "commas (x # y # xs) = x @ 0x2c # commas (y # xs)"

definition json_line :: "(cstring \<times> cstring) list \<Rightarrow> byte list" where
  "json_line members = 0x7b # commas (map json_member members) @ [0x7d]"

section \<open>Skipping members\<close>

text \<open>Keys are nonempty identifiers, so neither quotes nor backslashes occur in them.\<close>

definition key_ok :: "cstring \<Rightarrow> bool" where
  "key_ok key \<longleftrightarrow> key \<noteq> [] \<and> length key < 126 \<and> list_all (\<lambda>c. isalnum c \<or> c = 0x5f) key"

lemma key_okD:
  assumes "key_ok key"
  shows "key_pat key = 0x22 # key @ [0x22]" "0x22 \<notin> set key" "0x5c \<notin> set key" "0x2c \<notin> set key"
    "0x3a \<notin> set key" "0x7d \<notin> set key" "key \<noteq> []" "0 \<notin> set key"
proof -
  have "isalnum c \<or> c = 0x5f" if "c \<in> set key" for c
    using assms that by (auto simp: key_ok_def list_all_iff)
  then show "0x22 \<notin> set key" "0x5c \<notin> set key" "0x2c \<notin> set key" "0x3a \<notin> set key" "0x7d \<notin> set key" "0 \<notin> set key"
    by (fastforce simp: isalnum_def)+
qed (use assms in \<open>simp_all add: key_ok_def key_pat_def\<close>)

text \<open>Text the scan for a key passes over: no hit in it is followed by a colon.\<close>

fun inert :: "cstring \<Rightarrow> byte list \<Rightarrow> byte list \<Rightarrow> bool" where
  "inert pat [] rest = True"
| "inert pat (c # pre) rest =
     ((is_prefix pat (c # pre @ rest) \<longrightarrow> after_colon pat (c # pre @ rest) = None) \<and> inert pat pre rest)"

lemma inert_append: "inert pat (a @ b) rest \<longleftrightarrow> inert pat a (b @ rest) \<and> inert pat b rest"
  by (induction a) auto

lemma strstr_step: "strstr (c # s) pat = (if is_prefix pat (c # s) then Some (c # s) else strstr s pat)"
  by simp

lemma strstr_nonempty: "pat \<noteq> [] \<Longrightarrow> strstr p pat \<noteq> Some []"
  by (auto dest!: strstr_Some simp: is_prefix_def)

lemma json_str_inert:
  "pat \<noteq> [] \<Longrightarrow> inert pat pre rest \<Longrightarrow> json_str_loop pat (pre @ rest) cap = json_str_loop pat rest cap"
proof (induction pre)
  case (Cons c pre)
  show ?case
  proof (cases "is_prefix pat (c # pre @ rest)")
    case True
    then show ?thesis
      using Cons by (simp add: json_str_loop.simps[of pat "c # pre @ rest"])
  next
    case False
    then have "json_str_loop pat (c # pre @ rest) cap = json_str_loop pat (pre @ rest) cap"
      using Cons.prems(1) strstr_nonempty[of pat "pre @ rest"]
      by (subst (1 2) json_str_loop.simps) (auto split: option.splits)
    then show ?thesis
      using Cons by simp
  qed
qed simp

lemma json_num_inert:
  "pat \<noteq> [] \<Longrightarrow> inert pat pre rest \<Longrightarrow> json_num_loop pat (pre @ rest) out = json_num_loop pat rest out"
proof (induction pre)
  case (Cons c pre)
  show ?case
  proof (cases "is_prefix pat (c # pre @ rest)")
    case True
    then show ?thesis
      using Cons by (simp add: json_num_loop.simps[of pat "c # pre @ rest"])
  next
    case False
    then have "json_num_loop pat (c # pre @ rest) out = json_num_loop pat (pre @ rest) out"
      using Cons.prems(1) strstr_nonempty[of pat "pre @ rest"]
      by (subst (1 2) json_num_loop.simps) (auto split: option.splits)
    then show ?thesis
      using Cons by simp
  qed
qed simp

lemma inert_plain: "0x22 \<notin> set pre \<Longrightarrow> inert (0x22 # key) pre rest"
  by (induction pre) (auto simp: is_prefix_def)

text \<open>Every quote of an escaped text follows a backslash.\<close>

fun quotes_escaped :: "bool \<Rightarrow> byte list \<Rightarrow> bool" where
  "quotes_escaped p [] = True"
| "quotes_escaped p (c # s) = ((c = 0x22 \<longrightarrow> p) \<and> quotes_escaped (c = 0x5c) s)"

lemma key_matches_text:
  "quotes_escaped False u \<Longrightarrow> is_prefix (key @ [0x22]) (u @ 0x22 # rest) \<Longrightarrow>
   0x22 \<notin> set key \<Longrightarrow> 0x5c \<notin> set key \<Longrightarrow> u = key"
proof (induction u arbitrary: key)
  case Nil
  then show ?case by (cases key) (auto simp: is_prefix_def)
next
  case (Cons c u)
  then show ?case by (cases key) (auto simp: is_prefix_def)
qed

lemma inert_text:
  assumes "key_ok key" "c = 0x2c \<or> c = 0x7d"
  shows "quotes_escaped p u \<Longrightarrow> inert (0x22 # key @ [0x22]) u (0x22 # c # rest)"
proof (induction u arbitrary: p)
  case (Cons x u)
  have "after_colon (0x22 # key @ [0x22]) (x # u @ 0x22 # c # rest) = None"
    if "is_prefix (0x22 # key @ [0x22]) (x # u @ 0x22 # c # rest)"
  proof -
    have "x = 0x22" "is_prefix (key @ [0x22]) (u @ 0x22 # c # rest)"
      using that by (simp_all add: is_prefix_def)
    moreover have "quotes_escaped False u"
      using Cons.prems \<open>x = 0x22\<close> by simp
    ultimately have "u = key"
      using key_matches_text key_okD[OF assms(1)] by blast
    then show ?thesis
      using assms(2) by (auto simp: after_colon_def skip_json_ws_def)
  qed
  then show ?case
    using Cons by auto
qed simp

lemma inert_closing:
  assumes "key_ok key" "c \<notin> set key"
  shows "inert (0x22 # key @ [0x22]) [0x22] (c # rest)"
  using assms by (cases key) (auto simp: key_ok_def is_prefix_def)

definition value_ok :: "byte list \<Rightarrow> bool" where
  "value_ok v \<longleftrightarrow> 0 \<notin> set v \<and> (0x22 \<notin> set v \<or> (\<exists>s. v = quoted s \<and> quotes_escaped False s))"

lemma inert_value:
  assumes key: "key_ok key" and c: "c = 0x2c \<or> c = 0x7d" and v: "value_ok v"
  shows "inert (0x22 # key @ [0x22]) v (c # rest)"
  using v[unfolded value_ok_def, THEN conjunct2]
proof
  assume "\<exists>s. v = quoted s \<and> quotes_escaped False s"
  then obtain s where s: "v = 0x22 # s @ [0x22]" "quotes_escaped True (0x22 # s)"
    by (auto simp: quoted_def)
  have "inert (0x22 # key @ [0x22]) ((0x22 # s) @ [0x22]) (c # rest)"
    using inert_text[OF key c s(2), of rest] inert_closing[OF key, of c rest] key_okD[OF key] c
    by (subst inert_append) auto
  then show ?thesis
    by (simp add: s(1))
qed (rule inert_plain)

text \<open>A member of another key, with what follows it.\<close>

lemma inert_member:
  assumes key: "key_ok key" and k: "key_ok k" "k \<noteq> key" and c: "c = 0x2c \<or> c = 0x7d" and v: "value_ok v"
  shows "inert (0x22 # key @ [0x22]) (json_member (k, v)) (c # rest)"
proof -
  let ?pat = "0x22 # key @ [0x22]"
  have qk: "quotes_escaped False k"
  proof -
    have "quotes_escaped p u" if "0x22 \<notin> set u" for p u
      using that by (induction u arbitrary: p) auto
    then show ?thesis using key_okD(2)[OF k(1)] by blast
  qed
  have "\<not> is_prefix ?pat (0x22 # k @ 0x22 # s)" for s
    using key_matches_text[OF qk, of key s] k(2) key_okD(2,3)[OF key] by (auto simp: is_prefix_def)
  then have 1: "inert ?pat [0x22] (k @ 0x22 # s)" for s
    by simp
  have 2: "inert ?pat k s" for s
    by (rule inert_plain) (rule key_okD(2)[OF k(1)])
  have 3: "inert ?pat [0x22] (0x3a # s)" for s
    using key_okD(5)[OF key] by (intro inert_closing key)
  have 4: "inert ?pat [0x3a] s" for s
    by (rule inert_plain) simp
  have "inert ?pat ([0x22] @ k @ [0x22] @ [0x3a] @ v) (c # rest)"
    unfolding inert_append using 1 2 3 4 inert_value[OF key c v] by simp
  then show ?thesis
    by (simp add: json_member_def)
qed

lemma commas_Cons: "xs \<noteq> [] \<Longrightarrow> commas (x # xs) = x @ 0x2c # commas xs"
  by (cases xs) auto

definition members_ok :: "(cstring \<times> cstring) list \<Rightarrow> bool" where
  "members_ok ms \<longleftrightarrow> list_all (\<lambda>(k, v). key_ok k \<and> value_ok v) ms"

text \<open>A scan for a key reaches its first member.\<close>

lemma inert_members:
  assumes key: "key_ok key"
    and "members_ok pre" "key \<notin> fst ` set pre"
  shows "\<exists>skip c rest. 0x7b # commas (map json_member (pre @ (key, v) # post)) @ [0x7d] =
        skip @ 0x22 # key @ [0x22, 0x3a] @ v @ c # rest \<and> (c = 0x2c \<or> c = 0x7d) \<and>
      inert (0x22 # key @ [0x22]) skip (0x22 # key @ [0x22, 0x3a] @ v @ c # rest)"
proof -
  have tail: "\<exists>c rest. commas (map json_member ((key, v) # post)) @ [0x7d] =
      0x22 # key @ [0x22, 0x3a] @ v @ c # rest \<and> (c = 0x2c \<or> c = 0x7d)"
    by (cases post) (auto simp: json_member_def)
  have "members_ok pre \<Longrightarrow> key \<notin> fst ` set pre \<Longrightarrow>
    \<exists>skip c rest. commas (map json_member (pre @ (key, v) # post)) @ [0x7d] =
        skip @ 0x22 # key @ [0x22, 0x3a] @ v @ c # rest \<and> (c = 0x2c \<or> c = 0x7d) \<and>
      inert (0x22 # key @ [0x22]) skip (0x22 # key @ [0x22, 0x3a] @ v @ c # rest)"
  proof (induction pre)
    case Nil
    then show ?case
      using tail by (metis append_Nil inert.simps(1))
  next
    case (Cons m pre)
    obtain k u where m: "m = (k, u)" by (cases m)
    from Cons obtain skip c rest where IH:
      "commas (map json_member (pre @ (key, v) # post)) @ [0x7d] = skip @ 0x22 # key @ [0x22, 0x3a] @ v @ c # rest"
      "c = 0x2c \<or> c = 0x7d" "inert (0x22 # key @ [0x22]) skip (0x22 # key @ [0x22, 0x3a] @ v @ c # rest)"
      by (auto simp: members_ok_def)
    let ?rest = "0x22 # key @ [0x22, 0x3a] @ v @ c # rest"
    have "inert (0x22 # key @ [0x22]) (json_member m @ [0x2c]) (skip @ ?rest)"
      using Cons.prems inert_member[OF key, where k = k and c = "0x2c" and v = u and rest = "skip @ ?rest"] inert_plain[of "[0x2c]" "key @ [0x22]"]
      unfolding inert_append by (auto simp: m members_ok_def)
    then have "inert (0x22 # key @ [0x22]) ((json_member m @ [0x2c]) @ skip) ?rest"
      using IH(3) by (subst inert_append) blast
    moreover have "commas (map json_member ((m # pre) @ (key, v) # post)) @ [0x7d] = ((json_member m @ [0x2c]) @ skip) @ ?rest"
      using IH(1) by (simp add: commas_Cons)
    ultimately show ?case
      using IH(2) by blast
  qed
  from this[OF assms(2,3)] obtain skip c rest where
    m: "commas (map json_member (pre @ (key, v) # post)) @ [0x7d] = skip @ 0x22 # key @ [0x22, 0x3a] @ v @ c # rest"
    and c: "c = 0x2c \<or> c = 0x7d"
    and i: "inert (0x22 # key @ [0x22]) skip (0x22 # key @ [0x22, 0x3a] @ v @ c # rest)"
    by blast
  have "inert (0x22 # key @ [0x22]) (0x7b # skip) (0x22 # key @ [0x22, 0x3a] @ v @ c # rest)"
    using i by (simp add: is_prefix_def)
  moreover have "0x7b # commas (map json_member (pre @ (key, v) # post)) @ [0x7d] =
      (0x7b # skip) @ 0x22 # key @ [0x22, 0x3a] @ v @ c # rest"
    using m by simp
  ultimately show ?thesis
    using c by blast
qed

section \<open>Reading a member back\<close>

lemma lit_eq_iff [simp]: "lit s = lit t \<longleftrightarrow> s = t"
proof -
  have "c = d" if "(of_char c :: byte) = of_char d" for c d
  proof -
    have "uint (of_char c :: byte) = of_char c" for c :: char
      by (simp add: of_char_def uint_word_of_int)
    then have "(of_char c :: int) = of_char d"
      using that by metis
    then show ?thesis by simp
  qed
  then have "inj (of_char :: char \<Rightarrow> byte)"
    by (auto intro: injI)
  then show ?thesis
    by (simp add: lit_def)
qed

text \<open>What the copy loop keeps of an escaped text: the escape sequences lose their backslash.\<close>

definition kept :: "cstring \<Rightarrow> cstring" where
  "kept s = concat (map (\<lambda>c. case json_rep c of Some rep \<Rightarrow> tl rep | None \<Rightarrow> [c]) s)"

lemma kept_simps [simp]:
  "kept [] = []"
  "kept (c # s) = (case json_rep c of Some rep \<Rightarrow> tl rep | None \<Rightarrow> [c]) @ kept s"
  by (simp_all add: kept_def)

lemma hex04_plain:
  assumes "c < 0x20"
  shows "0x22 \<notin> set (hex04 c) \<and> 0x5c \<notin> set (hex04 c) \<and> 0 \<notin> set (hex04 c)"
proof -
  have "unat c \<in> set [0..<32]"
    using assms by (simp add: word_less_nat_alt)
  moreover have "\<forall>n\<in>set [0..<32]. let h = hex04 (word_of_nat n) in 0x22 \<notin> set h \<and> 0x5c \<notin> set h \<and> 0 \<notin> set h"
    by code_simp
  ultimately have "let h = hex04 (word_of_nat (unat c)) in 0x22 \<notin> set h \<and> 0x5c \<notin> set h \<and> 0 \<notin> set h"
    by blast
  then show ?thesis by (simp add: Let_def)
qed

lemma json_rep_Some:
  assumes "json_rep c = Some rep"
  shows "\<exists>d ds. rep = 0x5c # d # ds \<and> 0x22 \<notin> set ds \<and> 0x5c \<notin> set ds \<and> 0 \<notin> set rep"
  using assms hex04_plain[of c] by (auto simp: json_rep_def lit_def split: if_splits)

lemma json_copy_full: "cap \<le> i + 1 \<Longrightarrow> json_copy s i cap = []"
  by (cases s) auto

lemma json_copy_plain:
  "0x22 \<notin> set a \<Longrightarrow> 0x5c \<notin> set a \<Longrightarrow>
   json_copy (a @ s) i cap = take (cap - 1 - i) a @ json_copy s (i + length a) cap"
proof (induction a arbitrary: i)
  case (Cons c a)
  show ?case
  proof (cases "cap \<le> i + 1")
    case True
    then show ?thesis by (simp add: json_copy_full)
  next
    case False
    then have "cap - 1 - i = Suc (cap - 1 - (i + 1))" by simp
    then show ?thesis
      using Cons False by simp
  qed
qed simp

lemma json_copy_esc: "json_copy (json_esc s @ 0x22 # rest) i cap = take (cap - 1 - i) (kept s)"
proof (induction s arbitrary: i)
  case (Cons c s)
  show ?case
  proof (cases "cap \<le> i + 1")
    case True
    then show ?thesis by (simp add: json_copy_full)
  next
    case False
    then have room: "cap - 1 - i = Suc (cap - 1 - (i + 1))" by simp
    show ?thesis
    proof (cases "json_rep c")
      case None
      then have "c \<noteq> 0x22" "c \<noteq> 0x5c" by (auto simp: json_rep_def split: if_splits)
      then show ?thesis
        using Cons None False room by simp
    next
      case (Some rep)
      from json_rep_Some[OF Some] obtain d ds where
        rep: "rep = 0x5c # d # ds" "0x22 \<notin> set ds" "0x5c \<notin> set ds" by blast
      then show ?thesis
        using Cons.IH[of "i + Suc (length ds)"] False room
        by (simp add: Some json_copy_plain)
    qed
  qed
qed simp

lemma quotes_escaped_append:
  "0x22 \<notin> set a \<Longrightarrow> 0x5c \<notin> set a \<Longrightarrow> a \<noteq> [] \<Longrightarrow> quotes_escaped p (a @ s) \<longleftrightarrow> quotes_escaped False s"
proof (induction a arbitrary: p)
  case (Cons c a)
  then show ?case by (cases "a = []") auto
qed simp

lemma quotes_escaped_weaken: "quotes_escaped False s \<Longrightarrow> quotes_escaped p s"
  by (cases s) auto

lemma quotes_escaped_esc: "quotes_escaped False (json_esc s)"
proof (induction s)
  case (Cons c s)
  show ?case
  proof (cases "json_rep c")
    case None
    then have "c \<noteq> 0x22" "c \<noteq> 0x5c" by (auto simp: json_rep_def split: if_splits)
    with Cons None show ?thesis by simp
  next
    case (Some rep)
    show ?thesis
    proof (cases "c = 0x5c \<or> c = 0x22")
      case True
      then have "rep = [0x5c, c]"
        using Some by (auto simp: json_rep_def)
      then show ?thesis
        using Some Cons True by (auto simp: quotes_escaped_weaken)
    next
      case False
      then obtain d ds where "rep = 0x5c # d # ds" "0x22 \<notin> set (d # ds)" "0x5c \<notin> set (d # ds)"
        using Some json_rep_Some[OF Some] by (auto simp: json_rep_def lit_def split: if_splits)
      then show ?thesis
        using Some Cons quotes_escaped_append[of "d # ds" True "json_esc s"] by simp
    qed
  qed
qed simp

lemma set_json_esc: "0 \<notin> set s \<Longrightarrow> 0 \<notin> set (json_esc s)"
  by (induction s) (auto split: option.splits dest: json_rep_Some)

lemma set_kept: "0 \<notin> set s \<Longrightarrow> 0 \<notin> set (kept s)"
proof (induction s)
  case (Cons c s)
  then show ?case
    using json_rep_Some[of c] by (fastforce split: option.splits)
qed simp

lemma kept_clean: "(\<And>c. c \<in> set s \<Longrightarrow> 0x20 \<le> c) \<Longrightarrow> kept s = s"
proof (induction s)
  case (Cons c s)
  have "0x20 \<le> c" using Cons.prems by simp
  then have "case json_rep c of Some rep \<Rightarrow> tl rep = [c] | None \<Rightarrow> True"
    by (auto simp: json_rep_def word_le_nat_alt word_less_nat_alt split: option.splits)
  then show ?case
    using Cons by (auto split: option.splits)
qed simp

lemma length_kept: "length (kept s) \<le> length (json_esc s)"
  by (induction s) (auto split: option.splits)

lemma length_json_esc: "length s \<le> length (json_esc s)"
  by (induction s) (auto split: option.splits dest: json_rep_Some)

lemma value_ok_quoted: "0 \<notin> set s \<Longrightarrow> value_ok (quoted (json_esc s))"
  unfolding value_ok_def using quotes_escaped_esc set_json_esc[of s] by (auto simp: quoted_def)

lemma value_ok_number: "number_text s \<Longrightarrow> value_ok s"
  using number_text_plain by (auto simp: value_ok_def)

lemma map_of_split: "map_of ms k = Some v \<Longrightarrow> \<exists>pre post. ms = pre @ (k, v) # post \<and> k \<notin> fst ` set pre"
proof (induction ms)
  case (Cons m ms)
  show ?case
  proof (cases "fst m = k")
    case True
    then show ?thesis
      using Cons.prems by (intro exI[of _ "[]"] exI[of _ ms]) (cases m, auto)
  next
    case False
    then obtain pre post where "ms = pre @ (k, v) # post" "k \<notin> fst ` set pre"
      using Cons by auto
    then show ?thesis
      using False by (intro exI[of _ "m # pre"] exI[of _ post]) auto
  qed
qed simp

lemma commas_set: "set (commas xs) \<subseteq> insert 0x2c (\<Union>(set ` set xs))"
  by (induction xs rule: commas.induct) auto

lemma json_line_cstr:
  assumes "members_ok ms"
  shows "cstr (json_line ms) = json_line ms"
proof -
  have "0 \<notin> set (json_member m)" if "m \<in> set ms" for m
    using assms that key_okD(8) by (cases m) (auto simp: members_ok_def list_all_iff json_member_def value_ok_def)
  then have "0 \<notin> set (json_line ms)"
    using commas_set[of "map json_member ms"] by (auto simp: json_line_def)
  then show ?thesis
    by (simp add: is_cstr_def)
qed

lemma find_member:
  assumes "members_ok ms" "map_of ms key = Some v"
  shows "\<exists>c rest. (c = 0x2c \<or> c = 0x7d) \<and>
    json_str_loop (key_pat key) (json_line ms) cap = json_str_loop (key_pat key) (0x22 # key @ [0x22, 0x3a] @ v @ c # rest) cap \<and>
    json_num_loop (key_pat key) (json_line ms) out = json_num_loop (key_pat key) (0x22 # key @ [0x22, 0x3a] @ v @ c # rest) out"
proof -
  from map_of_split[OF assms(2)] obtain pre post where ms: "ms = pre @ (key, v) # post" "key \<notin> fst ` set pre"
    by blast
  with assms(1) have key: "key_ok key" and pre: "members_ok pre"
    by (auto simp: members_ok_def)
  from inert_members[OF key pre ms(2), of v post] obtain skip c rest where
    "json_line ms = skip @ 0x22 # key @ [0x22, 0x3a] @ v @ c # rest" "c = 0x2c \<or> c = 0x7d"
    "inert (0x22 # key @ [0x22]) skip (0x22 # key @ [0x22, 0x3a] @ v @ c # rest)"
    by (auto simp: json_line_def ms(1))
  then show ?thesis
    using json_str_inert[of "0x22 # key @ [0x22]" skip] json_num_inert[of "0x22 # key @ [0x22]" skip]
      key_okD(1)[OF key] by (metis list.distinct(1))
qed

lemma at_hit:
  assumes "key_ok key"
  shows "strstr (0x22 # key @ [0x22, 0x3a] @ s) (key_pat key) = Some (0x22 # key @ [0x22, 0x3a] @ s)"
    and "after_colon (key_pat key) (0x22 # key @ [0x22, 0x3a] @ s) = Some (skip_blanks s)"
  using assms by (simp_all add: key_okD(1) is_prefix_def after_colon_def skip_json_ws_def)

text \<open>A string member of a line is found by its key, without the backslashes of its escapes.\<close>

lemma json_str_member:
  assumes ms: "members_ok ms" and v: "map_of ms key = Some (quoted (json_esc s))" and nul: "0 \<notin> set s"
  shows "json_str (json_line ms) key cap = Some (take (cap - 1) (kept s))"
proof -
  have key: "key_ok key"
    using ms v by (auto simp: members_ok_def list_all_iff dest!: map_of_SomeD)
  from find_member[OF ms v, of cap None] obtain c rest where
    "json_str_loop (key_pat key) (json_line ms) cap =
     json_str_loop (key_pat key) (0x22 # key @ [0x22, 0x3a] @ quoted (json_esc s) @ c # rest) cap"
    by blast
  also have "\<dots> = Some (json_copy (json_esc s @ 0x22 # c # rest) 0 cap)"
    using at_hit[OF key, of "quoted (json_esc s) @ c # rest"]
    by (simp add: json_str_loop.simps[of _ "0x22 # _"] quoted_def skip_blanks_def)
  also have "\<dots> = Some (take (cap - 1) (kept s))"
    by (simp add: json_copy_esc)
  finally show ?thesis
    using set_kept[OF nul] is_cstr_take[of "kept s" "cap - 1"]
    by (simp add: json_str_def json_line_cstr[OF ms]) (simp add: is_cstr_def)
qed

text \<open>A number member is what \<open>strtod\<close> makes of its text.\<close>

lemma json_num_member:
  assumes ms: "members_ok ms" and v: "map_of ms key = Some v"
    and num: "v \<noteq> []" "hd v \<noteq> 0x20" "hd v \<noteq> 0x09" "\<And>rest. ends_number rest \<Longrightarrow> strtod (v @ rest) = Some (d, rest)"
  shows "json_num (json_line ms) key out = (True, d)"
proof -
  have key: "key_ok key"
    using ms v by (auto simp: members_ok_def list_all_iff dest!: map_of_SomeD)
  from find_member[OF ms v, of 0 None] obtain c rest where c: "c = 0x2c \<or> c = 0x7d"
    and "json_num_loop (key_pat key) (json_line ms) None =
     json_num_loop (key_pat key) (0x22 # key @ [0x22, 0x3a] @ v @ c # rest) None"
    by blast
  note this(2)
  also have "\<dots> = (True, Some d)"
  proof -
    have "skip_blanks (v @ c # rest) = v @ c # rest"
      using num(1-3) by (cases v) (auto simp: skip_blanks_def)
    moreover have "strtod (v @ c # rest) = Some (d, c # rest)"
      using c by (intro num(4)) (auto simp: ends_number_def)
    ultimately show ?thesis
      using at_hit[OF key, of "v @ c # rest"]
      by (simp add: json_num_loop.simps[of _ "0x22 # _"])
  qed
  finally show ?thesis
    by (simp add: json_num_def json_line_cstr[OF ms])
qed

lemma json_num_int:
  assumes "members_ok ms" "map_of ms key = Some (dec_int i)"
  shows "json_num (json_line ms) key out = (True, dbl_of_int i)"
proof (rule json_num_member[OF assms])
  have "hd (dec_int i) = 45 \<or> is_digit (hd (dec_int i))"
    using dec_digits_digits[of i "hd (dec_digits i)"] by (auto simp: dec_int_def)
  then show "hd (dec_int i) \<noteq> 0x20" "hd (dec_int i) \<noteq> 0x09"
    by (auto simp: is_digit_def)
qed (auto simp: dec_int_def strtod_dec_int[unfolded dec_int_def])

end
