(* ===== verification/Net.thy ===== *)
theory Net
  imports CNumber World
begin

text \<open>
  The client side of TCP as \<^verbatim>\<open>src/agent/otlp_forward.c\<close> and \<^verbatim>\<open>src/common/proc_push.c\<close> use it: trying the
  resolved addresses in turn, connecting with a timeout, sending a whole buffer over partial and
  interrupted sends, and judging the first bytes of the answer.

  The kernel's answers are a parameter, the record \<open>net\<close>.  An address is a number; what the calls on one
  address answer is the record \<open>sock_answers\<close>.  \<open>nt_send\<close> lists the results of the \<^verbatim>\<open>send\<close> calls for one
  buffer; after the listed ones the kernel takes all that is left, so that a buffer is not interrupted
  for ever.
\<close>

datatype conn_result = ConnOk | ConnInProgress | ConnFailed

record sock_answers =
  sa_socket :: bool
  sa_rcvtimeo :: bool
  sa_sndtimeo :: bool
  sa_getfl :: bool
  sa_setfl :: bool
  sa_connect :: conn_result
  sa_select :: int
  sa_soerr :: "int option"

datatype send_result = Sent nat | SendIntr | SendErr

record 'd net =
  nt_getaddrinfo :: "cstring \<Rightarrow> cstring \<Rightarrow> 'd \<Rightarrow> nat list option \<times> 'd"
  nt_try :: "nat \<Rightarrow> 'd \<Rightarrow> sock_answers \<times> 'd"
  nt_send :: "byte list \<Rightarrow> 'd \<Rightarrow> send_result list \<times> 'd"
  nt_recv :: "'d \<Rightarrow> byte list option \<times> 'd"

section \<open>Connecting\<close>

definition set_timeouts :: "sock_answers \<Rightarrow> int" where
  "set_timeouts a = (if \<not> sa_rcvtimeo a then - 1 else if \<not> sa_sndtimeo a then - 1 else 0)"

text \<open>The calls that restore the flags are not looked at.\<close>

definition connect_timeout :: "sock_answers \<Rightarrow> int" where
  "connect_timeout a =
     (if \<not> sa_getfl a then - 1
      else if \<not> sa_setfl a then - 1
      else case sa_connect a of
             ConnOk \<Rightarrow> 0
           | ConnFailed \<Rightarrow> - 1
           | ConnInProgress \<Rightarrow>
               if sa_select a \<le> 0 then - 1
               else case sa_soerr a of
                      None \<Rightarrow> - 1
                    | Some soerr \<Rightarrow> if soerr \<noteq> 0 then - 1 else 0)"

text \<open>The loop over the addresses: whether one of them was connected, by the test \<open>ok\<close> of the caller.\<close>

fun try_addresses :: "'d net \<Rightarrow> (sock_answers \<Rightarrow> bool) \<Rightarrow> nat list \<Rightarrow> 'd \<Rightarrow> bool \<times> 'd" where
  "try_addresses net ok [] d = (False, d)"
| "try_addresses net ok (ai # addrs) d =
     (case nt_try net ai d of (a, d1) \<Rightarrow>
        if \<not> sa_socket a then try_addresses net ok addrs d1
        else if ok a then (True, d1)
        else try_addresses net ok addrs d1)"

section \<open>Sending\<close>

text \<open>
  The chunks the kernel takes of \<open>rest\<close> and whether all of it is gone.  With \<open>zero_fails\<close> a send of
  nothing is an error (\<^verbatim>\<open>send_all\<close>), else it is tried again.
\<close>

fun send_loop :: "bool \<Rightarrow> byte list \<Rightarrow> send_result list \<Rightarrow> bool \<times> byte list list" where
  "send_loop zero_fails rest [] = (True, [rest])"
| "send_loop zero_fails rest (r # rs) =
     (if rest = [] then (True, [])
      else case r of
             SendIntr \<Rightarrow> send_loop zero_fails rest rs
           | SendErr \<Rightarrow> (False, [])
           | Sent n \<Rightarrow>
               if n = 0 \<and> zero_fails then (False, [])
               else case send_loop zero_fails (drop n rest) rs of (ok, cs) \<Rightarrow> (ok, take n rest # cs))"

definition send_all :: "'d net \<Rightarrow> byte list \<Rightarrow> 'd \<Rightarrow> int \<times> 'd" where
  "send_all net buf d =
     (if buf = [] then (0, d)
      else case nt_send net buf d of (rs, d1) \<Rightarrow> (if fst (send_loop True buf rs) then 0 else - 1, d1))"

text \<open>Whatever the kernel does, the bytes on the wire are a prefix of the buffer, and all of it on success.\<close>

lemma send_loop_chunks:
  "send_loop z rest rs = (ok, cs) \<Longrightarrow> \<exists>tail. rest = concat cs @ tail \<and> (ok \<longrightarrow> tail = [])"
proof (induction rs arbitrary: rest ok cs)
  case (Cons r rs)
  show ?case
  proof (cases "rest = []")
    case False
    show ?thesis
    proof (cases r)
      case (Sent n)
      show ?thesis
      proof (cases "n = 0 \<and> z")
        case more: False
        obtain ok1 cs1 where one: "send_loop z (drop n rest) rs = (ok1, cs1)" by fastforce
        then obtain tail where t: "drop n rest = concat cs1 @ tail" "ok1 \<longrightarrow> tail = []"
          using Cons.IH by blast
        have "ok = ok1" "cs = take n rest # cs1"
          using Cons.prems False Sent more one by auto
        moreover have "rest = concat (take n rest # cs1) @ tail"
          using t(1) append_take_drop_id[of n rest] by simp
        ultimately show ?thesis using t(2) by blast
      qed (use Cons.prems Sent False in simp)
    qed (use Cons False in auto)
  qed (use Cons.prems in auto)
qed simp

section \<open>The answer\<close>

text \<open>What the answer must start with: a first line with a status from 200 to 299.\<close>

definition answer_ok :: "byte list \<Rightarrow> bool" where
  "answer_ok resp =
     (case strchr (cstr (take 255 resp)) 0x20 of
        None \<Rightarrow> False
      | Some sp \<Rightarrow> (let code = atoi (drop 1 sp) in 200 \<le> code \<and> code < 300))"

definition read_answer :: "'d net \<Rightarrow> 'd \<Rightarrow> int \<times> 'd" where
  "read_answer net d =
     (case nt_recv net d of
        (None, d1) \<Rightarrow> (- 1, d1)
      | (Some resp, d1) \<Rightarrow> (if resp = [] then - 1 else if answer_ok resp then 0 else - 1, d1))"

end
