(* ===== verification/OtlpForward.thy ===== *)
theory OtlpForward
  imports Net
begin

text \<open>
  The best-effort forwarder \<^verbatim>\<open>src/agent/otlp_forward.c\<close>: URL parsing, the request it sends, the
  connection with its timeouts and the verdict on the answer.  The kernel's part is the record \<open>net\<close>.
\<close>

text \<open>\<^verbatim>\<open>parse_http_url\<close>: host, port and path; \<open>None\<close> is \<^verbatim>\<open>-1\<close>.\<close>

definition parse_http_url :: "cstring \<Rightarrow> nat \<Rightarrow> nat \<Rightarrow> (cstring \<times> int \<times> cstring) option" where
  "parse_http_url url host_cap path_cap =
     (if url = [] then None
      else if \<not> is_prefix (lit ''http://'') url then None
      else
        let p = drop 7 url;
            slash = strchr p 0x2f;
            authority = takeWhile (\<lambda>c. c \<noteq> 0x2f) p;
            colon = strchr authority 0x3a;
            (host_len, port) =
              (case colon of
                 Some c \<Rightarrow> (length authority - length c, atoi (drop (length authority - length c + 1) p))
               | None \<Rightarrow> (length authority, 80))
        in if host_len = 0 \<or> host_len \<ge> host_cap then None
           else if port \<le> 0 \<or> port > 65535 then None
           else
             let path = (case slash of
                           Some s \<Rightarrow> if drop 1 s \<noteq> [] then snprintf_s path_cap s else snprintf_s path_cap (lit ''/'')
                         | None \<Rightarrow> snprintf_s path_cap (lit ''/''))
             in Some (take host_len p, port, path))"

definition otlp_forward_url_valid :: "cstring \<Rightarrow> bool" where
  "otlp_forward_url_valid url \<longleftrightarrow> parse_http_url url 256 512 \<noteq> None"

definition crlf :: "byte list" where
  "crlf = [0x0d, 0x0a]"

definition forward_header :: "cstring \<Rightarrow> cstring \<Rightarrow> int \<Rightarrow> nat \<Rightarrow> byte list" where
  "forward_header path host port body_len =
     lit ''POST '' @ path @ lit '' HTTP/1.1'' @ crlf @
     lit ''Host: '' @ host @ lit '':'' @ dec_int port @ crlf @
     lit ''Content-Type: application/x-protobuf'' @ crlf @
     lit ''Content-Length: '' @ dec_nat body_len @ crlf @
     lit ''Connection: close'' @ crlf @ crlf"

definition otlp_forward_post :: "'d net \<Rightarrow> cstring \<Rightarrow> byte list \<Rightarrow> 'd world \<Rightarrow> int \<times> 'd world" where
  "otlp_forward_post net url body w =
     (case parse_http_url url 256 512 of
        None \<Rightarrow> (- 1, w)
      | Some (host, port, path) \<Rightarrow>
          let hdr = forward_header path host port (length body)
          in if length hdr \<ge> 768 then (- 1, w)
             else case nt_getaddrinfo net host (snprintf_s 16 (dec_int port)) (w_db w) of
               (None, d) \<Rightarrow> (- 1, w\<lparr>w_db := d\<rparr>)
             | (Some addrs, d) \<Rightarrow>
                 (case try_addresses net (\<lambda>a. set_timeouts a = 0 \<and> connect_timeout a = 0) addrs d of (conn, d1) \<Rightarrow>
                    if \<not> conn then (- 1, w\<lparr>w_db := d1\<rparr>)
                    else case send_all net hdr d1 of (rc, d2) \<Rightarrow>
                      if rc \<noteq> 0 then (- 1, w\<lparr>w_db := d2\<rparr>)
                      else case send_all net body d2 of (rc2, d3) \<Rightarrow>
                        if rc2 \<noteq> 0 then (- 1, w\<lparr>w_db := d3\<rparr>)
                        else case read_answer net d3 of (res, d4) \<Rightarrow> (res, w\<lparr>w_db := d4\<rparr>)))"

end
