(* ===== verification/HttpServer.thy ===== *)
theory HttpServer
  imports CNumber
begin

text \<open>
  The HTTP/1.1 receiver: \<^verbatim>\<open>src/agent/http_server.c\<close> and \<^verbatim>\<open>include/agent/http_server.h\<close>.

  The kernel's answers are inputs: what \<^verbatim>\<open>recv\<close> delivers on a ready socket, which descriptors
  \<^verbatim>\<open>poll\<close> reports and which connections \<^verbatim>\<open>accept\<close> yields.  The bytes handed to \<^verbatim>\<open>send\<close> are an
  output list.  zlib is a parameter.  \<^verbatim>\<open>malloc\<close> and \<^verbatim>\<open>realloc\<close> are taken to succeed.  The handler is a
  state transformer on \<^verbatim>\<open>user_data\<close> that may exit the process (\<open>Inl\<close>).
\<close>

section \<open>Connections and requests\<close>

datatype pw_signal =
  PW_SIGNAL_UNKNOWN | PW_SIGNAL_TRACES | PW_SIGNAL_METRICS | PW_SIGNAL_LOGS | PW_SIGNAL_PROCMETRICS

record pw_http_request =
  req_signal :: pw_signal
  req_path :: cstring
  req_body :: "byte list"

text \<open>\<open>c_buf\<close> holds the \<^verbatim>\<open>len\<close> bytes received; a free slot has \<open>c_fd = -1\<close>.\<close>

record pw_conn =
  c_fd :: int
  c_buf :: "byte list"
  c_cap :: nat
  c_headers_done :: bool
  c_body_offset :: nat
  c_content_length :: nat
  c_gzip :: bool
  c_keep_alive :: bool
  c_path :: cstring
  c_last_active :: int

record pw_http_server =
  srv_conns :: "pw_conn list"
  srv_max_body :: nat
  srv_idle_timeout_sec :: int
  srv_requests :: "64 word"
  srv_rejected :: "64 word"

type_synonym ('x, 'u) pw_http_handler = "pw_http_request \<Rightarrow> 'u \<Rightarrow> 'x + int \<times> 'u"

definition PW_HTTP_MAX_CONNS :: nat where "PW_HTTP_MAX_CONNS = 128"
definition PW_HTTP_PATH_MAX :: nat where "PW_HTTP_PATH_MAX = 128"
definition CONN_INITIAL_CAP :: nat where "CONN_INITIAL_CAP = 8192"
definition HEADER_MAX :: nat where "HEADER_MAX = 16384"

definition conn_reset :: pw_conn where
  "conn_reset = \<lparr>c_fd = - 1, c_buf = [], c_cap = 0, c_headers_done = False, c_body_offset = 0,
     c_content_length = 0, c_gzip = False, c_keep_alive = False, c_path = [], c_last_active = 0\<rparr>"

text \<open>The state \<^verbatim>\<open>http_server_init\<close> sets up once its socket listens.\<close>

definition http_server_init :: pw_http_server where
  "http_server_init =
     \<lparr>srv_conns = replicate PW_HTTP_MAX_CONNS conn_reset, srv_max_body = 16 * 1024 * 1024,
      srv_idle_timeout_sec = 30, srv_requests = 0, srv_rejected = 0\<rparr>"

definition http_server_close :: "pw_http_server \<Rightarrow> pw_http_server" where
  "http_server_close srv = srv\<lparr>srv_conns := map (\<lambda>c. if c_fd c \<ge> 0 then conn_reset else c) (srv_conns srv)\<rparr>"

section \<open>Header parsing\<close>

definition ci_starts_with :: "cstring \<Rightarrow> cstring \<Rightarrow> bool" where
  "ci_starts_with s prefix \<longleftrightarrow> map lower (take (length prefix) s) = map lower prefix"

definition skip_ws :: "cstring \<Rightarrow> cstring" where
  "skip_ws s = dropWhile (\<lambda>c. c = 0x20 \<or> c = 0x09) s"

definition signal_for_path :: "cstring \<Rightarrow> pw_signal" where
  "signal_for_path path =
     (if path = lit ''/v1/traces'' then PW_SIGNAL_TRACES
      else if path = lit ''/v1/metrics'' then PW_SIGNAL_METRICS
      else if path = lit ''/v1/logs'' then PW_SIGNAL_LOGS
      else if path = lit ''/v1/procmetrics'' then PW_SIGNAL_PROCMETRICS
      else PW_SIGNAL_UNKNOWN)"

text \<open>\<^verbatim>\<open>memmem\<close>: the position of the first occurrence.\<close>

definition memmem :: "byte list \<Rightarrow> byte list \<Rightarrow> nat option" where
  "memmem buf pat = map_option (\<lambda>t. length buf - length t) (strstr buf pat)"

text \<open>The end of the header block and the length of the separator found there.\<close>

definition find_blank :: "byte list \<Rightarrow> (nat \<times> nat) option" where
  "find_blank buf =
     (case memmem buf [0x0d, 0x0a, 0x0d, 0x0a] of
        Some i \<Rightarrow> Some (i, 4)
      | None \<Rightarrow> map_option (\<lambda>i. (i, 2)) (memmem buf [0x0a, 0x0a]))"

text \<open>The rest of a string from its next line end on: \<^verbatim>\<open>CRLF\<close> if there is one anywhere, else \<^verbatim>\<open>LF\<close>.\<close>

definition find_eol :: "cstring \<Rightarrow> cstring option" where
  "find_eol s = (case strstr s [0x0d, 0x0a] of Some t \<Rightarrow> Some t | None \<Rightarrow> strchr s 0x0a)"

definition skip_eols :: "cstring \<Rightarrow> cstring" where
  "skip_eols s = dropWhile (\<lambda>c. c = 0x0d \<or> c = 0x0a) s"

definition header_field :: "cstring \<Rightarrow> pw_conn \<Rightarrow> pw_conn" where
  "header_field cursor c =
     (if ci_starts_with cursor (lit ''content-length:'') then
        c\<lparr>c_content_length := unat (strtoull_val (skip_ws (drop 15 cursor)))\<rparr>
      else if ci_starts_with cursor (lit ''content-encoding:'') then
        (let v = skip_ws (drop 17 cursor)
         in if ci_starts_with v (lit ''gzip'') \<or> ci_starts_with v (lit ''deflate'') then c\<lparr>c_gzip := True\<rparr> else c)
      else if ci_starts_with cursor (lit ''connection:'') then
        (let v = skip_ws (drop 11 cursor)
         in if ci_starts_with v (lit ''close'') then c\<lparr>c_keep_alive := False\<rparr> else c)
      else c)"

lemma find_eol_Some: "find_eol s = Some t \<Longrightarrow> \<exists>pre u b. s = pre @ b # u \<and> t = b # u \<and> (b = 0x0d \<or> b = 0x0a)"
  unfolding find_eol_def by (auto split: option.splits dest!: strstr_Some strchr_Some simp: is_prefix_iff)

lemma skip_eols_shrinks: "find_eol s = Some t \<Longrightarrow> length (skip_eols t) < length s"
  using length_dropWhile_le[of "\<lambda>c. c = 0x0d \<or> c = 0x0a"]
  by (fastforce dest!: find_eol_Some simp: skip_eols_def less_Suc_eq_le intro: le_trans)

function header_lines :: "cstring \<Rightarrow> pw_conn \<Rightarrow> pw_conn" where
  "header_lines cursor c =
     (if cursor = [] then c
      else case find_eol cursor of
             None \<Rightarrow> header_field cursor c
           | Some eol \<Rightarrow> header_lines (skip_eols eol) (header_field cursor c))"
  by pat_completeness auto
termination
  by (relation "measure (\<lambda>(s, c). length s)") (auto dest: skip_eols_shrinks)

declare header_lines.simps [simp del]

text \<open>Method and path of a request line; \<open>None\<close> when it has no space.\<close>

definition request_line :: "cstring \<Rightarrow> (cstring \<times> cstring) option" where
  "request_line line =
     (case strchr line 0x20 of
        None \<Rightarrow> None
      | Some sp1 \<Rightarrow>
          let path = takeWhile (\<lambda>c. c \<noteq> 0x20) (drop 1 sp1)
          in Some (takeWhile (\<lambda>c. c \<noteq> 0x20) line, takeWhile (\<lambda>c. c \<noteq> 0x3f) path))"

definition parse_headers :: "pw_conn \<Rightarrow> int \<times> pw_conn" where
  "parse_headers c =
     (case find_blank (c_buf c) of
        None \<Rightarrow> (if length (c_buf c) > HEADER_MAX then - 1 else 0, c)
      | Some (header_len, sep) \<Rightarrow>
          if header_len > HEADER_MAX then (- 1, c)
          else
            let block = take header_len (c_buf c);
                header = cstr block;
                line_end = find_eol header;
                line_len = (case line_end of Some e \<Rightarrow> length header - length e | None \<Rightarrow> header_len)
            in if line_len \<ge> 512 then (- 1, c)
               else case request_line (cstr (take line_len block)) of
                      None \<Rightarrow> (- 1, c)
                    | Some (meth, path) \<Rightarrow>
                        if meth \<noteq> lit ''POST'' then
                          (1, c\<lparr>c_path := snprintf_s PW_HTTP_PATH_MAX path, c_body_offset := header_len + sep,
                                c_content_length := 0, c_headers_done := True, c_keep_alive := False\<rparr>)
                        else
                          let c1 = c\<lparr>c_path := snprintf_s PW_HTTP_PATH_MAX path, c_content_length := 0,
                                     c_gzip := False, c_keep_alive := True\<rparr>;
                              c2 = (case line_end of None \<Rightarrow> c1 | Some e \<Rightarrow> header_lines (skip_eols e) c1)
                          in (1, c2\<lparr>c_body_offset := header_len + sep, c_headers_done := True\<rparr>))"

section \<open>Inflation\<close>

text \<open>
  zlib: a stream over the given input, and one call of \<^verbatim>\<open>inflate\<close> with the space left, which
  returns a code, the bytes produced and the stream after it.
\<close>

datatype z_rc = Z_OK | Z_STREAM_END | Z_FAIL

record 'z zlib =
  z_init :: "byte list \<Rightarrow> 'z option"
  z_inflate :: "'z \<Rightarrow> nat \<Rightarrow> z_rc \<times> byte list \<times> 'z"

text \<open>The loop, with a bound on the number of calls.\<close>

function inflate_loop :: "'z zlib \<Rightarrow> nat \<Rightarrow> int \<Rightarrow> 'z \<Rightarrow> byte list \<Rightarrow> nat \<Rightarrow> byte list option" where
  "inflate_loop zl max_out fuel z out cap =
     (if fuel \<le> 0 then None
      else case z_inflate zl z (cap - length out) of (rc, bs, z1) \<Rightarrow>
        let out1 = out @ bs
        in if rc = Z_STREAM_END then Some out1
           else if rc \<noteq> Z_OK then None
           else if length out1 = cap then
             (if cap \<ge> max_out then None
              else inflate_loop zl max_out (fuel - 1) z1 out1 (min (cap * 2) max_out))
           else inflate_loop zl max_out (fuel - 1) z1 out1 cap)"
  by pat_completeness auto
termination
  by (relation "measure (\<lambda>(zl, m, fuel, z, out, cap). nat fuel)") auto

declare inflate_loop.simps [simp del]

definition gzip_inflate :: "'z zlib \<Rightarrow> byte list \<Rightarrow> nat \<Rightarrow> byte list option" where
  "gzip_inflate zl inp max_out =
     (case z_init zl inp of
        None \<Rightarrow> None
      | Some z \<Rightarrow>
          inflate_loop zl max_out (int (length inp) + int max_out + 2) z [] (min (length inp * 4 + 1024) max_out))"

section \<open>Responses\<close>

type_synonym outputs = "(int \<times> byte list) list"

definition http_crlf :: "byte list" where
  "http_crlf = [0x0d, 0x0a]"

definition respond :: "pw_conn \<Rightarrow> nat \<Rightarrow> string \<Rightarrow> outputs" where
  "respond c status reason =
     [(c_fd c,
       lit ''HTTP/1.1 '' @ dec_nat status @ lit '' '' @ lit reason @ http_crlf @
       lit ''Content-Type: application/x-protobuf'' @ http_crlf @
       lit ''Content-Length: 0'' @ http_crlf @
       lit ''Connection: '' @ (if c_keep_alive c then lit ''keep-alive'' else lit ''close'') @ http_crlf @ http_crlf)]"

section \<open>Servicing a connection\<close>

datatype recv_result = RecvBytes "byte list" | RecvEof | RecvAgain | RecvError

function grow_cap :: "nat \<Rightarrow> nat \<Rightarrow> nat" where
  "grow_cap cap needed = (if 0 < cap \<and> cap < needed then grow_cap (cap * 2) needed else cap)"
  by pat_completeness auto
termination
  by (relation "measure (\<lambda>(cap, needed). needed - cap)") auto

declare grow_cap.simps [simp del]

definition conn_ensure_cap :: "pw_conn \<Rightarrow> nat \<Rightarrow> pw_conn" where
  "conn_ensure_cap c needed =
     (if c_cap c \<ge> needed then c
      else c\<lparr>c_cap := grow_cap (if c_cap c \<noteq> 0 then c_cap c else CONN_INITIAL_CAP) needed\<rparr>)"

text \<open>What remains of a connection after a request was answered.\<close>

definition after_dispatch :: "pw_conn \<Rightarrow> pw_conn" where
  "after_dispatch c =
     (if \<not> c_keep_alive c then conn_reset
      else c\<lparr>c_buf := drop (c_body_offset c + c_content_length c) (c_buf c), c_headers_done := False,
             c_body_offset := 0, c_content_length := 0, c_gzip := False, c_path := []\<rparr>)"

definition count_rejected :: "pw_http_server \<Rightarrow> pw_http_server" where
  "count_rejected srv = srv\<lparr>srv_rejected := srv_rejected srv + 1\<rparr>"

text \<open>The part of \<^verbatim>\<open>conn_service\<close> from the moment the headers are complete.\<close>

definition serve_request ::
    "'z zlib \<Rightarrow> ('x, 'u) pw_http_handler \<Rightarrow> pw_http_server \<Rightarrow> pw_conn \<Rightarrow> 'u \<Rightarrow>
     'x + nat \<times> pw_http_server \<times> pw_conn \<times> outputs \<times> 'u" where
  "serve_request zl handler srv c u =
     (if length (c_buf c) - c_body_offset c < c_content_length c then
        Inr (0, srv, conn_ensure_cap c (c_body_offset c + c_content_length c), [], u)
      else
        let sig = signal_for_path (c_path c)
        in if sig = PW_SIGNAL_UNKNOWN then
             Inr (0, count_rejected srv, after_dispatch c, respond c 404 ''Not Found'', u)
           else
             let raw = take (c_content_length c) (drop (c_body_offset c) (c_buf c));
                 body = (if c_gzip c \<and> c_content_length c \<noteq> 0 then gzip_inflate zl raw (srv_max_body srv) else Some raw)
             in case body of
                  None \<Rightarrow> Inr (0, count_rejected srv, after_dispatch c, respond c 400 ''Bad Request'', u)
                | Some b \<Rightarrow>
                    (case handler \<lparr>req_signal = sig, req_path = c_path c, req_body = b\<rparr> u of
                       Inl x \<Rightarrow> Inl x
                     | Inr (hrc, u1) \<Rightarrow>
                         Inr (1, srv\<lparr>srv_requests := srv_requests srv + 1\<rparr>, after_dispatch c,
                              (if hrc = 0 then respond c 200 ''OK'' else respond c 400 ''Bad Request''), u1)))"

definition conn_service ::
    "'z zlib \<Rightarrow> ('x, 'u) pw_http_handler \<Rightarrow> int \<Rightarrow> recv_result \<Rightarrow> pw_http_server \<Rightarrow> pw_conn \<Rightarrow> 'u \<Rightarrow>
     'x + nat \<times> pw_http_server \<times> pw_conn \<times> outputs \<times> 'u" where
  "conn_service zl handler now rr srv c u =
     (let c0 = conn_ensure_cap c (length (c_buf c) + 4096)
      in case rr of
           RecvEof \<Rightarrow> Inr (0, srv, conn_reset, [], u)
         | RecvAgain \<Rightarrow> Inr (0, srv, c0, [], u)
         | RecvError \<Rightarrow> Inr (0, srv, conn_reset, [], u)
         | RecvBytes bs \<Rightarrow>
             let got = take (c_cap c0 - length (c_buf c0)) bs;
                 c1 = c0\<lparr>c_buf := c_buf c0 @ got, c_last_active := now\<rparr>
             in if got = [] then Inr (0, srv, conn_reset, [], u)
                else if c_headers_done c1 then serve_request zl handler srv c1 u
                else case parse_headers c1 of (rc, c2) \<Rightarrow>
                  if rc < 0 then Inr (0, srv, conn_reset, [], u)
                  else if rc = 0 then Inr (0, srv, c2, [], u)
                  else if c_content_length c2 > srv_max_body srv then
                    Inr (0, count_rejected srv, conn_reset,
                         respond (c2\<lparr>c_keep_alive := False\<rparr>) 413 ''Payload Too Large'', u)
                  else serve_request zl handler srv c2 u)"

section \<open>The loop\<close>

text \<open>What the kernel reports in one call of \<^verbatim>\<open>http_server_tick\<close>.\<close>

record tick_input =
  ti_poll_rc :: int
  ti_listen_ready :: bool
  ti_accepted :: "(int \<times> bool) list"   \<comment> \<open>descriptor, and whether it could be made non-blocking\<close>
  ti_hup :: "int \<Rightarrow> bool"
  ti_readable :: "int \<Rightarrow> bool"
  ti_recv :: "int \<Rightarrow> recv_result"
  ti_now :: int

fun free_slot :: "pw_conn list \<Rightarrow> nat \<Rightarrow> nat option" where
  "free_slot [] i = None"
| "free_slot (c # cs) i = (if c_fd c < 0 then Some i else free_slot cs (i + 1))"

fun accept_new :: "int \<Rightarrow> (int \<times> bool) list \<Rightarrow> pw_http_server \<Rightarrow> pw_http_server" where
  "accept_new now [] srv = srv"
| "accept_new now ((fd, nonblock) # rest) srv =
     (case free_slot (srv_conns srv) 0 of
        None \<Rightarrow> accept_new now rest (count_rejected srv)
      | Some slot \<Rightarrow>
          if \<not> nonblock then accept_new now rest srv
          else accept_new now rest
                 (srv\<lparr>srv_conns := (srv_conns srv)
                    [slot := conn_reset\<lparr>c_fd := fd, c_keep_alive := True, c_last_active := now\<rparr>]\<rparr>))"

text \<open>The slots polled, in order; each is looked at again when its turn comes.\<close>

fun service_slots ::
    "'z zlib \<Rightarrow> ('x, 'u) pw_http_handler \<Rightarrow> tick_input \<Rightarrow> nat list \<Rightarrow> pw_http_server \<Rightarrow> 'u \<Rightarrow>
     'x + nat \<times> pw_http_server \<times> outputs \<times> 'u" where
  "service_slots zl handler ti [] srv u = Inr (0, srv, [], u)"
| "service_slots zl handler ti (i # slots) srv u =
     (let c = srv_conns srv ! i
      in if c_fd c < 0 then service_slots zl handler ti slots srv u
         else if ti_hup ti (c_fd c) then
           service_slots zl handler ti slots (srv\<lparr>srv_conns := (srv_conns srv)[i := conn_reset]\<rparr>) u
         else if ti_readable ti (c_fd c) then
           (case conn_service zl handler (ti_now ti) (ti_recv ti (c_fd c)) srv c u of
              Inl x \<Rightarrow> Inl x
            | Inr (n, srv1, c1, out, u1) \<Rightarrow>
                (case service_slots zl handler ti slots (srv1\<lparr>srv_conns := (srv_conns srv1)[i := c1]\<rparr>) u1 of
                   Inl x \<Rightarrow> Inl x
                 | Inr (m, srv2, out2, u2) \<Rightarrow> Inr (n + m, srv2, out @ out2, u2)))
         else service_slots zl handler ti slots srv u)"

definition reap_idle :: "int \<Rightarrow> pw_http_server \<Rightarrow> pw_http_server" where
  "reap_idle now srv =
     srv\<lparr>srv_conns := map (\<lambda>c. if c_fd c \<ge> 0 \<and> now - c_last_active c > srv_idle_timeout_sec srv
                                then conn_reset else c) (srv_conns srv)\<rparr>"

definition http_server_tick ::
    "'z zlib \<Rightarrow> ('x, 'u) pw_http_handler \<Rightarrow> tick_input \<Rightarrow> pw_http_server \<Rightarrow> 'u \<Rightarrow>
     'x + nat \<times> pw_http_server \<times> outputs \<times> 'u" where
  "http_server_tick zl handler ti srv u =
     (let owners = filter (\<lambda>i. c_fd (srv_conns srv ! i) \<ge> 0) [0..<length (srv_conns srv)]
      in if ti_poll_rc ti < 0 then Inr (0, srv, [], u)
         else if ti_poll_rc ti > 0 then
           let srv1 = (if ti_listen_ready ti then accept_new (ti_now ti) (ti_accepted ti) srv else srv)
           in case service_slots zl handler ti owners srv1 u of
                Inl x \<Rightarrow> Inl x
              | Inr (n, srv2, out, u1) \<Rightarrow> Inr (n, reap_idle (ti_now ti) srv2, out, u1)
         else Inr (0, reap_idle (ti_now ti) srv, [], u))"

end
