(* ===== verification/SampleDb.thy ===== *)
theory SampleDb
  imports World CNumber
begin

text \<open>
  A database client for the concrete instances: one connection that is always up, whose server
  state is the list of statements executed, the latest first.  \<open>down_pq\<close> is the same with no
  server to connect to.
\<close>

definition quote_with :: "byte \<Rightarrow> cstring \<Rightarrow> cstring" where
  "quote_with q s = q # s @ [q]"

definition mem_pq :: "cstring list libpq" where
  "mem_pq =
     \<lparr>pq_connectdb = (\<lambda>ci d. (Some 0, d)), pq_status_ok = (\<lambda>c d. True), pq_reset = (\<lambda>c d. d),
      pq_finish = (\<lambda>c d. d),
      pq_exec = (\<lambda>c q d. (if is_prefix (lit ''SELECT'') q then PgTuplesOk [] else PgCommandOk, q # d)),
      pq_prepare = (\<lambda>c stmt q n d. (True, d)),
      pq_exec_prepared = (\<lambda>c stmt vals d. (True, stmt # d)),
      pq_escape_identifier = (\<lambda>c s d. Some (quote_with 0x22 s)),
      pq_escape_literal = (\<lambda>c s d. Some (quote_with 0x27 s))\<rparr>"

definition down_pq :: "cstring list libpq" where
  "down_pq = mem_pq\<lparr>pq_connectdb := \<lambda>ci d. (None, d), pq_status_ok := \<lambda>c d. False\<rparr>"

definition mem_world :: "cstring list world" where
  "mem_world = \<lparr>w_files = (\<lambda>p. None), w_faults = [], w_now = 0, w_env = (\<lambda>n. None), w_db = []\<rparr>"

end
