(* ===== verification/SampleAgent.thy ===== *)
theory SampleAgent
  imports Agentd SampleDb
begin

text \<open>
  A daemon for the concrete instances: online, with no files, on the database of \<open>mem_pq\<close>.
\<close>

definition sample_buf :: pw_db_buf where
  "sample_buf = \<lparr>db_conn = Some 0, db_conninfo = [], db_spill_path = lit ''/s'', db_online = True,
     db_last_reconnect_try = 0, db_reconnect_interval_sec = 5, db_spilled = 0, db_flushed = 0, db_spill_dropped = 0\<rparr>"

definition sample_state :: agent_state where
  "sample_state = agent_state_init (lit ''pw'') None None housekeeping_init"

end
