(* ===== verification/ProcScan.thy ===== *)
theory ProcScan
  imports CNumber Util
begin

text \<open>
  Reading processes from \<^verbatim>\<open>/proc\<close>: \<^verbatim>\<open>src/proc_scan.c\<close> and \<^verbatim>\<open>include/proc_scan.h\<close>.

  The kernel's \<^verbatim>\<open>/proc\<close> is the record \<open>procfs\<close>: what the files deliver from their start, the names
  in a directory and the targets of links.  A round of the samplers reads each path at most once, so one such
  record per round leaves every race between two reads open.
\<close>

record procfs =
  pf_file :: "cstring \<Rightarrow> byte list option"
  pf_dir :: "cstring \<Rightarrow> cstring list option"
  pf_link :: "cstring \<Rightarrow> cstring option"

definition proc_path :: "int \<Rightarrow> string \<Rightarrow> cstring" where
  "proc_path pid name = snprintf_s 64 (lit ''/proc/'' @ dec_int pid @ lit name)"

section \<open>Lines and tokens\<close>

text \<open>\<^verbatim>\<open>fgets(buf, n, f)\<close>: at most \<open>n - 1\<close> bytes, up to and including a newline; and what follows.\<close>

definition fgets :: "nat \<Rightarrow> byte list \<Rightarrow> byte list \<times> byte list" where
  "fgets n c =
     (let l = takeWhile (\<lambda>b. b \<noteq> 0x0a) (take (n - 1) c);
          k = (if length l < min (n - 1) (length c) then length l + 1 else length l)
      in (take k c, drop k c))"

lemma fgets_shrinks: "1 < n \<Longrightarrow> c \<noteq> [] \<Longrightarrow> length (snd (fgets n c)) < length c"
  by (cases c) (auto simp: fgets_def Let_def less_Suc_eq_le split: if_splits)

function fgets_lines :: "nat \<Rightarrow> byte list \<Rightarrow> cstring list" where
  "fgets_lines n c =
     (if c = [] \<or> n \<le> 1 then []
      else cstr (fst (fgets n c)) # fgets_lines n (snd (fgets n c)))"
  by pat_completeness auto
termination
  by (relation "measure (\<lambda>(n, c). length c)") (auto simp: fgets_shrinks)

declare fgets_lines.simps [simp del]

text \<open>The first line, as a C string; \<open>None\<close> when the file cannot be opened or is empty.\<close>

definition first_line :: "procfs \<Rightarrow> nat \<Rightarrow> cstring \<Rightarrow> cstring option" where
  "first_line pf n path =
     (case pf_file pf path of
        None \<Rightarrow> None
      | Some c \<Rightarrow> if c = [] then None else Some (cstr (fst (fgets n c))))"

text \<open>The tokens \<^verbatim>\<open>strtok_r\<close> yields.\<close>

function strtok_list :: "byte list \<Rightarrow> cstring \<Rightarrow> cstring list" where
  "strtok_list delim s =
     (case dropWhile (\<lambda>c. c \<in> set delim) s of
        [] \<Rightarrow> []
      | c # t \<Rightarrow> (c # takeWhile (\<lambda>c. c \<notin> set delim) t) # strtok_list delim (dropWhile (\<lambda>c. c \<notin> set delim) t))"
  by pat_completeness auto
termination
proof (relation "measure (\<lambda>(d, s). length s)")
  fix delim s c and t :: "byte list"
  assume "dropWhile (\<lambda>c. c \<in> set delim) s = c # t"
  then have "Suc (length t) \<le> length s"
    using length_dropWhile_le[of "\<lambda>c. c \<in> set delim" s] by simp
  then show "((delim, dropWhile (\<lambda>c. c \<notin> set delim) t), (delim, s)) \<in> measure (\<lambda>(d, s). length s)"
    using length_dropWhile_le[of "\<lambda>c. c \<notin> set delim" t] by simp
qed simp

declare strtok_list.simps [simp del]

text \<open>\<^verbatim>\<open>strrchr\<close>: the text from the last occurrence on.\<close>

definition strrchr :: "cstring \<Rightarrow> byte \<Rightarrow> cstring option" where
  "strrchr s b =
     (if b \<in> set s then Some (b # rev (takeWhile (\<lambda>c. c \<noteq> b) (rev s))) else None)"

text \<open>\<^verbatim>\<open>strtol(s, &end, 10)\<close>: the value with the text at \<^verbatim>\<open>end\<close>.\<close>

definition strtol :: "cstring \<Rightarrow> (int \<times> cstring) option" where
  "strtol s =
     (case scan_int s of
        None \<Rightarrow> None
      | Some (neg, v, r) \<Rightarrow> Some (if neg then max (- v) (- (2 ^ 63)) else min v (2 ^ 63 - 1), r))"

section \<open>CPU totals\<close>

record cpu_totals =
  ct_user :: "64 word"
  ct_nice :: "64 word"
  ct_system :: "64 word"
  ct_idle :: "64 word"
  ct_iowait :: "64 word"
  ct_irq :: "64 word"
  ct_softirq :: "64 word"
  ct_steal :: "64 word"

definition parse_cpu_totals :: "procfs \<Rightarrow> cpu_totals option" where
  "parse_cpu_totals pf =
     (case first_line pf 1024 (lit ''/proc/stat'') of
        None \<Rightarrow> None
      | Some line \<Rightarrow>
          if \<not> starts_with line (lit ''cpu'') then None
          else
            let v = map strtoull_val (take 10 (drop 1 (strtok_list [0x20] line))) @ replicate 10 0
            in Some \<lparr>ct_user = v ! 0, ct_nice = v ! 1, ct_system = v ! 2, ct_idle = v ! 3,
                     ct_iowait = v ! 4, ct_irq = v ! 5, ct_softirq = v ! 6, ct_steal = v ! 7\<rparr>)"

definition cpu_totals_sum :: "cpu_totals \<Rightarrow> 64 word" where
  "cpu_totals_sum t =
     ct_user t + ct_nice t + ct_system t + ct_idle t + ct_iowait t + ct_irq t + ct_softirq t + ct_steal t"

section \<open>Process status\<close>

record proc_stat =
  ps_utime :: "64 word"
  ps_stime :: "64 word"
  ps_minflt :: "64 word"
  ps_majflt :: "64 word"
  ps_priority :: int
  ps_nice :: int
  ps_num_threads :: int
  ps_starttime :: "64 word"
  ps_vsize :: "64 word"
  ps_rss :: int
  ps_ppid :: "64 word"

text \<open>
  The integers of the \<^verbatim>\<open>sscanf\<close>, each as its sign and digits, because \<^verbatim>\<open>%lu\<close>/\<^verbatim>\<open>%llu\<close> and \<^verbatim>\<open>%ld\<close> read the
  same texts.  \<open>None\<close> when one of them does not match.
\<close>

fun scan_ints :: "nat \<Rightarrow> cstring \<Rightarrow> (bool \<times> int) list option" where
  "scan_ints 0 s = Some []"
| "scan_ints (Suc n) s =
     (case scan_int s of
        None \<Rightarrow> None
      | Some (neg, v, r) \<Rightarrow> map_option ((#) (neg, v)) (scan_ints n r))"

definition as_ulong :: "bool \<times> int \<Rightarrow> 64 word" where
  "as_ulong = (\<lambda>(neg, v). if v \<ge> 2 ^ 64 then - 1 else if neg then - word_of_int v else word_of_int v)"

definition as_long :: "bool \<times> int \<Rightarrow> int" where
  "as_long = (\<lambda>(neg, v). if neg then max (- v) (- (2 ^ 63)) else min v (2 ^ 63 - 1))"

text \<open>
  \<open>pos\<close> counts the integers after the state letter from 0.  A line that ends right after the
  parenthesis leaves nothing to scan.
\<close>

definition parse_stat_line :: "cstring \<Rightarrow> nat \<Rightarrow> (proc_stat \<times> cstring) option" where
  "parse_stat_line line comm_sz =
     (case (strrchr line 0x29, strchr line 0x28) of
        (Some rparen, Some lparen) \<Rightarrow>
          if length lparen < length rparen then None
          else
            let clen = length lparen - length rparen - 1;
                comm = take (if clen < comm_sz - 1 then clen else comm_sz - 1) (drop 1 lparen)
            in (case drop 2 rparen of
                  [] \<Rightarrow> None
                | state # after \<Rightarrow>
                    (case scan_ints 21 after of
                       None \<Rightarrow> None
                     | Some f \<Rightarrow>
                         Some (\<lparr>ps_utime = as_ulong (f ! 10), ps_stime = as_ulong (f ! 11),
                                ps_minflt = as_ulong (f ! 6), ps_majflt = as_ulong (f ! 8),
                                ps_priority = as_long (f ! 14), ps_nice = as_long (f ! 15),
                                ps_num_threads = as_long (f ! 16), ps_starttime = as_ulong (f ! 18),
                                ps_vsize = word_of_int (as_long (f ! 19)), ps_rss = as_long (f ! 20),
                                ps_ppid = as_ulong (f ! 0)\<rparr>, comm)))
      | _ \<Rightarrow> None)"

definition read_proc_stat :: "procfs \<Rightarrow> int \<Rightarrow> nat \<Rightarrow> (proc_stat \<times> cstring) option" where
  "read_proc_stat pf pid comm_sz =
     (case first_line pf 4096 (proc_path pid ''/stat'') of
        None \<Rightarrow> None
      | Some line \<Rightarrow> parse_stat_line line comm_sz)"

record proc_status =
  pt_vmrss_kb :: int
  pt_vmsize_kb :: int
  pt_vmswap_kb :: int
  pt_threads :: int
  pt_vctx :: "64 word"
  pt_nvctx :: "64 word"

definition proc_status_zero :: proc_status where
  "proc_status_zero =
     \<lparr>pt_vmrss_kb = 0, pt_vmsize_kb = 0, pt_vmswap_kb = 0, pt_threads = 0, pt_vctx = 0, pt_nvctx = 0\<rparr>"

definition status_line :: "cstring \<Rightarrow> proc_status \<Rightarrow> proc_status" where
  "status_line line ps =
     (if starts_with line (lit ''VmRSS:'') then ps\<lparr>pt_vmrss_kb := strtol_val (drop 6 line)\<rparr>
      else if starts_with line (lit ''VmSize:'') then ps\<lparr>pt_vmsize_kb := strtol_val (drop 7 line)\<rparr>
      else if starts_with line (lit ''VmSwap:'') then ps\<lparr>pt_vmswap_kb := strtol_val (drop 7 line)\<rparr>
      else if starts_with line (lit ''Threads:'') then ps\<lparr>pt_threads := strtol_val (drop 8 line)\<rparr>
      else if starts_with line (lit ''voluntary_ctxt_switches:'') then ps\<lparr>pt_vctx := strtoull_val (drop 24 line)\<rparr>
      else if starts_with line (lit ''nonvoluntary_ctxt_switches:'') then ps\<lparr>pt_nvctx := strtoull_val (drop 27 line)\<rparr>
      else ps)"

definition read_proc_status :: "procfs \<Rightarrow> int \<Rightarrow> proc_status option" where
  "read_proc_status pf pid =
     (case pf_file pf (proc_path pid ''/status'') of
        None \<Rightarrow> None
      | Some c \<Rightarrow> Some (fold status_line (fgets_lines 512 c) proc_status_zero))"

section \<open>Memory, I/O, descriptors, limits\<close>

record proc_smaps_rollup =
  sr_rss_kb :: int
  sr_pss_kb :: int
  sr_swap_kb :: int
  sr_have_rollup :: bool

definition smaps_line :: "cstring \<Rightarrow> proc_smaps_rollup \<Rightarrow> proc_smaps_rollup" where
  "smaps_line line sr =
     (if starts_with line (lit ''Rss:'') then sr\<lparr>sr_rss_kb := strtol_val (drop 4 line)\<rparr>
      else if starts_with line (lit ''Pss:'') then sr\<lparr>sr_pss_kb := strtol_val (drop 4 line)\<rparr>
      else if starts_with line (lit ''Swap:'') then sr\<lparr>sr_swap_kb := strtol_val (drop 5 line)\<rparr>
      else sr)"

definition read_proc_smaps_rollup :: "procfs \<Rightarrow> int \<Rightarrow> proc_smaps_rollup \<Rightarrow> int \<times> proc_smaps_rollup" where
  "read_proc_smaps_rollup pf pid sr =
     (case pf_file pf (proc_path pid ''/smaps_rollup'') of
        None \<Rightarrow> (- 1, sr\<lparr>sr_have_rollup := False\<rparr>)
      | Some c \<Rightarrow>
          (0, fold smaps_line (fgets_lines 256 c)
                \<lparr>sr_rss_kb = - 1, sr_pss_kb = - 1, sr_swap_kb = - 1, sr_have_rollup = True\<rparr>))"

record proc_io =
  io_rchar :: "64 word"
  io_wchar :: "64 word"
  io_syscr :: "64 word"
  io_syscw :: "64 word"
  io_read_bytes :: "64 word"
  io_write_bytes :: "64 word"
  io_cancelled_write_bytes :: "64 word"

definition io_key :: "cstring \<Rightarrow> 64 word \<Rightarrow> proc_io \<Rightarrow> proc_io" where
  "io_key key val pio =
     (if key = lit ''rchar:'' then pio\<lparr>io_rchar := val\<rparr>
      else if key = lit ''wchar:'' then pio\<lparr>io_wchar := val\<rparr>
      else if key = lit ''syscr:'' then pio\<lparr>io_syscr := val\<rparr>
      else if key = lit ''syscw:'' then pio\<lparr>io_syscw := val\<rparr>
      else if key = lit ''read_bytes:'' then pio\<lparr>io_read_bytes := val\<rparr>
      else if key = lit ''write_bytes:'' then pio\<lparr>io_write_bytes := val\<rparr>
      else if key = lit ''cancelled_write_bytes:'' then pio\<lparr>io_cancelled_write_bytes := val\<rparr>
      else pio)"

text \<open>\<^verbatim>\<open>%63s\<close>: skips white space and takes at most 63 other characters, at least one.\<close>

definition scan_word :: "byte list \<Rightarrow> (cstring \<times> byte list) option" where
  "scan_word s =
     (let t = dropWhile is_space s;
          w = take 63 (takeWhile (\<lambda>c. \<not> is_space c) t)
      in if w = [] then None else Some (w, drop (length w) t))"

lemma scan_word_shrinks:
  assumes "scan_word s = Some (w, r)"
  shows "length r < length s"
proof -
  define t where "t = dropWhile is_space s"
  have w: "w = take 63 (takeWhile (\<lambda>c. \<not> is_space c) t)" "w \<noteq> []" "r = drop (length w) t"
    using assms by (auto simp: scan_word_def Let_def t_def split: if_splits)
  have "length w \<le> length t"
    using length_takeWhile_le[of "\<lambda>c. \<not> is_space c" t] by (simp add: w(1))
  moreover have "length t \<le> length s"
    by (simp add: t_def length_dropWhile_le)
  ultimately show ?thesis
    using w(2,3) by (cases w) auto
qed

lemma scan_digits_length: "scan_digits b t v n = (v1, n1, r) \<Longrightarrow> length r \<le> length t"
  by (induction b t v n rule: scan_digits.induct) (auto split: option.splits)

lemma scan_int_length:
  assumes "scan_int s = Some (neg, v, r)"
  shows "length r \<le> length s"
proof -
  define t where "t = dropWhile is_space s"
  define u where "u = (case t of c # r \<Rightarrow> if c = 45 \<or> c = 43 then r else t | [] \<Rightarrow> t)"
  obtain n where sc: "scan_digits 10 u 0 0 = (v, n, r)"
    using assms unfolding scan_int_def Let_def t_def[symmetric] u_def
    by (cases t; simp del: scan_digits.simps split: prod.splits if_splits)
  have "length r \<le> length u"
    using sc by (rule scan_digits_length)
  also have "length u \<le> length t"
    by (auto simp: u_def split: list.splits)
  also have "length t \<le> length s"
    by (simp add: t_def length_dropWhile_le)
  finally show ?thesis .
qed

function read_io_loop :: "byte list \<Rightarrow> proc_io \<Rightarrow> proc_io" where
  "read_io_loop s pio =
     (case scan_word s of
        None \<Rightarrow> pio
      | Some (key, r) \<Rightarrow>
          (case scan_int r of
             None \<Rightarrow> pio
           | Some (neg, v, r2) \<Rightarrow> read_io_loop r2 (io_key key (as_ulong (neg, v)) pio)))"
  by pat_completeness auto
termination
  by (relation "measure (\<lambda>(s, p). length s)")
    (auto dest!: scan_word_shrinks scan_int_length)

declare read_io_loop.simps [simp del]

definition read_proc_io :: "procfs \<Rightarrow> int \<Rightarrow> proc_io option" where
  "read_proc_io pf pid =
     (case pf_file pf (proc_path pid ''/io'') of
        None \<Rightarrow> None
      | Some c \<Rightarrow>
          Some (read_io_loop c
            \<lparr>io_rchar = 0, io_wchar = 0, io_syscr = 0, io_syscw = 0, io_read_bytes = 0, io_write_bytes = 0,
             io_cancelled_write_bytes = 0\<rparr>))"

text \<open>Open descriptors and, among them, sockets; names with a leading dot are skipped.\<close>

definition count_fds :: "procfs \<Rightarrow> int \<Rightarrow> (nat \<times> nat) option" where
  "count_fds pf pid =
     (case pf_dir pf (proc_path pid ''/fd'') of
        None \<Rightarrow> None
      | Some names \<Rightarrow>
          let fds = filter (\<lambda>d. take 1 d \<noteq> [0x2e]) names;
              skts = filter (\<lambda>d. case pf_link pf (proc_path pid ''/fd'' @ 0x2f # d) of
                                   None \<Rightarrow> False
                                 | Some target \<Rightarrow> starts_with (cstr (take 4095 target)) (lit ''socket:['')) fds
          in Some (length fds, length skts))"

definition strip_crlf :: "cstring \<Rightarrow> cstring" where
  "strip_crlf s = rev (dropWhile (\<lambda>c. c = 0x0a \<or> c = 0x0d) (rev s))"

definition read_first_line :: "procfs \<Rightarrow> cstring \<Rightarrow> nat \<Rightarrow> cstring option" where
  "read_first_line pf path bufsz = map_option strip_crlf (first_line pf bufsz path)"

definition read_cgroup :: "procfs \<Rightarrow> int \<Rightarrow> nat \<Rightarrow> cstring option" where
  "read_cgroup pf pid bufsz =
     map_option (\<lambda>line. take (bufsz - 1) (strip_crlf line)) (first_line pf 512 (proc_path pid ''/cgroup''))"

text \<open>Soft and hard limit after the name of the limit; \<open>None\<close> keeps what was there.\<close>

definition limit_pair :: "cstring \<Rightarrow> (int \<times> int) option" where
  "limit_pair s =
     (let num = (\<lambda>w. if w = lit ''unlimited'' then - 1 else strtol_val w)
      in case scan_word s of
           None \<Rightarrow> None
         | Some (soft, r) \<Rightarrow> (case scan_word r of None \<Rightarrow> None | Some (hard, _) \<Rightarrow> Some (num soft, num hard)))"

definition limits_line :: "cstring \<Rightarrow> (int \<times> int) \<times> (int \<times> int) \<Rightarrow> (int \<times> int) \<times> (int \<times> int)" where
  "limits_line line = (\<lambda>(fds, stack).
     if starts_with line (lit ''Max open files'') then
       (case limit_pair (drop 14 line) of None \<Rightarrow> fds | Some p \<Rightarrow> p, stack)
     else if starts_with line (lit ''Max stack size'') then
       (fds, case limit_pair (drop 14 line) of None \<Rightarrow> stack | Some p \<Rightarrow> p)
     else (fds, stack))"

definition read_limits_excerpt :: "procfs \<Rightarrow> int \<Rightarrow> ((int \<times> int) \<times> (int \<times> int)) option" where
  "read_limits_excerpt pf pid =
     (case pf_file pf (proc_path pid ''/limits'') of
        None \<Rightarrow> None
      | Some c \<Rightarrow> Some (fold limits_line (drop 1 (fgets_lines 512 c)) ((- 1, - 1), (- 1, - 1))))"

section \<open>Children\<close>

definition pid_of_long :: "int \<Rightarrow> int" where
  "pid_of_long v = sint (word_of_int v :: 32 word)"

fun add_pids :: "int list \<Rightarrow> int list \<Rightarrow> int list" where
  "add_pids out [] = out"
| "add_pids out (cpid # rest) = add_pids (if cpid > 0 \<and> cpid \<notin> set out then out @ [cpid] else out) rest"

definition task_id :: "cstring \<Rightarrow> int option" where
  "task_id name =
     (if take 1 name = [0x2e] then None
      else case strtol name of
             None \<Rightarrow> None
           | Some (tid, endp) \<Rightarrow> if endp \<noteq> [] \<or> tid \<le> 0 then None else Some tid)"

fun children_loop :: "procfs \<Rightarrow> cstring \<Rightarrow> cstring list \<Rightarrow> bool \<Rightarrow> int list \<Rightarrow> bool \<times> int list" where
  "children_loop pf taskdir [] found out = (found, out)"
| "children_loop pf taskdir (name # names) found out =
     (case task_id name of
        None \<Rightarrow> children_loop pf taskdir names found out
      | Some tid \<Rightarrow>
          (case first_line pf 4096 (snprintf_s 128 (taskdir @ 0x2f # dec_int tid @ lit ''/children'')) of
             None \<Rightarrow> children_loop pf taskdir names found out
           | Some line \<Rightarrow>
               children_loop pf taskdir names True
                 (add_pids out (map (\<lambda>tok. pid_of_long (strtol_val tok)) (strtok_list [0x20, 0x0a, 0x09] line)))))"

text \<open>The list is empty when the function is called.\<close>

definition read_children_pids :: "procfs \<Rightarrow> int \<Rightarrow> int list option" where
  "read_children_pids pf pid =
     (let taskdir = proc_path pid ''/task''
      in case pf_dir pf taskdir of
           None \<Rightarrow> None
         | Some names \<Rightarrow>
             (case children_loop pf taskdir names False [] of (found, out) \<Rightarrow> if found then Some out else None))"

definition pid_seen :: "int \<Rightarrow> int list \<Rightarrow> int list \<Rightarrow> bool" where
  "pid_seen pid queue snaps \<longleftrightarrow> pid \<in> set queue \<or> pid \<in> set snaps"

lemma pid_of_long_range: "- (2 ^ 31) \<le> pid_of_long v \<and> pid_of_long v < 2 ^ 31"
  using sint_range_size[of "word_of_int v :: 32 word"] by (simp add: pid_of_long_def word_size)

lemma add_pids_set: "set (add_pids out ps) = set out \<union> {p \<in> set ps. 0 < p}"
  by (induction out ps rule: add_pids.induct) auto

lemma add_pids_distinct: "distinct out \<Longrightarrow> distinct (add_pids out ps)"
  by (induction out ps rule: add_pids.induct) auto

lemma children_loop_ok:
  "children_loop pf d names found out = (f, ps) \<Longrightarrow> distinct out \<Longrightarrow> set out \<subseteq> {0<..<2 ^ 31} \<Longrightarrow>
   distinct ps \<and> set ps \<subseteq> {0<..<2 ^ 31}"
proof (induction pf d names found out rule: children_loop.induct)
  case (2 pf taskdir name names found out)
  have "set (add_pids out (map (\<lambda>tok. pid_of_long (strtol_val tok)) toks)) \<subseteq> {0<..<2 ^ 31}" for toks
    using "2.prems"(3) pid_of_long_range by (auto simp: add_pids_set)
  then show ?case
    using 2 by (auto simp: add_pids_distinct split: option.splits)
qed auto

lemma read_children_range:
  "read_children_pids pf pid = Some kids \<Longrightarrow> distinct kids \<and> set kids \<subseteq> {0<..<2 ^ 31}"
  using children_loop_ok by (fastforce simp: read_children_pids_def Let_def split: option.splits prod.splits if_splits)

end
