(* ===== verification/TreeWalk.thy ===== *)
theory TreeWalk
  imports ProcScan
begin

text \<open>
  The breadth-first walk over a process tree that \<^verbatim>\<open>snapshot_tree\<close> of \<^verbatim>\<open>src/wrap/wrap.c\<close> and the loop of
  \<^verbatim>\<open>src/main.c\<close> share, and the table of processor times that both keep between rounds.  \<^verbatim>\<open>realloc\<close> is taken to
  succeed.
\<close>

section \<open>The walk\<close>

text \<open>The loop over the children of one process: those not seen yet join the queue.\<close>

definition add_unseen :: "int list \<Rightarrow> int list \<Rightarrow> int list \<Rightarrow> int list" where
  "add_unseen snaps kids queue = fold (\<lambda>k q. if pid_seen k q snaps then q else q @ [k]) kids queue"

lemma fold_unseen_extends:
  "\<exists>new. fold (\<lambda>k q. if pid_seen k q snaps then q else q @ [k]) kids queue = queue @ new \<and>
     distinct new \<and> set new \<subseteq> set kids - set queue"
proof (induction kids arbitrary: queue)
  case (Cons k kids)
  show ?case
  proof (cases "pid_seen k queue snaps")
    case False
    from Cons.IH[of "queue @ [k]"] obtain new where
      "fold (\<lambda>k q. if pid_seen k q snaps then q else q @ [k]) kids (queue @ [k]) = queue @ (k # new)"
      "distinct new" "set new \<subseteq> set kids - set (queue @ [k])" by auto
    then show ?thesis
      using False by (intro exI[of _ "k # new"]) (auto simp: pid_seen_def)
  qed (use Cons.IH[of queue] in auto)
qed simp

lemma add_unseen_extends:
  "\<exists>new. add_unseen snaps kids queue = queue @ new \<and> distinct new \<and> set new \<subseteq> set kids - set queue"
  unfolding add_unseen_def by (rule fold_unseen_extends)

text \<open>All that children of a process can be.\<close>

definition child_pids :: "int set" where
  "child_pids = {0<..<2 ^ 31}"

definition walk_left :: "int list \<Rightarrow> nat \<Rightarrow> nat" where
  "walk_left queue head = card (child_pids - set queue) + (length queue - head)"

lemma walk_left_add:
  assumes "head < length queue" "set kids \<subseteq> child_pids"
  shows "walk_left (add_unseen snaps kids queue) (Suc head) < walk_left queue head"
proof -
  obtain new where new: "add_unseen snaps kids queue = queue @ new" "distinct new" "set new \<subseteq> set kids - set queue"
    using add_unseen_extends by blast
  have fin: "finite child_pids" by (simp add: child_pids_def)
  have "child_pids - set (queue @ new) = (child_pids - set queue) - set new" by auto
  moreover have "card ((child_pids - set queue) - set new) = card (child_pids - set queue) - card (set new)"
    using new(3) assms(2) by (intro card_Diff_subset) auto
  moreover have "card (set new) \<le> card (child_pids - set queue)"
    using new(3) assms(2) fin by (intro card_mono) auto
  ultimately have "card (child_pids - set (queue @ new)) + length new = card (child_pids - set queue)"
    using distinct_card[OF new(2)] by (metis le_add_diff_inverse2)
  then show ?thesis
    using assms(1) by (simp add: walk_left_def new(1))
qed

lemma walk_left_skip: "head < length queue \<Longrightarrow> walk_left queue (Suc head) < walk_left queue head"
  by (auto simp: walk_left_def)

lemma walk_left_visit:
  "head < length queue \<Longrightarrow>
   walk_left (case read_children_pids pf cur of None \<Rightarrow> queue | Some kids \<Rightarrow> add_unseen snaps kids queue) (Suc head)
     < walk_left queue head"
  using walk_left_skip walk_left_add read_children_range by (auto simp: child_pids_def split: option.split)

text \<open>
  \<open>read\<close> is what is recorded of a process, \<open>None\<close> when its \<^verbatim>\<open>stat\<close> cannot be read.  The pids of the recorded
  processes are kept beside them.
\<close>

function tree_walk :: "procfs \<Rightarrow> (int \<Rightarrow> 'n option) \<Rightarrow> int list \<Rightarrow> nat \<Rightarrow> int list \<Rightarrow> 'n list \<Rightarrow> 'n list" where
  "tree_walk pf read queue head snaps nodes =
     (if head < length queue then
        let cur = queue ! head
        in case read cur of
             None \<Rightarrow> tree_walk pf read queue (Suc head) snaps nodes
           | Some node \<Rightarrow>
               let snaps1 = snaps @ [cur];
                   queue1 = (case read_children_pids pf cur of
                               None \<Rightarrow> queue
                             | Some kids \<Rightarrow> add_unseen snaps1 kids queue)
               in tree_walk pf read queue1 (Suc head) snaps1 (nodes @ [node])
      else nodes)"
  by pat_completeness auto
termination
  by (relation "measure (\<lambda>(pf, read, queue, head, snaps, nodes). walk_left queue head)")
    (auto simp: walk_left_skip intro: walk_left_visit)

declare tree_walk.simps [simp del]

section \<open>What the walk visits\<close>

inductive reachable :: "procfs \<Rightarrow> (int \<Rightarrow> 'n option) \<Rightarrow> int \<Rightarrow> int \<Rightarrow> bool" for pf read rpid where
  here: "reachable pf read rpid rpid"
| child: "reachable pf read rpid p \<Longrightarrow> read p \<noteq> None \<Longrightarrow> read_children_pids pf p = Some kids \<Longrightarrow> k \<in> set kids \<Longrightarrow>
          reachable pf read rpid k"

definition kids_of :: "procfs \<Rightarrow> int \<Rightarrow> int list" where
  "kids_of pf p = (case read_children_pids pf p of None \<Rightarrow> [] | Some kids \<Rightarrow> kids)"

definition walk_inv :: "procfs \<Rightarrow> (int \<Rightarrow> 'n option) \<Rightarrow> int \<Rightarrow> int list \<Rightarrow> nat \<Rightarrow> int list \<Rightarrow> 'n list \<Rightarrow> bool" where
  "walk_inv pf read rpid queue head snaps nodes \<longleftrightarrow>
     distinct queue \<and> rpid \<in> set queue \<and> (\<forall>q\<in>set queue. reachable pf read rpid q) \<and>
     (\<forall>p\<in>set (take head queue). read p \<noteq> None \<longrightarrow> set (kids_of pf p) \<subseteq> set queue) \<and>
     snaps = filter (\<lambda>p. read p \<noteq> None) (take head queue) \<and>
     nodes = map (\<lambda>p. the (read p)) snaps"

lemma add_unseen_set:
  assumes "set snaps \<subseteq> set queue"
  shows "set (add_unseen snaps kids queue) = set queue \<union> set kids"
  using assms unfolding add_unseen_def
  by (induction kids arbitrary: queue) (auto simp: pid_seen_def subset_iff)

lemma walk_inv_skip:
  assumes "walk_inv pf read rpid queue head snaps nodes" "head < length queue" "read (queue ! head) = None"
  shows "walk_inv pf read rpid queue (Suc head) snaps nodes"
  using assms by (auto simp: walk_inv_def take_Suc_conv_app_nth)

lemma walk_inv_visit:
  assumes inv: "walk_inv pf read rpid queue head snaps nodes" and head: "head < length queue"
    and node: "read (queue ! head) = Some node"
  defines "snaps1 \<equiv> snaps @ [queue ! head]"
  defines "queue1 \<equiv> (case read_children_pids pf (queue ! head) of None \<Rightarrow> queue | Some kids \<Rightarrow> add_unseen snaps1 kids queue)"
  shows "walk_inv pf read rpid queue1 (Suc head) snaps1 (nodes @ [node])"
proof -
  let ?cur = "queue ! head"
  have sub: "set snaps1 \<subseteq> set queue"
    using inv head by (auto simp: walk_inv_def snaps1_def dest: in_set_takeD)
  obtain new where new: "queue1 = queue @ new" "distinct new" "set new \<inter> set queue = {}"
    using add_unseen_extends[of snaps1 _ queue] by (fastforce simp: queue1_def split: option.splits)
  have set1: "set queue1 = set queue \<union> set (kids_of pf ?cur)"
    using add_unseen_set[OF sub] by (simp add: queue1_def kids_of_def split: option.splits)
  have take1: "take (Suc head) queue1 = take head queue @ [?cur]"
    using head by (simp add: new(1) take_Suc_conv_app_nth)
  have cur: "reachable pf read rpid ?cur"
    using inv head by (simp add: walk_inv_def)
  have "reachable pf read rpid k" if "k \<in> set (kids_of pf ?cur)" for k
    using that reachable.child[OF cur] node by (cases "read_children_pids pf ?cur") (auto simp: kids_of_def)
  then have reach: "\<forall>q\<in>set queue1. reachable pf read rpid q"
    using set1 inv by (auto simp: walk_inv_def)
  have kids: "\<forall>p\<in>set (take (Suc head) queue1). read p \<noteq> None \<longrightarrow> set (kids_of pf p) \<subseteq> set queue1"
    using inv set1 unfolding take1 by (fastforce simp: walk_inv_def)
  have "distinct queue1" "rpid \<in> set queue1"
    using inv new by (auto simp: walk_inv_def)
  then show ?thesis
    using inv reach kids node unfolding walk_inv_def take1 by (simp add: snaps1_def)
qed

lemma tree_walk_inv:
  "walk_inv pf read rpid queue head snaps nodes \<Longrightarrow>
   \<exists>q. walk_inv pf read rpid q (length q) (filter (\<lambda>p. read p \<noteq> None) q) (tree_walk pf read queue head snaps nodes)"
proof (induction pf read queue head snaps nodes rule: tree_walk.induct)
  case (1 pf read queue head snaps nodes)
  show ?case
  proof (cases "head < length queue")
    case True
    show ?thesis
    proof (cases "read (queue ! head)")
      case None
      then show ?thesis
        using 1 True walk_inv_skip[OF 1(3) True None] by (simp add: tree_walk.simps[of pf read queue])
    next
      case (Some node)
      then show ?thesis
        using 1 True walk_inv_visit[OF 1(3) True Some] by (simp add: tree_walk.simps[of pf read queue] Let_def)
    qed
  next
    case False
    then show ?thesis
      using 1(3) by (intro exI[of _ queue]) (simp add: tree_walk.simps[of pf read queue] walk_inv_def)
  qed
qed

text \<open>The walk records each readable process reachable from the root once, and nothing else.\<close>

lemma tree_walk_visits:
  obtains q where "distinct q" "set q = {p. reachable pf read rpid p}"
    "tree_walk pf read [rpid] 0 [] [] = map (\<lambda>p. the (read p)) (filter (\<lambda>p. read p \<noteq> None) q)"
proof -
  have "walk_inv pf read rpid [rpid] 0 [] []"
    by (simp add: walk_inv_def reachable.here)
  from tree_walk_inv[OF this] obtain q where
    q: "walk_inv pf read rpid q (length q) (filter (\<lambda>p. read p \<noteq> None) q) (tree_walk pf read [rpid] 0 [] [])"
    by blast
  have "p \<in> set q" if "reachable pf read rpid p" for p
    using that
  proof (induction rule: reachable.induct)
    case here
    then show ?case using q by (simp add: walk_inv_def)
  next
    case (child p kids k)
    then show ?case using q by (fastforce simp: walk_inv_def kids_of_def)
  qed
  then have "set q = {p. reachable pf read rpid p}"
    using q by (auto simp: walk_inv_def)
  with q show ?thesis
    by (intro that[of q]) (simp_all add: walk_inv_def)
qed

section \<open>Processor times between rounds\<close>

record prev_sample =
  pv_pid :: int
  pv_proc_time :: "64 word"
  pv_seen :: bool

definition clear_seen :: "prev_sample list \<Rightarrow> prev_sample list" where
  "clear_seen prev = map (\<lambda>p. p\<lparr>pv_seen := False\<rparr>) prev"

text \<open>Look up a process, remember its time and yield what it consumed since; a new one is added and yields 0.\<close>

fun charge :: "int \<Rightarrow> 64 word \<Rightarrow> prev_sample list \<Rightarrow> prev_sample list \<times> 64 word" where
  "charge pid proc_time [] = ([\<lparr>pv_pid = pid, pv_proc_time = proc_time, pv_seen = True\<rparr>], 0)"
| "charge pid proc_time (p # prev) =
     (if pv_pid p = pid then
        (p\<lparr>pv_seen := True, pv_proc_time := proc_time\<rparr> # prev,
         if proc_time \<ge> pv_proc_time p then proc_time - pv_proc_time p else 0)
      else case charge pid proc_time prev of (prev1, delta) \<Rightarrow> (p # prev1, delta))"

text \<open>The table as a map from processes to times.\<close>

definition prev_map :: "prev_sample list \<Rightarrow> int \<Rightarrow> 64 word option" where
  "prev_map prev = map_of (map (\<lambda>p. (pv_pid p, pv_proc_time p)) prev)"

lemma prev_map_simps [simp]:
  "prev_map [] = Map.empty"
  "prev_map (p # prev) = (prev_map prev)(pv_pid p \<mapsto> pv_proc_time p)"
  by (simp_all add: prev_map_def)

lemma prev_map_clear [simp]: "prev_map (clear_seen prev) = prev_map prev"
  by (simp add: prev_map_def clear_seen_def comp_def)

definition spent :: "64 word option \<Rightarrow> 64 word \<Rightarrow> 64 word" where
  "spent before now = (case before of None \<Rightarrow> 0 | Some t \<Rightarrow> if t \<le> now then now - t else 0)"

lemma charge_map:
  "charge pid t prev = (prev1, delta) \<Longrightarrow> prev_map prev1 = (prev_map prev)(pid \<mapsto> t) \<and> delta = spent (prev_map prev pid) t"
  by (induction pid t prev arbitrary: prev1 delta rule: charge.induct)
    (auto simp: spent_def fun_upd_twist split: if_splits prod.splits)

lemma charge_pids:
  "charge pid t prev = (prev1, delta) \<Longrightarrow>
   map pv_pid prev1 = (if pid \<in> pv_pid ` set prev then map pv_pid prev else map pv_pid prev @ [pid])"
  by (induction pid t prev arbitrary: prev1 delta rule: charge.induct) (auto split: if_splits prod.splits)

end
