(* ===== verification/ProcPush.thy ===== *)
theory ProcPush
  imports ProcScan JsonLine Net
begin

text \<open>
  The sampler and push client of the preload library and the wrapper,
  \<^verbatim>\<open>src/common/proc_push.c\<close> with \<^verbatim>\<open>include/proc_push.h\<close>.

  \<open>getenv\<close> is a function argument; the local time is the record \<open>tm\<close> that \<^verbatim>\<open>localtime_r\<close> delivers.  An array
  that the code zeroes with \<^verbatim>\<open>memset\<close> is the empty string.
\<close>

record proc_sample =
  ss_label :: cstring
  ss_service :: cstring
  ss_comm :: cstring
  ss_runtime :: cstring
  ss_pod :: cstring
  ss_container_id :: cstring
  ss_pid_key :: cstring
  ss_pid :: int
  ss_cpu_pct :: dbl
  ss_rss_kb :: int
  ss_threads :: int

definition sample_zero :: proc_sample where
  "sample_zero =
     \<lparr>ss_label = [], ss_service = [], ss_comm = [], ss_runtime = [], ss_pod = [], ss_container_id = [],
      ss_pid_key = [], ss_pid = 0, ss_cpu_pct = 0, ss_rss_kb = 0, ss_threads = 0\<rparr>"

record proc_baseline =
  pb_proc_time :: "64 word"
  pb_cpu_total :: "64 word"
  pb_have_baseline :: bool

definition pw_label_valid :: "cstring option \<Rightarrow> bool" where
  "pw_label_valid label =
     (case label of
        None \<Rightarrow> False
      | Some s \<Rightarrow>
          if s = [] then False
          else if length s \<ge> 100 then False
          else list_all (\<lambda>c. isalnum c \<or> c = 0x5f) s)"

section \<open>Reading\<close>

text \<open>One \<^verbatim>\<open>read\<close>, which delivers as much of the file as fits.\<close>

definition read_file :: "procfs \<Rightarrow> cstring \<Rightarrow> nat \<Rightarrow> cstring option" where
  "read_file pf path cap =
     (case pf_file pf path of
        None \<Rightarrow> None
      | Some c \<Rightarrow> if take (cap - 1) c = [] then None else Some (cstr (take (cap - 1) c)))"

fun sum_fields :: "nat \<Rightarrow> cstring \<Rightarrow> 64 word \<Rightarrow> 64 word" where
  "sum_fields 0 p acc = acc"
| "sum_fields (Suc i) p acc =
     (case strtoull p of
        None \<Rightarrow> acc
      | Some (v, endp) \<Rightarrow> sum_fields i endp (acc + v))"

definition read_cpu_total :: "procfs \<Rightarrow> 64 word" where
  "read_cpu_total pf =
     (case read_file pf (lit ''/proc/stat'') 1024 of
        None \<Rightarrow> 0
      | Some buf \<Rightarrow>
          if \<not> is_prefix (lit ''cpu '') buf \<and> \<not> is_prefix (lit ''cpu'' @ [0x09]) buf then 0
          else sum_fields 10 (dropWhile (\<lambda>c. c = 0x20 \<or> c = 0x09) (drop 3 buf)) 0)"

text \<open>The array \<^verbatim>\<open>fields\<close>: where a conversion fails, it and the rest of the array are 0.\<close>

fun stat_fields :: "nat \<Rightarrow> cstring \<Rightarrow> 64 word list" where
  "stat_fields 0 p = []"
| "stat_fields (Suc i) p =
     (case strtoull (dropWhile (\<lambda>c. c = 0x20) p) of
        None \<Rightarrow> replicate (Suc i) 0
      | Some (v, endp) \<Rightarrow> v # stat_fields i endp)"

lemma length_stat_fields [simp]: "length (stat_fields n p) = n"
  by (induction n p rule: stat_fields.induct) (auto split: option.splits)

text \<open>User and system time, resident pages, threads and the command name.\<close>

definition parse_stat :: "procfs \<Rightarrow> int \<Rightarrow> nat \<Rightarrow> (64 word \<times> 64 word \<times> int \<times> int \<times> cstring) option" where
  "parse_stat pf pid comm_cap =
     (case read_file pf (proc_path pid ''/stat'') 4096 of
        None \<Rightarrow> None
      | Some line \<Rightarrow>
          (case (strchr line 0x28, strrchr line 0x29) of
             (Some lparen, Some rparen) \<Rightarrow>
               if length lparen \<le> length rparen then None
               else
                 let clen0 = length lparen - length rparen - 1;
                     clen = (if clen0 \<ge> comm_cap then comm_cap - 1 else clen0);
                     fields = stat_fields 30 (drop 2 rparen)
                 in Some (fields ! 11, fields ! 12, sint (fields ! 21), sint (fields ! 17), take clen (drop 1 lparen))
           | _ \<Rightarrow> None))"

function status_loop2 :: "cstring \<Rightarrow> int \<times> int \<Rightarrow> int \<times> int" where
  "status_loop2 buf st =
     (if buf = [] then st
      else
        let line = takeWhile (\<lambda>c. c \<noteq> 0x0a) buf;
            st1 = (case st of (rss_kb, threads) \<Rightarrow>
                     if is_prefix (lit ''VmRSS:'') line then (strtol_val (drop 6 line), threads)
                     else if is_prefix (lit ''Threads:'') line then (rss_kb, strtol_val (drop 8 line))
                     else (rss_kb, threads))
        in if length line = length buf then st1 else status_loop2 (drop (length line + 1) buf) st1)"
  by pat_completeness auto
termination
  by (relation "measure (\<lambda>(buf, st). length buf)") auto

declare status_loop2.simps [simp del]

definition parse_status :: "procfs \<Rightarrow> int \<Rightarrow> int \<times> int \<Rightarrow> int \<times> int" where
  "parse_status pf pid st =
     (case read_file pf (proc_path pid ''/status'') 4096 of
        None \<Rightarrow> st
      | Some buf \<Rightarrow> status_loop2 buf st)"

section \<open>Sampling\<close>

definition long_wrap :: "int \<Rightarrow> int" where
  "long_wrap i = sint (word_of_int i :: 64 word)"

text \<open>\<^verbatim>\<open>(100.0 * (double)d_proc / (double)d_cpu) * (double)ncpu\<close>\<close>

definition cpu_percent :: "64 word \<Rightarrow> 64 word \<Rightarrow> int \<Rightarrow> dbl" where
  "cpu_percent d_proc d_cpu ncpu =
     dbl_mul (dbl_div (dbl_mul (dbl_of_int 100) (dbl_of_uint64 d_proc)) (dbl_of_uint64 d_cpu)) (dbl_of_int ncpu)"

text \<open>The results of \<^verbatim>\<open>sysconf\<close> and what the code makes of them.\<close>

record sysconf =
  sc_pagesize :: int
  sc_nprocessors :: int

definition sys_page_kb :: "sysconf \<Rightarrow> int" where
  "sys_page_kb sc = (if sc_pagesize sc div 1024 \<le> 0 then 4 else sc_pagesize sc div 1024)"

definition sys_ncpu :: "sysconf \<Rightarrow> int" where
  "sys_ncpu sc = (if sc_nprocessors sc \<le> 0 then 1 else sc_nprocessors sc)"

definition pw_sample_pid ::
    "procfs \<Rightarrow> sysconf \<Rightarrow> int \<Rightarrow> proc_baseline \<Rightarrow> proc_sample \<Rightarrow> (proc_baseline \<times> proc_sample) option" where
  "pw_sample_pid pf sc pid base out =
     (case parse_stat pf pid 64 of
        None \<Rightarrow> None
      | Some (utime, stime, rss_pages, threads0, comm) \<Rightarrow>
          let (rss_kb, threads) = parse_status pf pid (long_wrap (rss_pages * sys_page_kb sc), threads0);
              proc_time = utime + stime;
              cpu_total = read_cpu_total pf;
              cpu_pct =
                (if pb_have_baseline base \<and> cpu_total > pb_cpu_total base \<and> proc_time \<ge> pb_proc_time base then
                   let d_proc = proc_time - pb_proc_time base; d_cpu = cpu_total - pb_cpu_total base
                   in if d_cpu > 0 then cpu_percent d_proc d_cpu (sys_ncpu sc) else 0
                 else 0)
          in Some (\<lparr>pb_proc_time = proc_time, pb_cpu_total = cpu_total, pb_have_baseline = True\<rparr>,
                   out\<lparr>ss_pid := pid,
                       ss_pid_key := (if ss_pid_key out = [] then snprintf_s 64 (dec_int pid) else ss_pid_key out),
                       ss_comm := snprintf_s 64 comm, ss_cpu_pct := cpu_pct, ss_rss_kb := rss_kb,
                       ss_threads := threads\<rparr>))"

section \<open>Identity\<close>

record tm =
  tm_year :: int
  tm_mon :: nat
  tm_mday :: nat
  tm_hour :: nat
  tm_min :: nat
  tm_sec :: nat

definition two_digits :: "nat \<Rightarrow> cstring" where
  "two_digits n = (if n < 10 then 0x30 # dec_nat n else dec_nat n)"

text \<open>\<^verbatim>\<open>strftime\<close> with \<^verbatim>\<open>"_%Y%m%d%H%M%S"\<close>; \<open>tm_year\<close> is the full year and \<open>tm_mon\<close> counts from 1.\<close>

definition pw_format_created_stamp :: "tm \<Rightarrow> cstring" where
  "pw_format_created_stamp t =
     0x5f # dec_int (tm_year t) @ two_digits (tm_mon t) @ two_digits (tm_mday t) @ two_digits (tm_hour t) @
     two_digits (tm_min t) @ two_digits (tm_sec t)"

definition pw_sample_set_pid_key :: "int \<Rightarrow> cstring \<Rightarrow> proc_sample \<Rightarrow> proc_sample" where
  "pw_sample_set_pid_key pid stamp out =
     out\<lparr>ss_pid := pid,
         ss_pid_key := (if stamp \<noteq> [] then snprintf_s 64 (dec_int pid @ stamp) else snprintf_s 64 (dec_int pid))\<rparr>"

text \<open>\<^verbatim>\<open>!p || !*p\<close>\<close>

definition blank :: "cstring option \<Rightarrow> bool" where
  "blank p \<longleftrightarrow> p = None \<or> p = Some []"

definition pw_sample_fill_identity ::
    "(cstring \<Rightarrow> cstring option) \<Rightarrow> cstring option \<Rightarrow> proc_sample \<Rightarrow> proc_sample" where
  "pw_sample_fill_identity getenv runtime_hint out =
     (let svc0 = getenv (lit ''OTEL_SERVICE_NAME'');
          svc = (if blank svc0 then getenv (lit ''PROCWATCH_SERVICE'') else svc0)
      in out\<lparr>ss_label := (case getenv (lit ''PROCWATCH_LABEL'') of None \<Rightarrow> [] | Some l \<Rightarrow> snprintf_s 100 l),
             ss_service := snprintf_s 256 (if blank svc then ss_comm out else the svc),
             ss_pod := (case getenv (lit ''PROCWATCH_POD'') of None \<Rightarrow> [] | Some p \<Rightarrow> snprintf_s 256 p),
             ss_container_id := [],
             ss_runtime := snprintf_s 32 (if blank runtime_hint then lit ''other'' else the runtime_hint)\<rparr>)"

section \<open>Pushing\<close>

definition parse_http_endpoint :: "cstring \<Rightarrow> nat \<Rightarrow> nat \<Rightarrow> (cstring \<times> int \<times> cstring) option" where
  "parse_http_endpoint endpoint host_cap path_cap =
     (if endpoint = [] then None
      else if \<not> is_prefix (lit ''http://'') endpoint \<and> is_prefix (lit ''https://'') endpoint then None
      else
        let p = (if is_prefix (lit ''http://'') endpoint then drop 7 endpoint else endpoint);
            slash = strchr p 0x2f;
            authority = takeWhile (\<lambda>c. c \<noteq> 0x2f) p;
            colon = strchr authority 0x3a;
            (host_len, port) =
              (case colon of
                 Some c \<Rightarrow> (length authority - length c, atoi (drop (length authority - length c + 1) p))
               | None \<Rightarrow> (length authority, 80))
        in if host_len = 0 \<or> host_len \<ge> host_cap then None
           else
             let prefix = (case slash of
                             Some s \<Rightarrow> if drop 1 s \<noteq> [] then
                                         rev (dropWhile (\<lambda>c. c = 0x2f) (rev (snprintf_s path_cap s)))
                                       else []
                           | None \<Rightarrow> [])
             in Some (take host_len p, if port \<le> 0 \<or> port > 65535 then 80 else port, prefix))"

text \<open>The strings go into the text as they are, without escaping.\<close>

definition push_body :: "proc_sample \<Rightarrow> byte list" where
  "push_body s = json_line
     [(lit ''label'', quoted (ss_label s)), (lit ''service'', quoted (ss_service s)),
      (lit ''pid'', quoted (if ss_pid_key s \<noteq> [] then ss_pid_key s else snprintf_s 32 (dec_int (ss_pid s)))),
      (lit ''comm'', quoted (ss_comm s)), (lit ''cpu_pct'', fmt_f 6 (ss_cpu_pct s)),
      (lit ''rss_kb'', dec_int (ss_rss_kb s)), (lit ''threads'', dec_int (ss_threads s)),
      (lit ''runtime'', quoted (ss_runtime s)), (lit ''pod'', quoted (ss_pod s)),
      (lit ''container_id'', quoted (ss_container_id s))]"

definition push_request :: "cstring \<Rightarrow> cstring \<Rightarrow> int \<Rightarrow> byte list \<Rightarrow> byte list" where
  "push_request path host port body =
     lit ''POST '' @ path @ lit '' HTTP/1.1'' @ [0x0d, 0x0a] @
     lit ''Host: '' @ host @ lit '':'' @ dec_int port @ [0x0d, 0x0a] @
     lit ''Content-Type: application/json'' @ [0x0d, 0x0a] @
     lit ''Content-Length: '' @ dec_nat (length body) @ [0x0d, 0x0a] @
     lit ''Connection: close'' @ [0x0d, 0x0a, 0x0d, 0x0a] @ body"

definition pw_push_sample :: "'d net \<Rightarrow> cstring option \<Rightarrow> proc_sample \<Rightarrow> 'd \<Rightarrow> int \<times> 'd" where
  "pw_push_sample net endpoint s d =
     (if \<not> pw_label_valid (Some (ss_label s)) then (- 1, d)
      else case parse_http_endpoint (if blank endpoint then lit ''http://127.0.0.1:4318'' else the endpoint) 256 256 of
        None \<Rightarrow> (- 1, d)
      | Some (host, port, path_prefix) \<Rightarrow>
          let body = push_body s
          in if length body \<ge> 1024 then (- 1, d)
             else
               let req = push_request (snprintf_s 320 (path_prefix @ lit ''/v1/procmetrics'')) host port body
               in if length req \<ge> 1536 then (- 1, d)
                  else case nt_getaddrinfo net host (snprintf_s 16 (dec_int port)) d of
                    (None, d1) \<Rightarrow> (- 1, d1)
                  | (Some addrs, d1) \<Rightarrow>
                      (case try_addresses net (\<lambda>a. sa_connect a = ConnOk) addrs d1 of (conn, d2) \<Rightarrow>
                         if \<not> conn then (- 1, d2)
                         else case nt_send net req d2 of (rs, d3) \<Rightarrow>
                           if \<not> fst (send_loop False req rs) then (- 1, d3)
                           else read_answer net d3))"

end
