(* ===== verification/SpillSpec.thy ===== *)
theory SpillSpec
  imports SpillBuffer
begin

text \<open>
  What the spill buffer promises: a first-in first-out log of records.  The interface is the
  locale \<open>record_log\<close>, with the order of delivery over any interleaving of its operations proved
  inside it; the model of \<^verbatim>\<open>src/db_buffer.c\<close> is its interpretation when no file operation
  fails.  A second group of lemmas follows the records through a flush under every script of
  I/O failures.
\<close>

section \<open>The log\<close>

datatype 'r log_op = Put 'r | Drain

fun puts_of :: "'r log_op list \<Rightarrow> 'r list" where
  "puts_of [] = []"
| "puts_of (Put r # ops) = r # puts_of ops"
| "puts_of (Drain # ops) = puts_of ops"

text \<open>A run of operations: the records delivered, in order; \<open>None\<close> when the process exits.\<close>

fun run_log ::
    "('r \<Rightarrow> 's \<Rightarrow> 's) \<Rightarrow> ('s \<Rightarrow> ('r list \<times> 's) option) \<Rightarrow> 'r log_op list \<Rightarrow> 's \<Rightarrow> ('r list \<times> 's) option" where
  "run_log ap drain [] s = Some ([], s)"
| "run_log ap drain (Put r # ops) s = run_log ap drain ops (ap r s)"
| "run_log ap drain (Drain # ops) s =
     (case drain s of
        None \<Rightarrow> None
      | Some (out, s1) \<Rightarrow> map_option (apfst ((@) out)) (run_log ap drain ops s1))"

locale record_log =
  fixes wf :: "'s \<Rightarrow> bool"
    and good :: "'r \<Rightarrow> bool"
    and pending :: "'s \<Rightarrow> 'r list"
    and ap :: "'r \<Rightarrow> 's \<Rightarrow> 's"
    and drain :: "'s \<Rightarrow> ('r list \<times> 's) option"
  assumes put_wf: "wf s \<Longrightarrow> good r \<Longrightarrow> wf (ap r s)"
    and put_pending: "wf s \<Longrightarrow> good r \<Longrightarrow> pending (ap r s) = pending s @ [r]"
    and drain_wf: "wf s \<Longrightarrow> drain s = Some (out, s1) \<Longrightarrow> wf s1"
    and drain_pending: "wf s \<Longrightarrow> drain s = Some (out, s1) \<Longrightarrow> pending s = out @ pending s1"
begin

text \<open>Every record is delivered at most once, in the order it came, and none is dropped.\<close>

lemma fifo:
  "wf s \<Longrightarrow> (\<And>r. Put r \<in> set ops \<Longrightarrow> good r) \<Longrightarrow> run_log ap drain ops s = Some (out, s1) \<Longrightarrow>
   wf s1 \<and> pending s @ puts_of ops = out @ pending s1"
proof (induction ops arbitrary: s out)
  case Nil
  then show ?case by simp
next
  case (Cons op ops)
  show ?case
  proof (cases op)
    case (Put r)
    then have "good r" and run: "run_log ap drain ops (ap r s) = Some (out, s1)"
      using Cons.prems by auto
    then have "wf s1 \<and> pending (ap r s) @ puts_of ops = out @ pending s1"
      using Cons.prems put_wf by (intro Cons.IH) auto
    then show ?thesis
      using Put put_pending[OF Cons.prems(1) \<open>good r\<close>] by simp
  next
    case Drain
    then obtain o1 s2 o2 where d: "drain s = Some (o1, s2)"
        and r: "run_log ap drain ops s2 = Some (o2, s1)" and out: "out = o1 @ o2"
      using Cons.prems(3) by (auto split: option.splits)
    have "wf s1 \<and> pending s2 @ puts_of ops = o2 @ pending s1"
      using Cons.prems drain_wf[OF Cons.prems(1) d] r by (intro Cons.IH) auto
    then show ?thesis
      using drain_pending[OF Cons.prems(1) d] Drain out by simp
  qed
qed

end

section \<open>Records of a file\<close>

function records :: "byte list \<Rightarrow> byte list list" where
  "records c =
     (if c = [] then []
      else case getline_split c of (raw, after) \<Rightarrow>
        (if strip_eol raw = [] then [] else [strip_eol raw]) @ records after)"
  by pat_completeness auto
termination
  by (relation "measure length") (auto dest: getline_split_shrinks)

declare records.simps [simp del]

lemma records_Nil [simp]: "records [] = []"
  by (simp add: records.simps)

definition nl_ok :: "byte list \<Rightarrow> bool" where
  "nl_ok c \<longleftrightarrow> c = [] \<or> last c = 0x0a"

definition good_record :: "byte list \<Rightarrow> bool" where
  "good_record r \<longleftrightarrow> r \<noteq> [] \<and> 0 \<notin> set r \<and> 0x0a \<notin> set r \<and> last r \<noteq> 0x0d"

lemma getline_split_line: "0x0a \<notin> set l \<Longrightarrow> getline_split (l @ 0x0a # after) = (l @ [0x0a], after)"
proof -
  assume "0x0a \<notin> set l"
  then have "takeWhile (\<lambda>b. b \<noteq> 0x0a) (l @ 0x0a # after) = l"
    by (intro takeWhile_append_stop) auto
  then show ?thesis by (simp add: getline_split_def Let_def)
qed

lemma nl_okE:
  assumes "nl_ok c" "c \<noteq> []"
  obtains l after where "c = l @ 0x0a # after" "0x0a \<notin> set l" "nl_ok after"
proof -
  have "0x0a \<in> set c"
    using assms last_in_set[of c] by (auto simp: nl_ok_def)
  then obtain l after where "c = l @ 0x0a # after" "0x0a \<notin> set l"
    by (meson split_list_first)
  moreover from this have "nl_ok after"
    using assms by (auto simp: nl_ok_def split: if_splits)
  ultimately show ?thesis by (rule that)
qed

lemma nl_ok_append: "nl_ok c \<Longrightarrow> nl_ok (c @ r @ [0x0a])"
  by (simp add: nl_ok_def)

lemma strip_eol_newline [simp]: "strip_eol (l @ [0x0a]) = strip_eol l"
  by (simp add: strip_eol_def)

lemma set_strip_eol: "set (strip_eol l) \<subseteq> set l"
  using set_dropWhileD[of _ "\<lambda>b. b = 0x0a \<or> b = 0x0d" "rev l"] by (auto simp: strip_eol_def)

lemma strip_eol_idem [simp]: "strip_eol (strip_eol l) = strip_eol l"
  by (simp add: strip_eol_def dropWhile_idem)

lemma last_strip_eol: "strip_eol l \<noteq> [] \<Longrightarrow> last (strip_eol l) \<noteq> 0x0d"
  using hd_dropWhile[of "\<lambda>b. b = 0x0a \<or> b = 0x0d" "rev l"] by (auto simp: strip_eol_def last_rev)

lemma strip_eol_good: "good_record r \<Longrightarrow> strip_eol r = r"
  unfolding good_record_def strip_eol_def
  by (cases r rule: rev_cases) auto

lemma good_strip_eol:
  "strip_eol l \<noteq> [] \<Longrightarrow> 0 \<notin> set l \<Longrightarrow> 0x0a \<notin> set l \<Longrightarrow> good_record (strip_eol l)"
  using set_strip_eol[of l] last_strip_eol[of l] by (auto simp: good_record_def)

lemma records_line:
  "0x0a \<notin> set l \<Longrightarrow>
   records (l @ 0x0a # after) = (if strip_eol l = [] then [] else [strip_eol l]) @ records after"
  by (subst records.simps) (simp add: getline_split_line)

lemma records_append: "nl_ok c \<Longrightarrow> records (c @ d) = records c @ records d"
proof (induction c rule: length_induct)
  case (1 c)
  show ?case
  proof (cases "c = []")
    case False
    with "1.prems" obtain l after where c: "c = l @ 0x0a # after" "0x0a \<notin> set l" "nl_ok after"
      by (rule nl_okE)
    then have "records (after @ d) = records after @ records d"
      using "1.IH" by simp
    then show ?thesis
      using c by (simp add: records_line)
  qed simp
qed

lemma records_record: "good_record r \<Longrightarrow> records (r @ 0x0a # after) = r # records after"
  using strip_eol_good[of r] by (auto simp: records_line good_record_def)

text \<open>The file after further records.\<close>

definition lines_of :: "byte list list \<Rightarrow> byte list" where
  "lines_of rs = concat (map (\<lambda>r. r @ [0x0a]) rs)"

lemma lines_of_simps [simp]:
  "lines_of [] = []" "lines_of (r # rs) = r @ 0x0a # lines_of rs" "lines_of (rs @ rs') = lines_of rs @ lines_of rs'"
  by (simp_all add: lines_of_def)

lemma records_lines: "nl_ok c \<Longrightarrow> list_all good_record rs \<Longrightarrow> records (c @ lines_of rs) = records c @ rs"
proof (induction rs arbitrary: c)
  case (Cons r rs)
  then have "records (c @ lines_of (r # rs)) = records (c @ r @ [0x0a]) @ rs"
    using Cons.IH[of "c @ r @ [0x0a]"] by (simp add: nl_ok_append)
  with Cons.prems show ?case
    using records_record[of r "[]"] by (simp add: records_append)
qed simp

lemma nl_ok_lines: "nl_ok c \<Longrightarrow> nl_ok (c @ lines_of rs)"
  by (cases rs rule: rev_cases) (simp_all add: nl_ok_def)

lemma nul_lines: "0 \<notin> set c \<Longrightarrow> list_all good_record rs \<Longrightarrow> 0 \<notin> set (c @ lines_of rs)"
  by (induction rs) (auto simp: good_record_def)

section \<open>Replay\<close>

text \<open>
  A callback is \<open>quiet\<close> when it leaves the files, the failure script and the spill path alone;
  it may do anything to the database and its own state, and it may exit the process.
\<close>

definition quiet :: "('d, 'u) replay_fn \<Rightarrow> bool" where
  "quiet fn \<longleftrightarrow>
     (\<forall>line b u w.
        case fn line (b, u, w) of
          Inl w1 \<Rightarrow> w_files w1 = w_files w
        | Inr (rc, b1, u1, w1) \<Rightarrow>
            db_spill_path b1 = db_spill_path b \<and> w_files w1 = w_files w \<and> w_faults w1 = w_faults w)"

text \<open>The callback with a ghost log of the lines it consumed.\<close>

definition logged :: "('d, 'u) replay_fn \<Rightarrow> ('d, 'u \<times> byte list list) replay_fn" where
  "logged fn = (\<lambda>line (b, (u, lg), w).
     case fn line (b, u, w) of
       Inl w1 \<Rightarrow> Inl w1
     | Inr (rc, b1, u1, w1) \<Rightarrow> Inr (rc, b1, (u1, if rc = 0 then lg @ [line] else lg), w1))"

lemma quiet_Inr:
  assumes "quiet fn" "fn line (b, u, w) = Inr (rc, b1, u1, w1)"
  shows "db_spill_path b1 = db_spill_path b \<and> w_files w1 = w_files w \<and> w_faults w1 = w_faults w"
proof -
  have "case fn line (b, u, w) of Inl w1 \<Rightarrow> w_files w1 = w_files w
    | Inr (rc, b1, u1, w1) \<Rightarrow>
        db_spill_path b1 = db_spill_path b \<and> w_files w1 = w_files w \<and> w_faults w1 = w_faults w"
    using assms(1) unfolding quiet_def by blast
  then show ?thesis by (simp add: assms(2))
qed

lemma quiet_Inl:
  assumes "quiet fn" "fn line (b, u, w) = Inl w1"
  shows "w_files w1 = w_files w"
proof -
  have "case fn line (b, u, w) of Inl w1 \<Rightarrow> w_files w1 = w_files w
    | Inr (rc, b1, u1, w1) \<Rightarrow>
        db_spill_path b1 = db_spill_path b \<and> w_files w1 = w_files w \<and> w_faults w1 = w_faults w"
    using assms(1) unfolding quiet_def by blast
  then show ?thesis by (simp add: assms(2))
qed

text \<open>What the loop has consumed and what it stopped at make up the records of the file.\<close>

lemma flush_loop_records:
  "quiet fn \<Longrightarrow> nl_ok c \<Longrightarrow> 0 \<notin> set c \<Longrightarrow>
   flush_loop (logged fn) c (b, (u, lg), w) n = Inr (res, m, b1, (u1, log1), w1) \<Longrightarrow>
   db_spill_path b1 = db_spill_path b \<and> w_files w1 = w_files w \<and> w_faults w1 = w_faults w \<and>
   (\<exists>done. log1 = lg @ done \<and>
      (case res of
         None \<Rightarrow> records c = done
       | Some (line, after) \<Rightarrow>
           records c = done @ line # records after \<and> good_record line \<and> nl_ok after \<and> 0 \<notin> set after))"
proof (induction c arbitrary: b u lg w n rule: length_induct)
  case (1 c)
  note quiet = "1.prems"(1) and run = "1.prems"(4)
  show ?case
  proof (cases "c = []")
    case True
    with run show ?thesis by (auto simp: flush_loop.simps)
  next
    case False
    with "1.prems"(2) obtain l after where c: "c = l @ 0x0a # after" "0x0a \<notin> set l" "nl_ok after"
      by (rule nl_okE)
    have split: "getline_split c = (l @ [0x0a], after)"
      using c getline_split_line by simp
    have recs: "records c = (if strip_eol l = [] then [] else [strip_eol l]) @ records after"
      using c by (simp add: records_line)
    have nul: "0 \<notin> set after" "0 \<notin> set l"
      using "1.prems"(3) c by auto
    have len: "length after < length c"
      using c(1) by simp
    note IH = "1.IH"[rule_format, OF len quiet c(3) nul(1)]
    show ?thesis
    proof (cases "strip_eol l = []")
      case True
      then have go: "flush_loop (logged fn) after (b, (u, lg), w) (n + 1) = Inr (res, m, b1, (u1, log1), w1)"
        using run False by (simp add: flush_loop.simps[of _ c] split)
      have "records c = records after"
        using recs True by simp
      then show ?thesis
        using IH[OF go] by (simp only:)
    next
      case line: False
      obtain rc b2 u2 w2 where fn: "fn (strip_eol l) (b, u, w) = Inr (rc, b2, u2, w2)"
        using run False line
        by (cases "fn (strip_eol l) (b, u, w)") (auto simp: flush_loop.simps[of _ c] split logged_def)
      note frame = quiet_Inr[OF quiet fn]
      show ?thesis
      proof (cases "rc = 0")
        case True
        then have go: "flush_loop (logged fn) after
            (b2\<lparr>db_flushed := db_flushed b2 + 1\<rparr>, (u2, lg @ [strip_eol l]), w2) (n + 1) =
            Inr (res, m, b1, (u1, log1), w1)"
          using run False line fn by (simp add: flush_loop.simps[of _ c] split logged_def count_flushed_def)
        from IH[OF go] obtain ds where "log1 = lg @ strip_eol l # ds"
          "case res of None \<Rightarrow> records after = ds
           | Some (line, rest) \<Rightarrow>
               records after = ds @ line # records rest \<and> good_record line \<and> nl_ok rest \<and> 0 \<notin> set rest"
          "db_spill_path b1 = db_spill_path b2 \<and> w_files w1 = w_files w2 \<and> w_faults w1 = w_faults w2"
          by auto
        with frame recs line show ?thesis
          by (auto intro!: exI[of _ "strip_eol l # ds"] split: option.splits)
      next
        case refused: False
        then have "res = Some (strip_eol l, after)" "b1 = b2" "log1 = lg" "w1 = w2"
          using run False line fn by (simp_all add: flush_loop.simps[of _ c] split logged_def)
        then show ?thesis
          using frame recs line c(3) nul good_strip_eol[OF line nul(2) c(2)] by simp
      qed
    qed
  qed
qed

section \<open>Flushing without I/O failures\<close>

definition file_content :: "cstring \<Rightarrow> 'd world \<Rightarrow> byte list" where
  "file_content p w = (case w_files w p of None \<Rightarrow> [] | Some c \<Rightarrow> c)"

definition spill_wf :: "('d, 'u) replay_fn \<Rightarrow> ('d, 'u) spill_st \<Rightarrow> bool" where
  "spill_wf fn = (\<lambda>(b, u, w).
     quiet fn \<and> w_faults w = [] \<and> length (db_spill_path b) < 512 \<and>
     nl_ok (file_content (db_spill_path b) w) \<and> 0 \<notin> set (file_content (db_spill_path b) w))"

definition spill_pending :: "('d, 'u) spill_st \<Rightarrow> byte list list" where
  "spill_pending = (\<lambda>(b, u, w). records (file_content (db_spill_path b) w))"

definition spill_put :: "byte list \<Rightarrow> ('d, 'u) spill_st \<Rightarrow> ('d, 'u) spill_st" where
  "spill_put r = (\<lambda>(b, u, w). case pw_db_buf_spill r b w of (_, b1, w1) \<Rightarrow> (b1, u, w1))"

definition spill_drain ::
    "'d libpq \<Rightarrow> ('d, 'u) replay_fn \<Rightarrow> ('d, 'u) spill_st \<Rightarrow> (byte list list \<times> ('d, 'u) spill_st) option" where
  "spill_drain pq fn = (\<lambda>(b, u, w).
     case pw_db_buf_maintain pq (logged fn) (b, (u, []), w) of
       Inl _ \<Rightarrow> None
     | Inr (rc, b1, (u1, lg), w1) \<Rightarrow> Some (lg, b1, u1, w1))"

lemma companions:
  assumes "length p < 512"
  shows "spill_companion 576 p (lit ''.flushing'') = p @ lit ''.flushing''"
    "spill_companion 576 p (lit ''.rest'') = p @ lit ''.rest''"
    "p @ lit ''.flushing'' \<noteq> p" "p @ lit ''.rest'' \<noteq> p" "p @ lit ''.rest'' \<noteq> p @ lit ''.flushing''"
  using assms by (auto simp: spill_companion_def lit_def)

lemma next_fault_none [simp]: "w_faults w = [] \<Longrightarrow> next_fault w = (None, w)"
  by (simp add: next_fault_def)

lemma fs_put_sel [simp]:
  "w_files (fs_put p c w) = (w_files w)(p := c)" "w_faults (fs_put p c w) = w_faults w"
  "w_now (fs_put p c w) = w_now w" "w_db (fs_put p c w) = w_db w" "w_env (fs_put p c w) = w_env w"
  by (simp_all add: fs_put_def)

lemma fs_unlink_none:
  "w_faults w = [] \<Longrightarrow> w_files (snd (fs_unlink p w)) = (w_files w)(p := None) \<and> w_faults (snd (fs_unlink p w)) = []"
  by (auto simp: fs_unlink_def)

text \<open>The remainder written after a refusal becomes the new spill file.\<close>

lemma flush_stop_none:
  assumes f: "w_faults w = []" and spill: "w_files w p = None"
    and ne: "fl \<noteq> p" "rs \<noteq> p" "rs \<noteq> fl" and line: "good_record line"
  shows "\<exists>w1. flush_stop p fl rs line after w = (1, w1) \<and> w_faults w1 = [] \<and>
    w_files w1 = (w_files w)(p := Some (line @ 0x0a # after), fl := None, rs := None)"
proof -
  have [simp]: "cstr line = line"
    using line by (simp add: good_record_def is_cstr_def)
  show ?thesis
    using f spill ne
    by (auto simp: flush_stop_def flush_restore_def fs_open_trunc_def fs_write_close_def fs_open_read_def
        fs_open_append_def fs_unlink_def fs_rename_def fun_eq_iff)
qed

text \<open>Without I/O failures a flush of an existing file is the loop over what it held.\<close>

lemma flush_claimed:
  assumes f: "w_faults w = []" and p: "length (db_spill_path b) < 512"
    and on: "db_online b \<and> db_conn b \<noteq> None \<and> conn_ok pq (db_conn b) w" and cc: "w_files w (db_spill_path b) = Some cc"
  defines "fl \<equiv> db_spill_path b @ lit ''.flushing''" and "rs \<equiv> db_spill_path b @ lit ''.rest''"
  shows "pw_db_buf_flush pq fn (b, u, w) =
      (case flush_loop fn cc (b, u, fs_put fl (Some cc) (fs_put (db_spill_path b) None w)) 0 of
         Inl w4 \<Rightarrow> Inl w4
       | Inr (Some (line, after), consumed, b1, u1, w4) \<Rightarrow>
           (case flush_stop (db_spill_path b) fl rs line after w4 of (rc, w5) \<Rightarrow> Inr (rc, b1, u1, w5))
       | Inr (None, consumed, b1, u1, w4) \<Rightarrow> Inr (0, b1, u1, snd (fs_unlink rs (snd (fs_unlink fl w4)))))"
proof -
  note comp = companions[OF p]
  show ?thesis
    using on f cc comp(3-5)
    unfolding pw_db_buf_flush_def prod.case Let_def comp(1,2) fl_def rs_def
    by (auto simp: fs_rename_def fs_open_read_def fs_read_all_def)
qed

lemma flush_none:
  assumes q: "quiet fn" and f: "w_faults w = []" and p: "length (db_spill_path b) < 512"
    and c: "nl_ok (file_content (db_spill_path b) w)" "0 \<notin> set (file_content (db_spill_path b) w)"
    and run: "pw_db_buf_flush pq (logged fn) (b, (u, lg), w) = Inr (rc, b1, (u1, lg1), w1)"
  shows "\<exists>ds. lg1 = lg @ ds \<and> db_spill_path b1 = db_spill_path b \<and> w_faults w1 = [] \<and>
    nl_ok (file_content (db_spill_path b) w1) \<and> 0 \<notin> set (file_content (db_spill_path b) w1) \<and>
    records (file_content (db_spill_path b) w) = ds @ records (file_content (db_spill_path b) w1)"
proof (cases "db_online b \<and> db_conn b \<noteq> None \<and> conn_ok pq (db_conn b) w \<and> w_files w (db_spill_path b) \<noteq> None")
  case False
  then show ?thesis
    using run f p c
    by (auto simp: pw_db_buf_flush_def fs_rename_def companions Let_def file_content_def fs_unlink_none
        split: if_splits)
next
  case True
  let ?p = "db_spill_path b"
  let ?fl = "?p @ lit ''.flushing''" and ?rs = "?p @ lit ''.rest''"
  note comp = companions[OF p]
  from True obtain cc where cc: "w_files w ?p = Some cc" by auto
  have content: "file_content ?p w = cc"
    by (simp add: file_content_def cc)
  define w2 where "w2 = fs_put ?fl (Some cc) (fs_put ?p None w)"
  have w2: "w_faults w2 = []" "w_files w2 ?p = None"
    using f comp by (simp_all add: w2_def)
  have claimed: "pw_db_buf_flush pq (logged fn) (b, (u, lg), w) =
      (case flush_loop (logged fn) cc (b, (u, lg), w2) 0 of
         Inl w4 \<Rightarrow> Inl w4
       | Inr (Some (line, after), consumed, b1, u1, w4) \<Rightarrow>
           (case flush_stop ?p ?fl ?rs line after w4 of (rc, w5) \<Rightarrow> Inr (rc, b1, u1, w5))
       | Inr (None, consumed, b1, u1, w4) \<Rightarrow>
           Inr (0, b1, u1, snd (fs_unlink ?rs (snd (fs_unlink ?fl w4)))))"
    using flush_claimed[OF f p _ cc, of pq "logged fn" "(u, lg)"] True by (simp add: w2_def)
  obtain res m b3 u3 lg3 w4 where loop: "flush_loop (logged fn) cc (b, (u, lg), w2) 0 = Inr (res, m, b3, (u3, lg3), w4)"
    using run claimed by (cases "flush_loop (logged fn) cc (b, (u, lg), w2) 0") (auto split: prod.splits)
  from flush_loop_records[OF q _ _ this] c content
  obtain ds where fr: "db_spill_path b3 = ?p" "w_files w4 = w_files w2" "w_faults w4 = []" and lg3: "lg3 = lg @ ds"
    and res: "case res of None \<Rightarrow> records cc = ds
      | Some (line, after) \<Rightarrow> records cc = ds @ line # records after \<and> good_record line \<and> nl_ok after \<and> 0 \<notin> set after"
    by (auto simp: w2)
  show ?thesis
  proof (cases res)
    case None
    then have "w1 = snd (fs_unlink ?rs (snd (fs_unlink ?fl w4)))" "b1 = b3" "lg1 = lg3"
      using run claimed loop by simp_all
    then show ?thesis
      using None res fr lg3 content w2 comp
      by (auto simp: fs_unlink_none file_content_def nl_ok_def)
  next
    case (Some la)
    then obtain line after where la: "res = Some (line, after)" by (cases la) auto
    with res have line: "records cc = ds @ line # records after" "good_record line" "nl_ok after" "0 \<notin> set after"
      by auto
    obtain w5 where stop: "flush_stop ?p ?fl ?rs line after w4 = (1, w5)" "w_faults w5 = []"
        "w_files w5 = (w_files w4)(?p := Some (line @ 0x0a # after), ?fl := None, ?rs := None)"
      using flush_stop_none[of w4 ?p ?fl ?rs line after] fr w2 comp line(2) by auto
    then have "w1 = w5" "b1 = b3" "lg1 = lg3"
      using run claimed loop la by simp_all
    moreover have "file_content ?p w5 = line @ 0x0a # after"
      using stop(3) comp by (simp add: file_content_def)
    moreover have "nl_ok (line @ 0x0a # after)" "0 \<notin> set (line @ 0x0a # after)"
      using line by (auto simp: nl_ok_def good_record_def)
    ultimately show ?thesis
      using fr lg3 content line stop(2) by (auto simp: records_record)
  qed
qed

section \<open>The buffer is a log\<close>

lemma spill_none:
  assumes "w_faults w = []"
  shows "\<exists>b1 w1. pw_db_buf_spill line b w = (0, b1, w1) \<and> w_faults w1 = [] \<and> db_spill_path b1 = db_spill_path b \<and>
    w_files w1 = (w_files w)(db_spill_path b := Some (file_content (db_spill_path b) w @ line @ [0x0a]))"
  using assms
  by (auto simp: pw_db_buf_spill_def fs_open_append_def fs_write_close_def file_content_def fun_eq_iff
      split: option.splits)

lemma spill_counts:
  "pw_db_buf_spill line b w = (rc, b1, w1) \<Longrightarrow>
   db_flushed b1 = db_flushed b \<and> (rc = 0 \<longrightarrow> db_spilled b1 = db_spilled b + 1 \<and> db_spill_dropped b1 = db_spill_dropped b)"
  by (auto simp: pw_db_buf_spill_def split: prod.splits if_splits)

lemma ensure_frame [frame]:
  "pw_db_buf_ensure pq b w = (ok, b1, w1) \<Longrightarrow>
   db_spill_path b1 = db_spill_path b \<and> w_files w1 = w_files w \<and> w_faults w1 = w_faults w"
  by (auto simp: pw_db_buf_ensure_def Let_def split: if_splits prod.splits dest!: db_reconnect_frame)

lemma spill_drain_step:
  assumes "spill_wf fn s" and "spill_drain pq fn s = Some (out, s1)"
  shows "spill_wf fn s1 \<and> spill_pending s = out @ spill_pending s1"
proof -
  obtain b u w where s: "s = (b, u, w)" by (cases s) auto
  obtain ok b2 w2 where e: "pw_db_buf_ensure pq b w = (ok, b2, w2)"
    by (cases "pw_db_buf_ensure pq b w") auto
  note fr = ensure_frame[OF e]
  have fc: "file_content q w2 = file_content q w" for q
    using fr by (simp add: file_content_def)
  show ?thesis
  proof (cases ok)
    case False
    then show ?thesis
      using assms fr fc by (auto simp: s spill_drain_def pw_db_buf_maintain_def e spill_wf_def spill_pending_def)
  next
    case True
    then obtain rc b1 u1 lg1 w1 where fl: "pw_db_buf_flush pq (logged fn) (b2, (u, []), w2) = Inr (rc, b1, (u1, lg1), w1)"
        and out: "out = lg1" "s1 = (b1, u1, w1)"
      using assms(2)
      by (auto simp: s spill_drain_def pw_db_buf_maintain_def e split: sum.splits prod.splits)
    from assms(1) have wf: "quiet fn" "w_faults w2 = []" "length (db_spill_path b2) < 512"
        "nl_ok (file_content (db_spill_path b2) w2)" "0 \<notin> set (file_content (db_spill_path b2) w2)"
      using fr fc by (auto simp: s spill_wf_def)
    from flush_none[OF wf fl] out wf(1,3) fr fc show ?thesis
      by (auto simp: s spill_wf_def spill_pending_def)
  qed
qed

text \<open>A reachable database, and a callback that takes every line.\<close>

lemma ensure_ok: "pw_db_buf_ensure pq b w = (True, b1, w1) \<Longrightarrow> db_online b1 \<and> db_conn b1 \<noteq> None \<and> conn_ok pq (db_conn b1) w1"
proof -
  have "db_reconnect pq c ci w = (True, conn, w1) \<Longrightarrow> conn_ok pq conn w1" for c ci conn
    by (auto simp: db_reconnect_def conn_ok_def Let_def split: option.splits if_splits prod.splits)
  then have "pw_db_buf_ensure pq b w = (True, b1, w1) \<Longrightarrow> db_online b1 \<and> conn_ok pq (db_conn b1) w1"
    by (auto simp: pw_db_buf_ensure_def Let_def conn_ok_def split: if_splits prod.splits)
  moreover have "conn_ok pq c w1 \<Longrightarrow> c \<noteq> None" for c by (cases c) (auto simp: conn_ok_def)
  ultimately show "pw_db_buf_ensure pq b w = (True, b1, w1) \<Longrightarrow> db_online b1 \<and> db_conn b1 \<noteq> None \<and> conn_ok pq (db_conn b1) w1"
    by blast
qed

definition takes_all :: "('d, 'u) replay_fn \<Rightarrow> bool" where
  "takes_all fn \<longleftrightarrow> (\<forall>line s. \<exists>s1. fn line s = Inr (0, s1))"

lemma flush_loop_takes: "takes_all fn \<Longrightarrow> \<exists>m s1. flush_loop fn c s n = Inr (None, m, s1)"
proof (induction fn c s n rule: flush_loop.induct)
  case (1 fn c s n)
  show ?case
  proof (cases "c = []")
    case False
    obtain raw after where g: "getline_split c = (raw, after)" by fastforce
    show ?thesis
    proof (cases "strip_eol raw = []")
      case True
      then show ?thesis
        using "1.IH"(1)[OF False g[symmetric] refl True] "1.prems" False by (simp add: flush_loop.simps[of fn c] g)
    next
      case nonempty: False
      obtain s1 where f: "fn (strip_eol raw) s = Inr (0, s1)" using "1.prems" unfolding takes_all_def by blast
      show ?thesis
        using "1.IH"(2)[OF False g[symmetric] refl nonempty f refl] "1.prems" False nonempty by (simp add: flush_loop.simps[of fn c] g f)
    qed
  next
    case True
    then show ?thesis by (cases s) (simp add: flush_loop.simps)
  qed
qed

lemma logged_takes: "takes_all fn \<Longrightarrow> takes_all (logged fn)"
proof -
  assume t: "takes_all fn"
  have "\<exists>s1. logged fn line (b, (u, lg), w) = Inr (0, s1)" for line b u lg w
  proof -
    obtain s1 where "fn line (b, u, w) = Inr (0, s1)" using t unfolding takes_all_def by blast
    then show ?thesis by (cases s1) (simp add: logged_def)
  qed
  then show "takes_all (logged fn)" by (simp add: takes_all_def)
qed

lemma drain_takes:
  assumes wf: "spill_wf fn (b, u, w)" and t: "takes_all fn" and e: "pw_db_buf_ensure pq b w = (True, b2, w2)"
  shows "\<exists>s1. spill_drain pq fn (b, u, w) = Some (spill_pending (b, u, w), s1) \<and> spill_pending s1 = []"
proof -
  have b2: "db_spill_path b2 = db_spill_path b" "w_files w2 = w_files w" "w_faults w2 = []" "length (db_spill_path b) < 512"
    using ensure_frame[OF e] wf by (auto simp: spill_wf_def)
  note on = ensure_ok[OF e]
  obtain rc b1 u1 lg w1 where fl: "pw_db_buf_flush pq (logged fn) (b2, (u, []), w2) = Inr (rc, b1, (u1, lg), w1)"
    and gone: "w_files w1 (db_spill_path b2) = None" and path: "db_spill_path b1 = db_spill_path b2"
  proof (cases "w_files w2 (db_spill_path b2)")
    case None
    then show ?thesis
      using on b2 companions[of "db_spill_path b2"]
      by (intro that[of 0 b2 u "[]" "snd (fs_unlink (db_spill_path b2 @ lit ''.rest'') (snd (fs_unlink (db_spill_path b2 @ lit ''.flushing'') w2)))"]) (simp_all add: pw_db_buf_flush_def fs_rename_def Let_def fs_unlink_none)
  next
    case (Some cc)
    let ?w = "fs_put (db_spill_path b2 @ lit ''.flushing'') (Some cc) (fs_put (db_spill_path b2) None w2)"
    obtain m b1 u1 lg w4 where loop: "flush_loop (logged fn) cc (b2, (u, []), ?w) 0 = Inr (None, m, b1, (u1, lg), w4)"
      using flush_loop_takes[OF logged_takes[OF t], of cc "(b2, (u, []), ?w)" 0] by auto
    have "nl_ok cc" "0 \<notin> set cc" "quiet fn"
      using wf b2 Some by (auto simp: spill_wf_def file_content_def)
    note lr = flush_loop_records[OF this(3,1,2) loop]
    have "pw_db_buf_flush pq (logged fn) (b2, (u, []), w2) =
        Inr (0, b1, (u1, lg), snd (fs_unlink (db_spill_path b2 @ lit ''.rest'') (snd (fs_unlink (db_spill_path b2 @ lit ''.flushing'') w4))))"
      using flush_claimed[OF b2(3) _ on Some, of "logged fn" "(u, [])"] b2 loop by simp
    from that[OF this] show ?thesis
      using lr b2 companions[of "db_spill_path b2"] by (simp add: fs_unlink_none)
  qed
  have drain: "spill_drain pq fn (b, u, w) = Some (lg, b1, u1, w1)"
    by (simp add: spill_drain_def pw_db_buf_maintain_def e fl)
  have "spill_pending (b1, u1, w1) = []"
    using gone path by (simp add: spill_pending_def file_content_def)
  with spill_drain_step[OF wf drain] drain show ?thesis by simp
qed

interpretation spill_log: record_log "spill_wf fn" good_record spill_pending spill_put "spill_drain pq fn"
  for pq fn
proof
  fix s :: "('b, 'a) spill_st" and r :: "byte list"
  assume wf: "spill_wf fn s" and r: "good_record r"
  obtain b u w where s: "s = (b, u, w)" by (cases s) auto
  from wf have w: "w_faults w = []" by (simp add: s spill_wf_def)
  obtain b1 w1 where sp: "pw_db_buf_spill r b w = (0, b1, w1)" "w_faults w1 = []" "db_spill_path b1 = db_spill_path b"
      "w_files w1 = (w_files w)(db_spill_path b := Some (file_content (db_spill_path b) w @ r @ [0x0a]))"
    using spill_none[OF w] by blast
  then have fc: "file_content (db_spill_path b) w1 = file_content (db_spill_path b) w @ r @ [0x0a]"
    by (simp add: file_content_def)
  show "spill_wf fn (spill_put r s)"
    using wf r sp(1-3) fc
    by (auto simp: s spill_put_def spill_wf_def nl_ok_append good_record_def)
  show "spill_pending (spill_put r s) = spill_pending s @ [r]"
    using wf r sp(1,3) fc records_record[OF r, of "[]"]
    by (simp add: s spill_put_def spill_wf_def spill_pending_def records_append)
qed (use spill_drain_step in blast)+

section \<open>Flushing under I/O failures\<close>

text \<open>Every operation seen through the contents of the files, whatever the script says.\<close>

lemma next_fault_files: "w_files (snd (next_fault w)) = w_files w"
  by (simp add: next_fault_def split: list.split)

lemma next_fault_eq: "next_fault w = (f, w1) \<Longrightarrow> w_files w1 = w_files w"
  using next_fault_files[of w] by simp

lemma content_rename:
  "fs_rename src dst w = (r, w1) \<Longrightarrow> src \<noteq> dst \<Longrightarrow>
   (r \<noteq> IoOk \<and> w_files w1 = w_files w) \<or>
   (r = IoOk \<and> file_content dst w1 = file_content src w \<and> (\<forall>q. q \<noteq> src \<longrightarrow> q \<noteq> dst \<longrightarrow> file_content q w1 = file_content q w)
     \<and> file_content src w1 = [])"
  by (auto simp: fs_rename_def file_content_def split: prod.splits if_splits option.splits dest!: next_fault_eq)

lemma content_unlink:
  "q \<noteq> p \<Longrightarrow> file_content q (snd (fs_unlink p w)) = file_content q w"
  by (auto simp: fs_unlink_def file_content_def split: prod.splits dest!: next_fault_eq)

lemma content_unlink_nil:
  "file_content p w = [] \<Longrightarrow> file_content p (snd (fs_unlink p w)) = []"
  by (auto simp: fs_unlink_def file_content_def split: prod.splits dest!: next_fault_eq)

lemma content_open_read: "file_content q (snd (fs_open_read p w)) = file_content q w"
  by (auto simp: fs_open_read_def file_content_def split: prod.splits dest!: next_fault_eq)

lemma content_open_append: "file_content q (snd (fs_open_append p w)) = file_content q w"
  by (auto simp: fs_open_append_def file_content_def split: prod.splits option.splits dest!: next_fault_eq)

lemma content_open_trunc:
  "fs_open_trunc p w = (ok, w1) \<Longrightarrow>
   (q \<noteq> p \<longrightarrow> file_content q w1 = file_content q w) \<and> (ok \<longrightarrow> file_content p w1 = [])"
  by (auto simp: fs_open_trunc_def file_content_def split: prod.splits if_splits dest!: next_fault_eq)

lemma content_read_all: "fs_read_all p w = (c, w1) \<Longrightarrow> w_files w1 = w_files w \<and> (file_content p w = [] \<longrightarrow> c = [])"
  by (auto simp: fs_read_all_def file_content_def Let_def split: prod.splits option.splits dest!: next_fault_eq)

lemma content_write_close:
  "fs_write_close p bs w = (ok, w1) \<Longrightarrow>
   (q \<noteq> p \<longrightarrow> file_content q w1 = file_content q w) \<and>
   (ok \<or> bs = [] \<longrightarrow> file_content p w1 = file_content p w @ bs)"
  by (auto simp: fs_write_close_def file_content_def Let_def split: prod.splits option.splits dest!: next_fault_eq)

text \<open>Some file of the buffer ends with the records \<open>rem\<close>.\<close>

definition survives :: "cstring \<Rightarrow> byte list list \<Rightarrow> 'd world \<Rightarrow> bool" where
  "survives p rem w \<longleftrightarrow>
     rem = [] \<or>
     (\<exists>q \<in> {p, p @ lit ''.flushing'', p @ lit ''.rest''}. \<exists>pre. records (file_content q w) = pre @ rem)"

lemma survivesI:
  "q \<in> {p, p @ lit ''.flushing'', p @ lit ''.rest''} \<Longrightarrow> records (file_content q w) = pre @ rem \<Longrightarrow> survives p rem w"
  unfolding survives_def by blast

lemma put_back:
  assumes "records (file_content (p @ lit ''.flushing'') w) = pre @ rem" "length p < 512"
    and "\<And>q. q \<noteq> p @ lit ''.rest'' \<Longrightarrow> file_content q w2 = file_content q (snd (fs_rename (p @ lit ''.flushing'') p w))"
  shows "survives p rem w2"
proof -
  let ?fl = "p @ lit ''.flushing''"
  note ne = companions(3-5)[OF assms(2)]
  obtain r w1 where r: "fs_rename ?fl p w = (r, w1)" by fastforce
  from content_rename[OF r] ne have "file_content ?fl w1 = file_content ?fl w \<or> file_content p w1 = file_content ?fl w"
    by (auto simp: file_content_def)
  moreover have "file_content ?fl w2 = file_content ?fl w1" "file_content p w2 = file_content p w1"
    using assms(3)[of ?fl] assms(3)[of p] ne r by auto
  ultimately show ?thesis
    using assms(1) survivesI[of p p w2 pre rem] survivesI[of ?fl p w2 pre rem] by auto
qed

lemma restore_survives:
  assumes rest: "records (file_content (p @ lit ''.rest'') w) = rem" and spill: "file_content p w = []"
    and p: "length p < 512"
  shows "survives p rem (snd (flush_restore p (p @ lit ''.flushing'') (p @ lit ''.rest'') w))"
proof -
  let ?rs = "p @ lit ''.rest''" and ?fl = "p @ lit ''.flushing''"
  note ne = companions(3-5)[OF p]
  obtain cur w1 where 1: "fs_open_read p w = (cur, w1)" by fastforce
  obtain out w2 where 2: "fs_open_append ?rs w1 = (out, w2)" by fastforce
  define w3 where "w3 = (if out \<and> cur then let (c, wa) = fs_read_all p w2 in snd (fs_write_close ?rs c wa) else w2)"
  define w4 where "w4 = snd (fs_unlink p w3)"
  obtain r w5 where 5: "fs_rename ?rs p w4 = (r, w5)" by fastforce
  have fc2: "file_content q w2 = file_content q w" for q
    using content_open_read[of q p w] content_open_append[of q ?rs w1] 1 2 by simp
  have fc3: "file_content ?rs w3 = file_content ?rs w"
  proof (cases "out \<and> cur")
    case True
    obtain c wa where c: "fs_read_all p w2 = (c, wa)" by fastforce
    obtain ok wb where wb: "fs_write_close ?rs c wa = (ok, wb)" by fastforce
    have "c = []" "file_content ?rs wa = file_content ?rs w2"
      using content_read_all[OF c] fc2 spill by (auto simp: file_content_def)
    moreover have "w3 = wb"
      using True by (simp add: w3_def c wb)
    ultimately show ?thesis
      using content_write_close[OF wb] fc2 by simp
  next
    case False
    then have "w3 = w2"
      unfolding w3_def by (rule if_not_P)
    then show ?thesis
      by (simp add: fc2)
  qed
  then have fc4: "file_content ?rs w4 = file_content ?rs w"
    using content_unlink[of ?rs p w3] ne by (simp add: w4_def)
  have eq: "snd (flush_restore p ?fl ?rs w) = (if r \<noteq> IoOk then w5 else snd (fs_unlink ?fl w5))"
    by (simp add: flush_restore_def 1 2 Let_def 5 flip: w3_def w4_def)
  show ?thesis
  proof (cases "r = IoOk")
    case True
    have "file_content p w5 = file_content ?rs w"
      using content_rename[OF 5] True ne fc4 by auto
    then show ?thesis
      using rest content_unlink[of p ?fl w5] ne True by (intro survivesI[of p _ _ "[]"]) (auto simp: eq)
  next
    case False
    then have "file_content ?rs w5 = file_content ?rs w"
      using content_rename[OF 5] ne fc4 by (auto simp: file_content_def)
    then show ?thesis
      using rest False by (intro survivesI[of ?rs _ _ "[]"]) (auto simp: eq)
  qed
qed

lemma stop_survives:
  assumes fl: "records (file_content (p @ lit ''.flushing'') w) = pre @ line # records after"
    and spill: "file_content p w = []" and line: "good_record line" and p: "length p < 512"
  shows "survives p (line # records after)
    (snd (flush_stop p (p @ lit ''.flushing'') (p @ lit ''.rest'') line after w))"
proof -
  let ?rs = "p @ lit ''.rest''" and ?fl = "p @ lit ''.flushing''"
  note ne = companions(3-5)[OF p]
  have [simp]: "cstr line = line"
    using line by (simp add: good_record_def is_cstr_def)
  obtain opened w1 where 1: "fs_open_trunc ?rs w = (opened, w1)" by fastforce
  have fc1: "file_content ?fl w1 = file_content ?fl w" "file_content p w1 = []"
    using content_open_trunc[OF 1] ne spill by metis+
  show ?thesis
  proof (cases opened)
    case False
    then show ?thesis
      using put_back[of p w1 pre _ "snd (fs_rename ?fl p w1)"] fl fc1 p by (simp add: flush_stop_def 1)
  next
    case True
    obtain ok w2 where 2: "fs_write_close ?rs (line @ 0x0a # after) w1 = (ok, w2)" by fastforce
    have fc2: "file_content ?fl w2 = file_content ?fl w" "file_content p w2 = []"
      using content_write_close[OF 2] fc1 ne by metis+
    show ?thesis
    proof (cases ok)
      case True
      then have "file_content ?rs w2 = line @ 0x0a # after"
        using content_write_close[OF 2, of ?rs] content_open_trunc[OF 1, of ?rs] \<open>opened\<close> by simp
      then show ?thesis
        using restore_survives[of p w2] fc2 p True \<open>opened\<close> line by (simp add: flush_stop_def 1 2 records_record)
    next
      case False
      then show ?thesis
        using \<open>opened\<close> put_back[of p w2 pre _ "snd (fs_unlink ?rs (snd (fs_rename ?fl p w2)))"] fl fc2 p
        by (simp add: flush_stop_def 1 2 content_unlink)
    qed
  qed
qed

text \<open>A process that exits in the middle of a flush leaves the whole claim behind.\<close>

lemma flush_loop_exit:
  "quiet fn \<Longrightarrow> flush_loop (logged fn) c (b, (u, lg), w) n = Inl w1 \<Longrightarrow> w_files w1 = w_files w"
proof (induction c arbitrary: b u lg w n rule: length_induct)
  case (1 c)
  note q = "1.prems"(1) and run = "1.prems"(2)
  have ne: "c \<noteq> []"
    using run by (auto simp: flush_loop.simps[of _ c])
  obtain raw after where split: "getline_split c = (raw, after)" by fastforce
  have len: "length after < length c"
    using getline_split_shrinks[OF ne split[symmetric]] .
  note IH = "1.IH"[rule_format, OF len q]
  show ?case
  proof (cases "strip_eol raw = []")
    case True
    then show ?thesis
      using run ne by (intro IH) (simp add: flush_loop.simps[of _ c] split)
  next
    case line: False
    show ?thesis
    proof (cases "fn (strip_eol raw) (b, u, w)")
      case (Inl w2)
      then show ?thesis
        using run ne line quiet_Inl[OF q Inl] by (simp add: flush_loop.simps[of _ c] split logged_def)
    next
      case (Inr x)
      obtain rc b2 u2 w2 where x: "x = (rc, b2, u2, w2)" by (cases x) auto
      have rc: "rc = 0"
        using run ne line by (cases "rc = 0") (simp_all add: flush_loop.simps[of _ c] split logged_def Inr x)
      then have "flush_loop (logged fn) after
          (b2\<lparr>db_flushed := db_flushed b2 + 1\<rparr>, (u2, lg @ [strip_eol raw]), w2) (n + 1) = Inl w1"
        using run ne line Inr x by (simp add: flush_loop.simps[of _ c] split logged_def count_flushed_def)
      from IH[OF this] quiet_Inr[OF q Inr[unfolded x]] show ?thesis by simp
    qed
  qed
qed

definition read_ok :: "'d world \<Rightarrow> bool" where
  "read_ok w \<longleftrightarrow> length (w_faults w) \<le> 2 \<or> w_faults w ! 2 = None"

text \<open>What a flush has not handed to the callback is still in one of its three files.\<close>

lemma flush_survives:
  assumes q: "quiet fn" and p: "length (db_spill_path b) < 512" and rd: "read_ok w"
    and c: "nl_ok (file_content (db_spill_path b) w)" "0 \<notin> set (file_content (db_spill_path b) w)"
  shows "case pw_db_buf_flush pq (logged fn) (b, (u, []), w) of
           Inl w1 \<Rightarrow> survives (db_spill_path b) (records (file_content (db_spill_path b) w)) w1
         | Inr (rc, b1, (u1, lg1), w1) \<Rightarrow>
             \<exists>rem. records (file_content (db_spill_path b) w) = lg1 @ rem \<and> survives (db_spill_path b) rem w1"
proof -
  let ?p = "db_spill_path b"
  let ?fl = "?p @ lit ''.flushing''" and ?rs = "?p @ lit ''.rest''"
  let ?cc = "file_content ?p w"
  note comp = companions[OF p]
  have same: "survives ?p (records ?cc) w'" if "file_content ?p w' = ?cc" for w'
    using that by (intro survivesI[of ?p _ _ "[]"]) auto
  have flush: "pw_db_buf_flush pq (logged fn) (b, (u, []), w) =
     (if \<not> db_online b \<or> db_conn b = None then Inr (- 1, b, (u, []), w)
      else if \<not> conn_ok pq (db_conn b) w then Inr (- 1, b\<lparr>db_online := False\<rparr>, (u, []), w)
      else case fs_rename ?p ?fl w of
            (IoNoEnt, w1) \<Rightarrow> Inr (0, b, (u, []), snd (fs_unlink ?rs (snd (fs_unlink ?fl w1))))
          | (IoErr, w1) \<Rightarrow> Inr (- 1, b, (u, []), w1)
          | (IoOk, w1) \<Rightarrow>
              (case fs_open_read ?fl w1 of (opened, w2) \<Rightarrow>
                 if \<not> opened then Inr (- 1, b, (u, []), snd (fs_rename ?fl ?p w2))
                 else case fs_read_all ?fl w2 of (c, w3) \<Rightarrow>
                   (case flush_loop (logged fn) c (b, (u, []), w3) 0 of
                      Inl w4 \<Rightarrow> Inl w4
                    | Inr (Some (line, after), consumed, b1, u1, w4) \<Rightarrow>
                        (case flush_stop ?p ?fl ?rs line after w4 of (rc, w5) \<Rightarrow> Inr (rc, b1, u1, w5))
                    | Inr (None, consumed, b1, u1, w4) \<Rightarrow>
                        Inr (0, b1, u1, snd (fs_unlink ?rs (snd (fs_unlink ?fl w4)))))))"
    unfolding pw_db_buf_flush_def prod.case Let_def comp(1,2) ..
  show ?thesis
  proof (cases "\<not> db_online b \<or> db_conn b = None \<or> \<not> conn_ok pq (db_conn b) w")
    case True
    then show ?thesis
      using same[of w] by (auto simp: flush)
  next
    case False
    then have go: "\<not> (\<not> db_online b \<or> db_conn b = None)" "\<not> \<not> conn_ok pq (db_conn b) w" by auto
    note flush = flush[unfolded if_not_P[OF go(1)] if_not_P[OF go(2)]]
    obtain r w1 where r: "fs_rename ?p ?fl w = (r, w1)" by fastforce
    note ren = content_rename[OF r comp(3)[symmetric]]
    show ?thesis
    proof (cases r)
      case IoNoEnt
      then have "?cc = []"
        using r by (auto simp: fs_rename_def file_content_def split: prod.splits if_splits option.splits dest!: next_fault_eq)
      then show ?thesis
        by (simp add: flush r IoNoEnt survives_def)
    next
      case IoErr
      then show ?thesis
        using ren same[of w1] by (simp add: flush r file_content_def)
    next
      case IoOk
      then have fl1: "file_content ?fl w1 = ?cc" "file_content ?p w1 = []"
        using ren by auto
      obtain opened w2 where o: "fs_open_read ?fl w1 = (opened, w2)" by fastforce
      have fl2: "file_content ?fl w2 = ?cc" "file_content ?p w2 = []"
        using fl1 o content_open_read[of ?fl ?fl w1] content_open_read[of ?p ?fl w1] by auto
      show ?thesis
      proof (cases opened)
        case False
        then show ?thesis
          using put_back[of ?p w2 "[]" "records ?cc" "snd (fs_rename ?fl ?p w2)"] fl2 p
          by (simp add: flush r IoOk o)
      next
        case True
        obtain c w3 where rda: "fs_read_all ?fl w2 = (c, w3)" by fastforce
        have c_eq: "c = ?cc"
          using rd r o rda IoOk True fl1
          by (auto simp: read_ok_def fs_rename_def fs_open_read_def fs_read_all_def next_fault_def
              file_content_def Let_def numeral_2_eq_2 nth_Cons' split: list.splits if_splits option.splits)
        have fl3: "file_content ?fl w3 = ?cc" "file_content ?p w3 = []"
          using content_read_all[OF rda] fl2 by (auto simp: file_content_def)
        show ?thesis
        proof (cases "flush_loop (logged fn) c (b, (u, []), w3) 0")
          case (Inl w4)
          then have "file_content ?fl w4 = ?cc"
            using flush_loop_exit[OF q Inl] fl3 by (simp add: file_content_def)
          then show ?thesis
            using survivesI[of ?fl ?p w4 "[]" "records ?cc"] by (simp add: flush r IoOk o True rda Inl)
        next
          case (Inr x)
          obtain res m b1 u1 lg1 w4 where x: "x = (res, m, b1, (u1, lg1), w4)"
            by (cases x) auto
          from flush_loop_records[OF q c[folded c_eq] Inr[unfolded x]] have
            fr: "w_files w4 = w_files w3" and
            res: "case res of None \<Rightarrow> records ?cc = lg1
              | Some (line, after) \<Rightarrow> records ?cc = lg1 @ line # records after \<and> good_record line"
            by (auto simp: c_eq split: option.splits)
          show ?thesis
          proof (cases res)
            case None
            then show ?thesis
              using res by (simp add: flush r IoOk o True rda Inr x survives_def)
          next
            case (Some la)
            obtain line after where la: "la = (line, after)" by (cases la)
            have "survives ?p (line # records after) (snd (flush_stop ?p ?fl ?rs line after w4))"
              using res fl3 fr p by (intro stop_survives[of _ _ lg1]) (auto simp: Some la file_content_def)
            then show ?thesis
              using res by (auto simp: flush r IoOk o True rda Inr x Some la split: prod.splits)
          qed
        qed
      qed
    qed
  qed
qed

end
