(* ===== verification/DbFrame.thy ===== *)
theory DbFrame
  imports DbOtlp SpillSpec
begin

text \<open>
  The database functions of \<^verbatim>\<open>src/db.c\<close> and \<^verbatim>\<open>src/agent/db_otlp.c\<close> reach the files, the failure script, the clock
  and the environment on no path, exits included: only the server state changes.  The rules compose along the code,
  from a world \<open>w0\<close> at the start.
\<close>

named_theorems io_keep "the world outside the database is left alone"

definition same_io :: "'d world \<Rightarrow> 'd world \<Rightarrow> bool" where
  "same_io w0 w \<longleftrightarrow> w_files w = w_files w0 \<and> w_faults w = w_faults w0 \<and> w_now w = w_now w0 \<and> w_env w = w_env w0"

lemma same_io_refl [io_keep]: "same_io w w"
  by (simp add: same_io_def)

definition keeps :: "'d world \<Rightarrow> ('a \<Rightarrow> bool) \<Rightarrow> 'd world + 'a \<Rightarrow> bool" where
  "keeps w0 P r = (case r of Inl w1 \<Rightarrow> same_io w0 w1 | Inr x \<Rightarrow> P x)"

lemma keeps_simps [simp]:
  "keeps w0 P (Inl w1) = same_io w0 w1"
  "keeps w0 P (Inr x) = P x"
  by (simp_all add: keeps_def)

lemma keeps_bind: "keeps w0 P m \<Longrightarrow> (\<And>x. P x \<Longrightarrow> keeps w0 Q (k x)) \<Longrightarrow> keeps w0 Q (and_then m k)"
  by (cases m) auto

lemma keeps_mono: "keeps w0 P m \<Longrightarrow> (\<And>x. P x \<Longrightarrow> Q x) \<Longrightarrow> keeps w0 Q m"
  by (cases m) auto

section \<open>Commands\<close>

lemma PQexec_keep: "same_io w0 w \<Longrightarrow> PQexec pq c q w = (r, w1) \<Longrightarrow> same_io w0 w1"
  by (auto simp: PQexec_def same_io_def split: prod.splits)

lemmas PQexec_keeps = PQexec_keep[rotated]

lemma PQprepare_keep: "same_io w0 w \<Longrightarrow> PQprepare pq c s q n w = (r, w1) \<Longrightarrow> same_io w0 w1"
  by (auto simp: PQprepare_def same_io_def split: prod.splits)

lemma PQexecPrepared_keep: "same_io w0 w \<Longrightarrow> PQexecPrepared pq c s v w = (r, w1) \<Longrightarrow> same_io w0 w1"
  by (auto simp: PQexecPrepared_def same_io_def split: prod.splits)

lemma exec_warn_keep [io_keep]: "same_io w0 w \<Longrightarrow> same_io w0 (exec_warn pq c q w)"
  using PQexec_keep[of w0 w pq c q] by (cases "PQexec pq c q w") (simp add: exec_warn_def)

lemma exec_or_exit_keep [io_keep]: "same_io w0 w \<Longrightarrow> keeps w0 (same_io w0) (exec_or_exit pq c q w)"
  using PQexec_keep[of w0 w pq c q] by (auto simp: exec_or_exit_def split: prod.splits)

lemma esc_keep [io_keep]:
  "same_io w0 w \<Longrightarrow> keeps w0 (\<lambda>_. True) (esc_ident pq c s w)"
  "same_io w0 w \<Longrightarrow> keeps w0 (\<lambda>_. True) (esc_lit pq c s w)"
  by (simp_all add: esc_ident_def esc_lit_def split: option.splits)

section \<open>Schemas and tables\<close>

lemma try_enable_keep [io_keep]: "same_io w0 w \<Longrightarrow> same_io w0 (db_try_enable_timescaledb pq c w)"
  by (simp add: db_try_enable_timescaledb_def exec_warn_keep)

lemma make_qualified_keep [io_keep]: "same_io w0 w \<Longrightarrow> keeps w0 (\<lambda>_. True) (db_make_qualified pq c s t w)"
  unfolding db_make_qualified_def by (intro keeps_bind[OF esc_keep(1)]) simp_all

lemma table_exists_keep [io_keep]:
  "same_io w0 w \<Longrightarrow> keeps w0 (\<lambda>(b, w1). same_io w0 w1) (db_table_exists pq c s t w)"
  unfolding db_table_exists_def
  by (intro keeps_bind[OF esc_keep(2)]) (auto split: prod.splits pq_result.splits dest: PQexec_keep)

lemma ensure_schema_keep [io_keep]: "same_io w0 w \<Longrightarrow> keeps w0 (same_io w0) (db_ensure_schema pq c s w)"
  unfolding db_ensure_schema_def
  by (intro keeps_bind[OF esc_keep(1)] keeps_bind[OF exec_or_exit_keep]) (simp_all add: io_keep)

lemma tracker_objects_keep [io_keep]:
  "same_io w0 w \<Longrightarrow> keeps w0 (same_io w0) (db_ensure_tracker_objects g pq c s w)"
  unfolding db_ensure_tracker_objects_def
  by (intro keeps_bind[OF make_qualified_keep] keeps_bind[OF esc_keep(1)] keeps_bind[OF exec_or_exit_keep]) (simp_all add: io_keep)

lemma register_keep [io_keep]:
  "same_io w0 w \<Longrightarrow> keeps w0 (same_io w0) (db_register_new_table_in_tracker pq c s t w)"
  unfolding db_register_new_table_in_tracker_def
  by (intro keeps_bind[OF make_qualified_keep] keeps_bind[OF esc_keep(2)]) (simp_all add: io_keep)

lemma triggers_keep [io_keep]:
  "same_io w0 w \<Longrightarrow> keeps w0 (same_io w0) (db_create_activity_triggers_for_table pq c s t w)"
  unfolding db_create_activity_triggers_for_table_def Let_def
  by (intro keeps_bind[OF make_qualified_keep] keeps_bind[OF esc_keep(1)]) (simp_all add: io_keep)

lemma track_keep [io_keep]: "same_io w0 w \<Longrightarrow> keeps w0 (same_io w0) (track_new_table g pq c s t w)"
  unfolding track_new_table_def
  by (intro keeps_bind[OF tracker_objects_keep] keeps_bind[OF register_keep]) (simp_all add: io_keep)

lemma ensure_table_keep [io_keep]: "same_io w0 w \<Longrightarrow> keeps w0 (same_io w0) (db_ensure_table g pq c s t w)"
  unfolding db_ensure_table_def Let_def
  by (auto intro!: keeps_bind[OF table_exists_keep] keeps_bind[OF ensure_schema_keep] keeps_bind[OF make_qualified_keep]
      keeps_bind[OF exec_or_exit_keep] keeps_bind[OF esc_keep(2)] io_keep split: prod.splits)

lemma prepare_insert_keep [io_keep]:
  "same_io w0 w \<Longrightarrow> keeps w0 (same_io w0) (db_prepare_insert pq c s t n w)"
  unfolding db_prepare_insert_def
  by (auto intro!: keeps_bind[OF make_qualified_keep] split: prod.splits dest: PQprepare_keep)

lemma insert_sample_keep: "same_io w0 w \<Longrightarrow> db_insert_sample pq conn n pid cpu rss w = (rc, w1) \<Longrightarrow> same_io w0 w1"
  by (auto simp: db_insert_sample_def split: option.splits prod.splits if_splits dest: PQexecPrepared_keep)

lemma drop_job_keep [io_keep]:
  "same_io w0 w \<Longrightarrow> keeps w0 (same_io w0) (db_ensure_drop_inactive_job pq c s w)"
  unfolding db_ensure_drop_inactive_job_def Let_def
  by (auto intro!: keeps_bind[OF make_qualified_keep] io_keep split: option.splits prod.splits pq_result.splits
      dest: PQexec_keep elim!: PQexec_keeps)

section \<open>Labelled storage\<close>

lemma hypertable_keep [io_keep]: "same_io w0 w \<Longrightarrow> same_io w0 (hypertable_and_retention g pq c s t w)"
  by (auto simp: hypertable_and_retention_def Let_def intro!: io_keep split: option.splits)

lemma create_index_keep [io_keep]: "same_io w0 w \<Longrightarrow> same_io w0 (create_index pq c i q col w)"
  by (auto simp: create_index_def intro!: io_keep split: option.splits)

lemma ensure_table_with_keep:
  assumes "same_io w0 w" "\<And>q w. same_io w0 w \<Longrightarrow> same_io w0 (after q w)"
  shows "keeps w0 (same_io w0) (ensure_table_with g pq c s t create after w)"
  using assms unfolding ensure_table_with_def Let_def
  by (auto intro!: keeps_bind[OF table_exists_keep] keeps_bind[OF ensure_schema_keep] keeps_bind[OF make_qualified_keep]
      io_keep split: prod.splits) (meson PQexec_keeps try_enable_keep)+

lemma label_tables_keep [io_keep]:
  "same_io w0 w \<Longrightarrow> keeps w0 (same_io w0) (ensure_span_table g pq c s l w)"
  "same_io w0 w \<Longrightarrow> keeps w0 (same_io w0) (ensure_metric_table g pq c s l w)"
  "same_io w0 w \<Longrightarrow> keeps w0 (same_io w0) (ensure_otel_metric_table g pq c s l w)"
  unfolding ensure_span_table_def ensure_metric_table_def ensure_otel_metric_table_def Let_def
  by (auto intro!: ensure_table_with_keep io_keep)

lemma prepare_keep [io_keep]:
  "same_io w0 w \<Longrightarrow> keeps w0 (same_io w0) (prepare_span pq c s l n w)"
  "same_io w0 w \<Longrightarrow> keeps w0 (same_io w0) (prepare_metric pq c s l n w)"
  "same_io w0 w \<Longrightarrow> keeps w0 (same_io w0) (prepare_otel_metric pq c s l n w)"
  unfolding prepare_span_def prepare_metric_def prepare_otel_metric_def
  by (auto intro!: keeps_bind[OF make_qualified_keep] PQprepare_keep[OF _ surjective_pairing])

lemma prepare_label_keep [io_keep]: "same_io w0 w \<Longrightarrow> keeps w0 (same_io w0) (prepare_label g pq c s l e w)"
  unfolding prepare_label_def
  by (intro keeps_bind[OF label_tables_keep(1)] keeps_bind[OF label_tables_keep(2)] keeps_bind[OF label_tables_keep(3)]
      keeps_bind[OF prepare_keep(1)] keeps_bind[OF prepare_keep(2)] prepare_keep(3))

lemma ensure_label_keep:
  "same_io w0 w \<Longrightarrow> keeps w0 (\<lambda>(rc, cache1, w1). same_io w0 w1) (db_ensure_label g pq conn s l cache w)"
  unfolding db_ensure_label_def Let_def
  by (auto intro!: keeps_bind[OF prepare_label_keep] split: option.splits)

lemma insert_labeled_keep:
  "same_io w0 w \<Longrightarrow> insert_labeled pq cache conn l stmt vals w = (rc, w1) \<Longrightarrow> same_io w0 w1"
  by (auto simp: insert_labeled_def split: option.splits prod.splits if_splits dest: PQexecPrepared_keep)

lemma inserts_keep:
  "same_io w0 w \<Longrightarrow> db_insert_span pq cache conn sp w = (rc, w1) \<Longrightarrow> same_io w0 w1"
  "same_io w0 w \<Longrightarrow> db_insert_metric_labeled pq cache conn m w = (rc, w1) \<Longrightarrow> same_io w0 w1"
  "same_io w0 w \<Longrightarrow> db_insert_otel_metric pq cache conn p w = (rc, w1) \<Longrightarrow> same_io w0 w1"
  by (auto simp: db_insert_span_def db_insert_metric_labeled_def db_insert_otel_metric_def dest: insert_labeled_keep)

end
