(* ===== verification/CallbackProps.thy ===== *)
theory CallbackProps
  imports Agentd Monitor DbFrame
begin

text \<open>
  The two replay callbacks of the program -- \<open>replay_line\<close> of \<^verbatim>\<open>src/agent/agentd.c\<close> and \<open>replay_sample\<close> of
  \<^verbatim>\<open>src/main.c\<close> -- meet what the spill buffer relies on.
\<close>

definition untouched :: "pw_db_buf \<Rightarrow> 'd world \<Rightarrow> int \<times> ('d, 'u) spill_st \<Rightarrow> bool" where
  "untouched b w0 = (\<lambda>(rc, b1, u1, w1). db_spill_path b1 = db_spill_path b \<and> same_io w0 w1)"

lemma untouched_simp [simp]: "untouched b w0 (rc, b1, u1, w1) \<longleftrightarrow> db_spill_path b1 = db_spill_path b \<and> same_io w0 w1"
  by (simp add: untouched_def)

lemma keeps_quiet:
  assumes "\<And>line b u w. keeps w (untouched b w) (fn line (b, u, w))"
  shows "quiet fn"
  unfolding quiet_def
proof (intro allI)
  fix line b u w
  show "case fn line (b, u, w) of
          Inl w1 \<Rightarrow> w_files w1 = w_files w
        | Inr (rc, b1, u1, w1) \<Rightarrow>
            db_spill_path b1 = db_spill_path b \<and> w_files w1 = w_files w \<and> w_faults w1 = w_faults w"
    using assms[of w b line u] by (auto simp: keeps_def same_io_def split: sum.splits)
qed

lemma agent_ensure_label_keep:
  "same_io w0 w \<Longrightarrow>
   keeps w0 (\<lambda>(rc, b1, u1, w1). b1 = b \<and> same_io w0 w1) (agent_ensure_label pq label (b, u, w))"
  unfolding agent_ensure_label_def by (auto intro!: keeps_bind[OF ensure_label_keep])

lemma replay_insert_keep:
  assumes "\<And>cache conn w rc w1. same_io w0 w \<Longrightarrow> ins cache conn w = (rc, w1) \<Longrightarrow> same_io w0 w1" "same_io w0 w"
  shows "keeps w0 (untouched b w0)
    (replay_insert pq label ins written (b, u, w))"
  unfolding replay_insert_def
  by (rule keeps_bind[OF agent_ensure_label_keep[OF assms(2)]]) (auto split: prod.splits intro: assms(1))

lemma replay_line_quiet: "quiet (replay_line pq)"
proof (rule keeps_quiet)
  fix line b u w
  show "keeps w (untouched b w) (replay_line pq line (b, u, w))"
    unfolding replay_line_def Let_def
    by (auto simp: io_keep intro!: replay_insert_keep split: option.splits dest: inserts_keep)
qed

lemma ensure_prepared_keep:
  "same_io w0 w \<Longrightarrow>
   keeps w0 (\<lambda>(rc, b1, ctx1, w1). b1 = b \<and> same_io w0 w1) (ensure_prepared pq (b, ctx, w))"
  unfolding ensure_prepared_def
  by (auto intro!: keeps_bind[OF ensure_table_keep] keeps_bind[OF drop_job_keep] keeps_bind[OF prepare_insert_keep]
      split: option.splits)

lemma replay_sample_quiet: "quiet (replay_sample pq)"
proof (rule keeps_quiet)
  fix line b u w
  show "keeps w (untouched b w) (replay_sample pq line (b, u, w))"
    unfolding replay_sample_def
    by (rule keeps_bind[OF ensure_prepared_keep[OF same_io_refl]])
      (auto split: option.splits prod.splits dest: insert_sample_keep)
qed

text \<open>C30. Both replay callbacks keep the contract under which the spill buffer loses nothing: whatever the line, the server
  and the state, no path through them, the exits included, touches a file or the path of the buffer.\<close>

theorem replay_callbacks_quiet: "quiet (replay_line pq) \<and> quiet (replay_sample pq)"
  by (simp add: replay_line_quiet replay_sample_quiet)

end
