(* ===== verification/LineFields.thy ===== *)
theory LineFields
  imports JsonLine
begin

text \<open>
  Record fields on their way through a JSON line: what the escaping arrays leave of them, and the
  keys that the lines and request bodies of the program use.
\<close>

section \<open>Fields through a line\<close>

text \<open>What escaping into an array leaves to be escaped: an overflow empties the field.\<close>

definition fit :: "nat \<Rightarrow> cstring \<Rightarrow> cstring" where
  "fit cap s = (if length (json_esc s) < cap then s else [])"

lemma esc_fit: "esc cap s = json_esc (fit cap s)"
  by (simp add: esc_def fit_def pw_json_escape_eq)

lemma fit_nul: "0 \<notin> set s \<Longrightarrow> 0 \<notin> set (fit cap s)"
  by (simp add: fit_def)

lemma length_esc_fit: "0 < cap \<Longrightarrow> length (json_esc (fit cap s)) < cap"
  by (simp add: fit_def)

definition printable :: "nat \<Rightarrow> cstring \<Rightarrow> bool" where
  "printable cap s \<longleftrightarrow> length s < cap \<and> (\<forall>c\<in>set s. 0x20 \<le> c)"

lemma length_esc_printable:
  "(\<And>c. c \<in> set s \<Longrightarrow> 0x20 \<le> c) \<Longrightarrow> length (json_esc s) \<le> 2 * length s"
proof (induction s)
  case (Cons c s)
  have "0x20 \<le> c" using Cons.prems by simp
  then have "length (case json_rep c of Some rep \<Rightarrow> rep | None \<Rightarrow> [c]) \<le> 2"
    by (auto simp: json_rep_def word_le_nat_alt word_less_nat_alt)
  then show ?case using Cons by simp
qed simp

lemma printableD:
  assumes "printable cap s" "2 * cap \<le> ecap"
  shows "fit ecap s = s" "kept s = s" "0 \<notin> set s" "length s < cap"
proof -
  have p: "\<And>c. c \<in> set s \<Longrightarrow> 0x20 \<le> c" and len: "length s < cap"
    using assms(1) by (auto simp: printable_def)
  show "fit ecap s = s"
    using length_esc_printable[of s] p len assms(2) by (simp add: fit_def)
  show "kept s = s" using p by (rule kept_clean)
  show "0 \<notin> set s" using p by fastforce
qed (use assms in \<open>simp add: printable_def\<close>)

lemma identifier_plain:
  assumes "validate_identifier s"
  shows "json_esc s = s" "printable 100 s"
proof -
  have c: "isalnum c \<or> c = 0x5f" if "c \<in> set s" for c
    using assms that by (auto simp: validate_identifier_def list_all_iff split: if_splits)
  show "json_esc s = s"
  proof (rule json_esc_plain)
    fix x assume "x \<in> set s"
    from c[OF this] show "json_rep x = None"
      by (auto simp: json_rep_def isalnum_def word_le_nat_alt word_less_nat_alt)
  qed
  have "0x20 \<le> x" if "x \<in> set s" for x
    using c[OF that] by (auto simp: isalnum_def word_le_nat_alt)
  then show "printable 100 s"
    using assms by (auto simp: printable_def validate_identifier_def split: if_splits)
qed

section \<open>The keys of the lines\<close>

lemma keys_ok:
  "list_all key_ok (map lit [''k'', ''schema'', ''label'', ''service'', ''container_id'', ''pod'', ''pid'', ''comm'',
     ''runtime'', ''cpu'', ''rss'', ''threads'', ''ts'', ''trace_id'', ''span_id'', ''parent_span_id'', ''name'', ''kind'',
     ''service_name'', ''scope_name'', ''duration_ns'', ''status_code'', ''status_message'', ''attributes'',
     ''metric_name'', ''metric_type'', ''description'', ''unit'', ''value'', ''count'', ''cpu_pct'', ''rss_kb''])"
  by code_simp

lemmas key_facts = keys_ok[simplified]

lemma kinds_plain:
  "json_esc (lit ''metric'') = lit ''metric''" "json_esc (lit ''span'') = lit ''span''"
  "0 \<notin> set (lit ''metric'')" "0 \<notin> set (lit ''span'')"
  by code_simp+

lemma value_ok_plain: "json_esc s = s \<Longrightarrow> 0 \<notin> set s \<Longrightarrow> value_ok (quoted s)"
  using value_ok_quoted[of s] by simp

lemma length_json_member [simp]: "length (json_member (k, v)) = length k + length v + 3"
  by (simp add: json_member_def)

lemma length_quoted [simp]: "length (quoted s) = length s + 2"
  by (simp add: quoted_def)

end
