(* ===== verification/SbLemmas.thy ===== *)
theory SbLemmas
  imports OtlpCommon
begin

text \<open>
  Facts about the bounded string builder of \<^verbatim>\<open>src/agent/otlp_common.c\<close>.  An operation
  \<open>grows\<close> a builder: it keeps the capacity and what was written, never fills the last byte and
  never clears the overflow flag.  It \<open>emits\<close> a text when it appends exactly that text to every
  builder with room for it.  Both notions compose, so each decoder needs one line.
\<close>

section \<open>Growth\<close>

definition sb_ok :: "pw_sb \<Rightarrow> bool" where
  "sb_ok sb \<longleftrightarrow> length (sb_buf sb) < sb_cap sb"

definition sb_le :: "pw_sb \<Rightarrow> pw_sb \<Rightarrow> bool" where
  "sb_le sb sb' \<longleftrightarrow>
     sb_cap sb' = sb_cap sb \<and> take (length (sb_buf sb)) (sb_buf sb') = sb_buf sb \<and>
     (sb_overflow sb \<longrightarrow> sb_overflow sb') \<and> (sb_ok sb \<longrightarrow> sb_ok sb')"

lemma sb_le_refl [simp, intro]: "sb_le sb sb"
  by (simp add: sb_le_def)

lemma sb_le_length: "sb_le a b \<Longrightarrow> length (sb_buf a) \<le> length (sb_buf b)"
  unfolding sb_le_def by (metis length_take min.cobounded1)

lemma sb_le_trans [trans]: "sb_le a b \<Longrightarrow> sb_le b c \<Longrightarrow> sb_le a c"
proof -
  assume ab: "sb_le a b" and bc: "sb_le b c"
  have "take (length (sb_buf a)) (sb_buf c) = take (length (sb_buf a)) (take (length (sb_buf b)) (sb_buf c))"
    using sb_le_length[OF ab] by (simp add: min_def)
  also have "\<dots> = sb_buf a"
    using ab bc by (simp add: sb_le_def)
  finally show ?thesis
    using ab bc by (auto simp: sb_le_def)
qed

lemma sb_le_ok: "sb_le a b \<Longrightarrow> sb_ok a \<Longrightarrow> sb_ok b"
  by (simp add: sb_le_def)

lemma sb_le_putc [intro]: "sb_le sb (pw_sb_putc sb c)"
  by (auto simp: sb_le_def pw_sb_putc_def sb_ok_def)

lemma sb_le_puts [intro]: "sb_le sb (pw_sb_puts sb s)"
  by (induction sb s rule: pw_sb_puts.induct) (auto intro: sb_le_trans sb_le_putc)

lemma sb_le_json_loop: "sb_le sb (json_loop sb s)"
proof (induction sb s rule: json_loop.induct)
  case (1 sb s)
  show ?case
    using "1.IH" by (subst json_loop.simps) (auto split: prod.splits intro: sb_le_trans sb_le_puts)
qed

lemma sb_le_json_string [intro]: "sb_le sb (pw_sb_json_string sb s)"
  unfolding pw_sb_json_string_def by (meson sb_le_trans sb_le_putc sb_le_json_loop)

text \<open>
  Rolling back to the length before an operation that grew the builder restores what was there
  (the overflow flag aside).
\<close>

lemma sb_rollback_buf: "sb_le sb sb' \<Longrightarrow> sb_buf (sb_rollback (length (sb_buf sb)) sb') = sb_buf sb"
  by (simp add: sb_rollback_def sb_le_def)

lemma sb_le_rollback: "sb_le sb sb' \<Longrightarrow> sb_le sb (sb_rollback (length (sb_buf sb)) sb')"
  by (auto simp: sb_rollback_def sb_le_def sb_ok_def)

section \<open>Emission\<close>

definition emits :: "(pw_sb \<Rightarrow> pw_sb) \<Rightarrow> byte list \<Rightarrow> bool" where
  "emits f out \<longleftrightarrow>
     (\<forall>sb. length (sb_buf sb) + length out < sb_cap sb \<longrightarrow>
        sb_buf (f sb) = sb_buf sb @ out \<and> sb_cap (f sb) = sb_cap sb)"

lemma emitsD:
  "emits f out \<Longrightarrow> length (sb_buf sb) + length out < sb_cap sb \<Longrightarrow>
   sb_buf (f sb) = sb_buf sb @ out \<and> sb_cap (f sb) = sb_cap sb"
  by (simp add: emits_def)

lemma emits_id [intro]: "emits (\<lambda>sb. sb) []"
  by (simp add: emits_def)

lemma emits_comp:
  assumes "emits f a" and "emits g b"
  shows "emits (\<lambda>sb. g (f sb)) (a @ b)"
  using assms by (auto simp: emits_def)

lemma emits_putc [intro]: "emits (\<lambda>sb. pw_sb_putc sb c) [c]"
  by (auto simp: emits_def pw_sb_putc_def)

lemma emits_puts [intro]: "emits (\<lambda>sb. pw_sb_puts sb s) s"
proof (induction s)
  case (Cons c s)
  then show ?case
    using emits_comp[OF emits_putc[of c] Cons] by simp
qed (simp add: emits_def)

text \<open>The escaped text of a JSON string, without the builder.\<close>

function json_text :: "byte list \<Rightarrow> byte list" where
  "json_text s = (if s = [] then [] else case json_step s of (out, n) \<Rightarrow> out @ json_text (drop n s))"
  by pat_completeness auto
termination
  by (relation "measure length") (auto dest: json_step_pos2)

declare json_text.simps [simp del]

definition json_quote :: "byte list \<Rightarrow> byte list" where
  "json_quote s = 0x22 # json_text s @ [0x22]"

lemma json_text_Nil [simp]: "json_text [] = []"
  by (simp add: json_text.simps)

lemma emits_json_loop: "emits (\<lambda>sb. json_loop sb s) (json_text s)"
proof (induction s rule: json_text.induct)
  case (1 s)
  show ?case
  proof (cases "s = []")
    case True
    then show ?thesis by (simp add: emits_def json_loop.simps)
  next
    case False
    obtain out n where st: "json_step s = (out, n)"
      by (cases "json_step s")
    from False st have "json_loop sb s = json_loop (pw_sb_puts sb out) (drop n s)" for sb
      by (simp add: json_loop.simps)
    moreover have "json_text s = out @ json_text (drop n s)"
      using False st by (subst json_text.simps) simp
    ultimately show ?thesis
      using emits_comp[OF emits_puts[of out] "1.IH"[OF False st[symmetric]]] by simp
  qed
qed

lemma emits_json_string [intro]: "emits (\<lambda>sb. pw_sb_json_string sb s) (json_quote s)"
proof -
  have "emits (\<lambda>sb. pw_sb_putc (json_loop (pw_sb_putc sb 0x22) s) 0x22) ([0x22] @ (json_text s @ [0x22]))"
    using emits_comp[OF emits_putc emits_comp[OF emits_json_loop emits_putc]] by simp
  then show ?thesis
    by (simp add: pw_sb_json_string_def json_quote_def)
qed

section \<open>The decoders grow the builder\<close>

lemma sb_le_putc' [simp, intro]: "sb_le a sb \<Longrightarrow> sb_le a (pw_sb_putc sb c)"
  by (rule sb_le_trans[OF _ sb_le_putc])

lemma sb_le_puts' [simp, intro]: "sb_le a sb \<Longrightarrow> sb_le a (pw_sb_puts sb s)"
  by (rule sb_le_trans[OF _ sb_le_puts])

lemma sb_le_json_string' [simp, intro]: "sb_le a sb \<Longrightarrow> sb_le a (pw_sb_json_string sb s)"
  by (rule sb_le_trans[OF _ sb_le_json_string])

lemma sb_le_rollback' [intro]:
  "sb_le a sb \<Longrightarrow> sb_le sb sb' \<Longrightarrow> sb_le a (sb_rollback (length (sb_buf sb)) sb')"
  by (rule sb_le_trans[OF _ sb_le_rollback])

text \<open>Stated from an arbitrary earlier builder \<open>a\<close>, every step of the induction is one rule.\<close>

lemma any_value_grows':
  "sb_le a sb \<Longrightarrow> sb_le a (decode_any_value r sb d)"
  "sb_le a sb \<Longrightarrow> sb_le a (fst (any_value_loop r sb d w))"
  "sb_le a sb \<Longrightarrow> sb_le a (decode_value_list r sb d)"
  "sb_le a sb \<Longrightarrow> sb_le a (value_list_loop r sb d f)"
  "sb_le a sb \<Longrightarrow> sb_le a (decode_kvlist r sb d)"
  "sb_le a sb \<Longrightarrow> sb_le a (kvlist_loop r sb d f)"
  "sb_le a sb \<Longrightarrow> sb_le a (snd (pw_append_kv_json r sb d))"
proof (induction r sb d and r sb d w and r sb d and r sb d f and r sb d and r sb d f and r sb d
    arbitrary: a and a and a and a and a and a and a
    rule: decode_any_value_any_value_loop_decode_value_list_value_list_loop_decode_kvlist_kvlist_loop_pw_append_kv_json.induct)
  case (1 r sb depth)
  then show ?case
    by (subst decode_any_value.simps) (fastforce split: prod.splits)
next
  case (2 r sb depth wrote)
  note IH = "2.IH" and prem = "2.prems"
  show ?case
  proof (cases "pb_next r")
    case (PbTag tag r1)
    show ?thesis
      unfolding any_value_loop.simps[of r sb depth wrote] PbTag pb_next_result.case
      by (simp split: option.split add: prem IH[OF PbTag])
  qed (use prem in \<open>simp_all add: any_value_loop.simps[of r sb depth wrote]\<close>)
next
  case (3 r sb depth)
  then show ?case
    by (subst decode_value_list.simps) simp
next
  case (4 r sb depth first)
  then show ?case
    by (subst value_list_loop.simps) (auto split: pb_next_result.split option.split)
next
  case (5 r sb depth)
  then show ?case
    by (subst decode_kvlist.simps) simp
next
  case (6 r sb depth first)
  note IH = "6.IH" and prem = "6.prems"
  show ?case
  proof (cases "pb_next r")
    case (PbTag tag r1)
    show ?thesis
    proof (cases "is_field tag F_LIST_VALUES PB_WIRE_BYTES")
      case True
      note field = True
      show ?thesis
      proof (cases "pb_submsg r1")
        case (Some p)
        obtain kv r2 where p: "p = (kv, r2)"
          by (cases p)
        define sb0 where "sb0 = (if \<not> first then pw_sb_putc sb 0x2c else sb)"
        obtain wrote sb1 where ap: "pw_append_kv_json kv sb0 depth = (wrote, sb1)"
          by (cases "pw_append_kv_json kv sb0 depth")
        have "sb_le sb sb0"
          by (simp add: sb0_def)
        then have le: "sb_le sb sb1"
          using IH(1)[OF PbTag field Some p[symmetric], of sb] by (simp add: ap flip: sb0_def)
        note IH' = IH(2,3)[OF PbTag field Some p[symmetric], folded sb0_def, OF ap[symmetric]]
        show ?thesis
          using prem le IH' sb_le_trans[OF prem le] sb_le_rollback'[OF prem le]
          by (simp add: kvlist_loop.simps[of r sb depth first] PbTag field Some p ap flip: sb0_def)
      qed (use prem field PbTag in \<open>simp add: kvlist_loop.simps[of r sb depth first]\<close>)
    next
      case False
      then show ?thesis
        using prem IH(4)[OF PbTag False]
        by (auto simp: kvlist_loop.simps[of r sb depth first] PbTag split: option.split)
    qed
  qed (use prem in \<open>simp_all add: kvlist_loop.simps[of r sb depth first]\<close>)
next
  case (7 kv sb depth)
  then show ?case
    by (subst pw_append_kv_json.simps) (auto simp: Let_def split: option.splits prod.splits)
qed

end
