(* ===== verification/CleanText.thy ===== *)
theory CleanText
  imports SbLemmas NumText
begin

text \<open>
  Text without control characters.  Numbers as \<^verbatim>\<open>printf\<close> writes them are clean, so is every
  escaped string, and a builder stays clean through the decoders of \<^verbatim>\<open>src/agent/otlp_common.c\<close>:
  the interface for that is the locale \<open>builder_inv\<close>, an invariant of the builder kept by
  printable characters and by roll-backs.
\<close>

unbundle bit_operations_syntax

definition clean :: "byte list \<Rightarrow> bool" where
  "clean bs \<longleftrightarrow> (\<forall>c\<in>set bs. 0x20 \<le> c)"

named_theorems clean_intros "texts without control characters"

lemma clean_simps [simp]:
  "clean []"
  "clean (c # s) \<longleftrightarrow> 0x20 \<le> c \<and> clean s"
  "clean (s @ t) \<longleftrightarrow> clean s \<and> clean t"
  by (auto simp: clean_def)

lemma clean_concat: "(\<And>s. s \<in> set ss \<Longrightarrow> clean s) \<Longrightarrow> clean (concat ss)"
  by (auto simp: clean_def)

lemma clean_take [intro, simp]: "clean s \<Longrightarrow> clean (take n s)"
  by (auto simp: clean_def dest: in_set_takeD)

lemma clean_drop [intro, simp]: "clean s \<Longrightarrow> clean (drop n s)"
  by (auto simp: clean_def dest: in_set_dropD)

lemma clean_is_cstr: "clean s \<Longrightarrow> is_cstr s"
  by (force simp: clean_def is_cstr_def)

lemma clean_no_newline: "clean s \<Longrightarrow> 0x0a \<notin> set s"
  by (force simp: clean_def)

lemma clean_lit: "(\<And>c. c \<in> set s \<Longrightarrow> 0x20 \<le> (of_char c :: byte)) \<Longrightarrow> clean (lit s)"
  by (auto simp: clean_def lit_def)

lemma clean_replicate [simp]: "clean (replicate n c) \<longleftrightarrow> n = 0 \<or> 0x20 \<le> c"
  by (auto simp: clean_def)

section \<open>Numbers\<close>

lemma clean_number: "number_text s \<Longrightarrow> clean s"
  by (fastforce simp: number_text_def clean_def is_digit_def word_le_nat_alt)

lemma clean_numbers [simp]:
  "clean (dec_int i)" "clean (dec_nat n)" "clean (fmt_g p d)" "clean (fmt_f p d)"
  by (simp_all add: clean_number)

lemma hex_digit_clean: "0x20 \<le> hex_digit (b AND 0x0f)" "0x20 \<le> hex_digit (drop_bit 4 b)"
proof -
  have all: "\<forall>n\<in>set [0..<16]. 0x20 \<le> hex_digit (word_of_nat n)"
    by code_simp
  have "unat (b AND 0x0f) \<le> unat (0x0f :: byte)"
    using word_and_le1[of b "0x0f"] by (simp add: word_le_nat_alt)
  then have "unat (b AND 0x0f) \<in> set [0..<16]" by simp
  with all have "0x20 \<le> hex_digit (word_of_nat (unat (b AND 0x0f)))" by blast
  then show "0x20 \<le> hex_digit (b AND 0x0f)" by simp
  have b: "unat b < 256"
    using unsigned_less[of b] by simp
  have "unat (drop_bit 4 b) = unat b div 16"
    by (simp add: drop_bit_eq_div unat_div)
  then have "unat (drop_bit 4 b) \<in> set [0..<16]"
    using b by auto
  with all have "0x20 \<le> hex_digit (word_of_nat (unat (drop_bit 4 b)))" by blast
  then show "0x20 \<le> hex_digit (drop_bit 4 b)" by simp
qed

lemma clean_hex04 [simp]: "clean (hex04 c)"
  by (simp add: hex04_def hex_digit_clean)

lemma clean_to_hex [simp]: "clean (pw_to_hex n src)"
  by (auto simp: pw_to_hex_def hex_digit_clean intro!: clean_concat)

section \<open>Builders\<close>

locale builder_inv =
  fixes P :: "pw_sb \<Rightarrow> bool"
  assumes putc: "P sb \<Longrightarrow> 0x20 \<le> c \<Longrightarrow> P (pw_sb_putc sb c)"
    and rollback: "P sb \<Longrightarrow> P (sb_rollback n sb)"
begin

lemma puts: "P sb \<Longrightarrow> clean s \<Longrightarrow> P (pw_sb_puts sb s)"
  by (induction sb s rule: pw_sb_puts.induct) (auto intro: putc)

lemma json_step_clean: "s \<noteq> [] \<Longrightarrow> json_step s = (out, n) \<Longrightarrow> clean out"
proof -
  assume ne: "s \<noteq> []" and st: "json_step s = (out, n)"
  obtain c t where s: "s = c # t" using ne by (cases s) auto
  have u: "clean (take (utf8_seq_len s) s)" if "utf8_seq_len s \<noteq> 0" "\<not> c < 0x80"
  proof -
    have "utf8_need c \<noteq> 1"
      using that(2) by (auto simp: utf8_need_def split: if_splits)
    then have n: "utf8_seq_len s = utf8_need c" "list_all (\<lambda>b. b AND 0xc0 = 0x80) (take (utf8_need c - 1) t)"
        "utf8_need c > 1"
      using that(1) by (auto simp: utf8_seq_len_def s Let_def split: if_splits)
    have "0x20 \<le> b" if "b AND 0xc0 = 0x80" for b :: byte
    proof -
      have "0x80 \<le> b" using word_and_le2[of b "0xc0"] that by simp
      then show ?thesis by (simp add: word_le_nat_alt)
    qed
    then have "clean (take (utf8_need c - 1) t)"
      using n(2) by (auto simp: clean_def list_all_iff)
    moreover have "0x20 \<le> c"
      using that(2) by (simp add: word_le_nat_alt word_less_nat_alt)
    ultimately show ?thesis
      using n(1,3) by (cases "utf8_need c") (auto simp: s)
  qed
  have l: "clean (lit ''n'')" "clean (lit ''r'')" "clean (lit ''t'')" "clean (lit ''u'')" "clean (lit ''ufffd'')"
    by code_simp+
  show ?thesis
    using st u l by (auto simp: json_step_def s Let_def not_less split: if_splits)
qed

lemma json_loop: "P sb \<Longrightarrow> P (json_loop sb s)"
proof (induction sb s rule: json_loop.induct)
  case (1 sb s)
  show ?case
  proof (cases "s = []")
    case False
    obtain out n where st: "json_step s = (out, n)" by (cases "json_step s")
    then show ?thesis
      using "1.IH"[OF False st[symmetric]] puts[OF "1.prems" json_step_clean[OF False st]] False
      by (simp add: json_loop.simps[of sb s])
  qed (use "1.prems" in \<open>simp add: json_loop.simps\<close>)
qed

lemma json_string: "P sb \<Longrightarrow> P (pw_sb_json_string sb s)"
  by (simp add: pw_sb_json_string_def putc json_loop)

lemma clean_words: "clean (lit ''null'')" "clean (lit ''true'')" "clean (lit ''false'')"
  by code_simp+

lemmas steps = putc puts json_string rollback clean_words

lemma any_value:
  "P sb \<Longrightarrow> P (decode_any_value r sb d)"
  "P sb \<Longrightarrow> P (fst (any_value_loop r sb d w))"
  "P sb \<Longrightarrow> P (decode_value_list r sb d)"
  "P sb \<Longrightarrow> P (value_list_loop r sb d f)"
  "P sb \<Longrightarrow> P (decode_kvlist r sb d)"
  "P sb \<Longrightarrow> P (kvlist_loop r sb d f)"
  "P sb \<Longrightarrow> P (snd (pw_append_kv_json r sb d))"
proof (induction r sb d and r sb d w and r sb d and r sb d f and r sb d and r sb d f and r sb d
    rule: decode_any_value_any_value_loop_decode_value_list_value_list_loop_decode_kvlist_kvlist_loop_pw_append_kv_json.induct)
  case (1 r sb depth)
  then show ?case
    by (subst decode_any_value.simps) (fastforce split: prod.splits intro: steps)
next
  case (2 r sb depth wrote)
  note IH = "2.IH" and prem = "2.prems"
  show ?case
  proof (cases "pb_next r")
    case (PbTag tag r1)
    show ?thesis
      unfolding any_value_loop.simps[of r sb depth wrote] PbTag pb_next_result.case
      by (simp split: option.split add: prem steps IH[OF PbTag])
  qed (use prem in \<open>simp_all add: any_value_loop.simps[of r sb depth wrote]\<close>)
next
  case (3 r sb depth)
  then show ?case
    by (subst decode_value_list.simps) (simp add: steps)
next
  case (4 r sb depth first)
  note IH = "4.IH" and prem = "4.prems"
  show ?case
  proof (cases "pb_next r")
    case (PbTag tag r1)
    show ?thesis
      unfolding value_list_loop.simps[of r sb depth first] PbTag pb_next_result.case
      using IH[OF PbTag] prem by (auto simp: steps split: option.split)
  qed (use prem in \<open>simp_all add: value_list_loop.simps[of r sb depth first]\<close>)
next
  case (5 r sb depth)
  then show ?case
    by (subst decode_kvlist.simps) (simp add: steps)
next
  case (6 r sb depth first)
  note IH = "6.IH" and prem = "6.prems"
  show ?case
  proof (cases "pb_next r")
    case (PbTag tag r1)
    show ?thesis
    proof (cases "is_field tag F_LIST_VALUES PB_WIRE_BYTES")
      case True
      note field = True
      show ?thesis
      proof (cases "pb_submsg r1")
        case (Some p)
        obtain kv r2 where p: "p = (kv, r2)" by (cases p)
        define sb0 where "sb0 = (if \<not> first then pw_sb_putc sb 0x2c else sb)"
        obtain wrote sb1 where ap: "pw_append_kv_json kv sb0 depth = (wrote, sb1)"
          by (cases "pw_append_kv_json kv sb0 depth")
        have "P sb0"
          using prem by (simp add: sb0_def putc)
        then have "P sb1"
          using IH(1)[OF PbTag field Some p[symmetric]] by (simp add: ap flip: sb0_def)
        with IH(2,3)[OF PbTag field Some p[symmetric], folded sb0_def, OF ap[symmetric]] show ?thesis
          by (simp add: kvlist_loop.simps[of r sb depth first] PbTag field Some p ap rollback flip: sb0_def)
      qed (use prem field PbTag in \<open>simp add: kvlist_loop.simps[of r sb depth first]\<close>)
    next
      case False
      then show ?thesis
        using prem IH(4)[OF PbTag False]
        by (auto simp: kvlist_loop.simps[of r sb depth first] PbTag split: option.split)
    qed
  qed (use prem in \<open>simp_all add: kvlist_loop.simps[of r sb depth first]\<close>)
next
  case (7 kv sb depth)
  then show ?case
    by (subst pw_append_kv_json.simps) (auto simp: Let_def steps split: option.splits prod.splits)
qed

end

interpretation clean_sb: builder_inv "\<lambda>sb. clean (sb_buf sb)"
  by unfold_locales (auto simp: pw_sb_putc_def sb_rollback_def)

text \<open>A builder of given capacity that never overruns it.\<close>

definition fits :: "nat \<Rightarrow> pw_sb \<Rightarrow> bool" where
  "fits cap sb \<longleftrightarrow> sb_cap sb = cap \<and> length (sb_buf sb) < cap"

interpretation fits_sb: builder_inv "fits cap" for cap
  by unfold_locales (auto simp: fits_def pw_sb_putc_def sb_rollback_def)

end
