(* ===== verification/TraceProps.thy ===== *)
theory TraceProps
  imports OtlpTrace CleanText
begin

text \<open>
  What \<^verbatim>\<open>src/agent/otlp_trace.c\<close> promises its sink, for every payload: each span handed over fits
  its arrays and is made of proper C strings, and the result counts the spans the sink took.  The
  sink's side is the locale \<open>span_consumer\<close>.
\<close>

unbundle bit_operations_syntax

section \<open>Spans that fit\<close>

definition kind_names :: "cstring list" where
  "kind_names = map lit [''UNSPECIFIED'', ''INTERNAL'', ''SERVER'', ''CLIENT'', ''PRODUCER'', ''CONSUMER'']"

definition status_names :: "cstring list" where
  "status_names = map lit [''UNSET'', ''OK'', ''ERROR'']"

definition str_ok :: "nat \<Rightarrow> cstring \<Rightarrow> bool" where
  "str_ok cap s \<longleftrightarrow> length s < cap \<and> is_cstr s"

definition span_fields_ok :: "pw_span \<Rightarrow> bool" where
  "span_fields_ok sp \<longleftrightarrow>
     str_ok 100 (sp_label sp) \<and> str_ok 33 (sp_trace_id sp) \<and> clean (sp_trace_id sp) \<and>
     str_ok 17 (sp_span_id sp) \<and> clean (sp_span_id sp) \<and>
     str_ok 17 (sp_parent_span_id sp) \<and> clean (sp_parent_span_id sp) \<and> str_ok 512 (sp_name sp) \<and>
     str_ok 256 (sp_service_name sp) \<and> str_ok 256 (sp_scope_name sp) \<and> str_ok 512 (sp_status_message sp) \<and>
     sp_kind sp \<in> set kind_names \<and> sp_status_code sp \<in> set status_names"

definition span_ok :: "pw_span \<Rightarrow> bool" where
  "span_ok sp \<longleftrightarrow>
     span_fields_ok sp \<and> str_ok 8192 (sp_attributes_json sp) \<and> clean (sp_attributes_json sp) \<and>
     sp_duration_ns sp = (if sp_start_ns sp \<le> sp_end_ns sp then sp_end_ns sp - sp_start_ns sp else 0)"

definition ctx_ok :: "span_context \<Rightarrow> bool" where
  "ctx_ok ctx \<longleftrightarrow>
     str_ok 256 (ctx_service_name ctx) \<and> str_ok 256 (ctx_scope_name ctx) \<and> str_ok 100 (ctx_label ctx)"

lemma str_ok_copy [simp]: "0 < cap \<Longrightarrow> str_ok cap (pw_copy_str cap src)"
  using length_cstr_le[of "take (if length src \<ge> cap then cap - 1 else length src) src"]
  by (auto simp: str_ok_def pw_copy_str_def)

lemma str_ok_hex [simp]: "0 < cap \<Longrightarrow> str_ok cap (pw_to_hex cap src)"
proof -
  assume cap: "0 < cap"
  have "length (concat (map (\<lambda>b. [hex_digit (drop_bit 4 b), hex_digit (b AND 0x0f)]) bs)) = 2 * length bs"
    for bs :: "byte list"
    by (induction bs) auto
  then have "length (pw_to_hex cap src) = 2 * min (length src) ((cap - 1) div 2)"
    by (simp add: pw_to_hex_def min_def)
  then show ?thesis
    using cap by (auto simp: str_ok_def clean_is_cstr min_def)
qed

lemma str_ok_snprintf [simp]: "0 < cap \<Longrightarrow> is_cstr s \<Longrightarrow> str_ok cap (snprintf_s cap s)"
  by (simp add: str_ok_def length_snprintf_s)

lemma str_ok_Nil [simp]: "0 < cap \<Longrightarrow> str_ok cap []"
  by (simp add: str_ok_def)

lemma kind_name_in [simp]: "span_kind_name k \<in> set kind_names"
  by (simp add: span_kind_name_def kind_names_def)

lemma status_name_in [simp]: "status_code_name k \<in> set status_names"
  by (simp add: status_code_name_def status_names_def)

section \<open>Decoding keeps them fitting\<close>

lemma value_as_string_ok: "pw_any_value_as_string v cap = Some s \<Longrightarrow> 0 < cap \<Longrightarrow> str_ok cap s"
proof (induction v cap rule: pw_any_value_as_string.induct)
  case (1 v cap)
  show ?case
  proof (cases "pb_next v")
    case (PbTag tag r1)
    then show ?thesis
      using "1.prems" "1.IH"[OF PbTag]
      by (auto simp: pw_any_value_as_string.simps[of v] split: if_splits option.splits)
  qed (use "1.prems" in \<open>auto simp: pw_any_value_as_string.simps[of v]\<close>)
qed

lemma span_init_ok: "ctx_ok ctx \<Longrightarrow> span_fields_ok (span_init ctx)"
  by (simp add: span_fields_ok_def span_init_def ctx_ok_def span_caps) (simp add: str_ok_def)

lemma status_loop_ok: "span_fields_ok sp \<Longrightarrow> span_fields_ok (status_loop st sp)"
proof (induction st sp rule: status_loop.induct)
  case (1 st sp)
  show ?case
  proof (cases "pb_next st")
    case (PbTag tag st1)
    have upd: "span_fields_ok (sp\<lparr>sp_status_message := pw_copy_str PW_SPAN_STATUS_MSG_MAX x\<rparr>)"
        "span_fields_ok (sp\<lparr>sp_status_code := status_code_name v\<rparr>)" for x v
      using "1.prems" by (simp_all add: span_fields_ok_def span_caps)
    show ?thesis
      unfolding status_loop.simps[of st sp] PbTag pb_next_result.case
      using "1.prems" upd "1.IH"[OF PbTag] by (simp split: option.split)
  qed (use "1.prems" in \<open>simp_all add: status_loop.simps[of st sp]\<close>)
qed

definition span_parts_ok :: "(pw_span \<times> pw_sb \<times> bool) option \<Rightarrow> bool" where
  "span_parts_ok res \<longleftrightarrow>
     (case res of None \<Rightarrow> True | Some (sp, attrs, h) \<Rightarrow> span_fields_ok sp \<and> fits 8192 attrs \<and> clean (sb_buf attrs))"

lemma span_parts_ok_simps [simp]:
  "span_parts_ok None"
  "span_parts_ok (Some (sp, attrs, h)) \<longleftrightarrow> span_fields_ok sp \<and> fits 8192 attrs \<and> clean (sb_buf attrs)"
  by (simp_all add: span_parts_ok_def)

text \<open>Introduction rules that follow the branches of a decoder loop.\<close>

lemma if_ok: "(c \<Longrightarrow> P a) \<Longrightarrow> (\<not> c \<Longrightarrow> P b) \<Longrightarrow> P (if c then a else b)"
  by simp

lemma read_ok:
  "P a \<Longrightarrow> (\<And>y z. x = Some (y, z) \<Longrightarrow> P (f y z)) \<Longrightarrow> P (case x of None \<Rightarrow> a | Some (y, z) \<Rightarrow> f y z)"
  by (cases x) auto

lemma sep_ok:
  "fits cap attrs \<Longrightarrow> clean (sb_buf attrs) \<Longrightarrow>
   fits cap (if \<not> f then pw_sb_putc attrs 0x2c else attrs) \<and>
   clean (sb_buf (if \<not> f then pw_sb_putc attrs 0x2c else attrs))"
  using fits_sb.putc[of cap attrs "0x2c"] clean_sb.putc[of attrs "0x2c"] by auto

lemma kv_ok:
  assumes "fits cap attrs" "clean (sb_buf attrs)" "pw_append_kv_json kv attrs d = (wrote, attrs1)"
  shows "fits cap attrs1 \<and> clean (sb_buf attrs1)"
  using fits_sb.any_value(7)[OF assms(1), of kv d] clean_sb.any_value(7)[OF assms(2), of kv d] assms(3) by simp

lemma span_loop_ok:
  "span_fields_ok sp \<Longrightarrow> fits 8192 attrs \<Longrightarrow> clean (sb_buf attrs) \<Longrightarrow>
   span_parts_ok (span_loop r sp attrs f h)"
proof (induction r sp attrs f h rule: span_loop.induct)
  case (1 r sp attrs f h)
  note prems = "1.prems"
  show ?case
  proof (cases "pb_next r")
    case (PbTag tag r1)
    note IH = "1.IH"[OF PbTag]
    have upd: "span_fields_ok (sp\<lparr>sp_trace_id := pw_to_hex 33 x\<rparr>)" "span_fields_ok (sp\<lparr>sp_span_id := pw_to_hex 17 x\<rparr>)"
        "span_fields_ok (sp\<lparr>sp_parent_span_id := pw_to_hex 17 x\<rparr>)"
        "span_fields_ok (sp\<lparr>sp_name := pw_copy_str PW_SPAN_NAME_MAX x\<rparr>)"
        "span_fields_ok (sp\<lparr>sp_kind := span_kind_name v\<rparr>)" "span_fields_ok (sp\<lparr>sp_start_ns := v\<rparr>)"
        "span_fields_ok (sp\<lparr>sp_end_ns := v\<rparr>)" "span_fields_ok (status_loop st sp)" for x v st
      using prems(1) status_loop_ok[OF prems(1)] by (simp_all add: span_fields_ok_def span_caps)
    have attr: "span_parts_ok (case pw_append_kv_json kv (if \<not> f then pw_sb_putc attrs 0x2c else attrs) 0 of
        (wrote, attrs1) \<Rightarrow>
          if wrote then span_loop r2 sp attrs1 False True
          else span_loop r2 sp (sb_rollback (length (sb_buf attrs)) attrs1) f h)"
      if t: "\<not> is_field tag 1 PB_WIRE_BYTES" "\<not> is_field tag 2 PB_WIRE_BYTES" "\<not> is_field tag 4 PB_WIRE_BYTES"
        "\<not> is_field tag 5 PB_WIRE_BYTES" "\<not> is_field tag 6 PB_WIRE_VARINT" "\<not> is_field tag 7 PB_WIRE_FIXED64"
        "\<not> is_field tag 8 PB_WIRE_FIXED64" "is_field tag 9 PB_WIRE_BYTES" "pb_submsg r1 = Some (kv, r2)" for kv r2
    proof -
      obtain wrote attrs1 where ap:
        "pw_append_kv_json kv (if \<not> f then pw_sb_putc attrs 0x2c else attrs) 0 = (wrote, attrs1)"
        by fastforce
      note ok = kv_ok[OF _ _ ap] sep_ok[OF prems(2,3), of f]
      note ih = IH(8,9)[OF t(1-8) t(9) refl ap[symmetric]]
      show ?thesis
        unfolding ap prod.case
        using ih prems(1) ok fits_sb.rollback[of 8192 attrs1] clean_sb.rollback[of attrs1] by auto
    qed
    show ?thesis
      unfolding span_loop.simps[of r sp attrs f h] PbTag pb_next_result.case
      by (intro if_ok[of _ span_parts_ok] read_ok[of span_parts_ok] attr)
        (simp_all add: prems upd IH)
  qed (use prems in \<open>simp_all add: span_loop.simps[of r sp attrs f h]\<close>)
qed

lemma span_finish_ok:
  assumes "span_fields_ok sp" "fits 8192 attrs" "clean (sb_buf attrs)"
  shows "span_ok (span_finish sp attrs h)"
proof -
  have "fits 8192 (pw_sb_putc attrs 0x7d)" "clean (sb_buf (pw_sb_putc attrs 0x7d))"
    using fits_sb.putc[OF assms(2), of "0x7d"] clean_sb.putc[OF assms(3), of "0x7d"] by auto
  moreover have "clean (lit ''{}'')" by code_simp
  ultimately show ?thesis
    using assms(1)
    by (auto simp: span_ok_def span_finish_def span_fields_ok_def str_ok_def fits_def clean_is_cstr)
qed

lemma scope_loop_ok: "str_ok 256 name \<Longrightarrow> str_ok 256 (scope_loop scope name)"
proof (induction scope name rule: scope_loop.induct)
  case (1 scope name)
  show ?case
  proof (cases "pb_next scope")
    case (PbTag tag r1)
    show ?thesis
      unfolding scope_loop.simps[of scope name] PbTag pb_next_result.case
      by (intro if_ok[of _ "str_ok 256"] read_ok[of "str_ok 256"]) (simp_all add: "1.prems" "1.IH"[OF PbTag, unfolded span_caps] span_caps)
  qed (use "1.prems" in \<open>simp_all add: scope_loop.simps[of scope name]\<close>)
qed

lemma res_attr_ok: "ctx_ok ctx \<Longrightarrow> ctx_ok (span_res_attr kv ctx)"
proof -
  assume "ctx_ok ctx"
  then show ?thesis
    by (auto simp: span_res_attr_def ctx_ok_def span_caps value_as_string_ok split: prod.split option.split)
qed

lemma resource_ok: "ctx_ok ctx \<Longrightarrow> ctx_ok (span_resource_loop res ctx)"
proof (induction res ctx rule: span_resource_loop.induct)
  case (1 res ctx)
  show ?case
  proof (cases "pb_next res")
    case (PbTag tag r1)
    show ?thesis
      unfolding span_resource_loop.simps[of res ctx] PbTag pb_next_result.case
      by (intro if_ok[of _ ctx_ok] read_ok[of ctx_ok]) (simp_all add: "1.prems" "1.IH"[OF PbTag] res_attr_ok)
  qed (use "1.prems" in \<open>simp_all add: span_resource_loop.simps[of res ctx]\<close>)
qed

section \<open>The sink's contract\<close>

text \<open>
  \<open>inv k u\<close> holds after \<open>k\<close> spans were taken; a refusal (non-zero) leads to \<open>fin k u\<close>.
\<close>

locale span_consumer =
  fixes sink :: "pw_span \<Rightarrow> 'u \<Rightarrow> int \<times> 'u"
    and inv :: "nat \<Rightarrow> 'u \<Rightarrow> bool"
    and fin :: "nat \<Rightarrow> 'u \<Rightarrow> bool"
  assumes taken: "inv k u \<Longrightarrow> span_ok sp \<Longrightarrow> sink sp u = (0, u1) \<Longrightarrow> inv (Suc k) u1"
    and refused: "inv k u \<Longrightarrow> span_ok sp \<Longrightarrow> sink sp u = (rc, u1) \<Longrightarrow> rc \<noteq> 0 \<Longrightarrow> fin k u1"
begin

definition either :: "nat \<Rightarrow> 'u \<Rightarrow> bool" where
  "either k u \<longleftrightarrow> inv k u \<or> fin k u"

lemma span_step:
  assumes "inv k u" "ctx_ok ctx" "decode_span r ctx (Some sink) u = (rc, u1)"
  shows "if rc = 0 then inv (Suc k) u1 else either k u1"
proof -
  have init: "span_parts_ok (span_loop r (span_init ctx) (pw_sb_putc (pw_sb_init PW_SPAN_ATTRS_MAX) 0x7b) True False)"
    by (rule span_loop_ok) (simp_all add: span_init_ok assms(2) fits_def pw_sb_putc_def pw_sb_init_def span_caps)
  show ?thesis
  proof (cases "span_loop r (span_init ctx) (pw_sb_putc (pw_sb_init PW_SPAN_ATTRS_MAX) 0x7b) True False")
    case None
    then show ?thesis
      using assms by (auto simp: decode_span_def either_def)
  next
    case (Some x)
    obtain sp attrs h where x: "x = (sp, attrs, h)" by (cases x) auto
    from init have "span_ok (span_finish sp attrs h)"
      by (intro span_finish_ok) (simp_all add: Some x)
    then show ?thesis
      using assms(1,3) taken refused by (auto simp: decode_span_def Some x either_def)
  qed
qed

definition scope_result :: "int \<times> span_context \<times> 'u \<times> nat \<Rightarrow> bool" where
  "scope_result = (\<lambda>(rc, ctx, u, k). ctx_ok ctx \<and> (if rc = 0 then inv k u else either k u))"

lemma scope_spans:
  "inv k u \<Longrightarrow> ctx_ok ctx \<Longrightarrow> scope_result (decode_scope_spans r ctx (Some sink) u k)"
proof (induction r ctx "Some sink" u k rule: decode_scope_spans.induct)
  case (1 r ctx u k)
  note prems = "1.prems"
  have fail: "scope_result (- 1, ctx, u, k)"
    using prems by (simp add: scope_result_def either_def)
  show ?case
  proof (cases "pb_next r")
    case (PbTag tag r1)
    note IH = "1.hyps"[OF PbTag]
    have span: "scope_result (case decode_span sp ctx (Some sink) u of (rc, u1) \<Rightarrow>
        if rc < 0 then (- 1, ctx, u1, k) else if rc > 0 then (1, ctx, u1, k)
        else decode_scope_spans r2 ctx (Some sink) u1 (k + 1))"
      if t: "\<not> is_field tag 1 PB_WIRE_BYTES" "is_field tag 2 PB_WIRE_BYTES" "pb_submsg r1 = Some (sp, r2)" for sp r2
    proof -
      obtain rc u1 where d: "decode_span sp ctx (Some sink) u = (rc, u1)" by fastforce
      note ih = IH(2)[OF t refl d[symmetric]]
      show ?thesis
        using span_step[OF prems d] prems(2) ih by (auto simp: d scope_result_def)
    qed
    have scope: "ctx_ok (ctx\<lparr>ctx_scope_name := scope_loop scope (ctx_scope_name ctx)\<rparr>)" for scope
      using prems(2) scope_loop_ok by (simp add: ctx_ok_def)
    show ?thesis
      unfolding decode_scope_spans.simps[of r ctx] PbTag pb_next_result.case
      by (intro if_ok[of _ scope_result] read_ok[of scope_result] fail span) (simp_all add: prems scope IH)
  qed (use prems in \<open>simp_all add: decode_scope_spans.simps[of r ctx] scope_result_def\<close>)
qed

lemma pending:
  "inv k u \<Longrightarrow> ctx_ok ctx \<Longrightarrow> pending_spans ss ctx (Some sink) u k = (rc, u1, k1) \<Longrightarrow>
   if rc = 0 then inv k1 u1 else either k1 u1"
proof (induction ss ctx "Some sink" u k rule: pending_spans.induct)
  case (2 ss rest ctx u k)
  obtain rc2 ctx2 u2 k2 where d: "decode_scope_spans ss ctx (Some sink) u k = (rc2, ctx2, u2, k2)"
    by (cases "decode_scope_spans ss ctx (Some sink) u k") auto
  with scope_spans[OF "2.prems"(1,2), of ss] have "ctx_ok ctx2 \<and> (if rc2 = 0 then inv k2 u2 else either k2 u2)"
    by (simp add: scope_result_def)
  then show ?case
    using "2.prems"(3) "2.hyps"[OF d[symmetric] refl refl] by (auto simp: d split: if_splits)
qed auto

definition res_result :: "(int \<times> 'u \<times> nat) + (span_context \<times> pb_reader list \<times> 'u \<times> nat) \<Rightarrow> bool" where
  "res_result x \<longleftrightarrow>
     (case x of
        Inl (rc, u, k) \<Rightarrow> rc \<noteq> 0 \<and> either k u
      | Inr (ctx, pending, u, k) \<Rightarrow> ctx_ok ctx \<and> inv k u)"

lemma resource_spans:
  "inv k u \<Longrightarrow> ctx_ok ctx \<Longrightarrow> res_result (resource_spans_loop r ctx p (Some sink) u k)"
proof (induction r ctx p "Some sink" u k rule: resource_spans_loop.induct)
  case (1 r ctx p u k)
  note prems = "1.prems"
  have fail: "res_result (Inl (- 1, u, k))"
    using prems by (simp add: res_result_def either_def)
  show ?case
  proof (cases "pb_next r")
    case (PbTag tag r1)
    note IH = "1.hyps"[OF PbTag]
    have direct: "res_result (case decode_scope_spans ss ctx (Some sink) u k of (rc, ctx1, u1, k1) \<Rightarrow>
        if rc \<noteq> 0 then Inl (rc, u1, k1) else resource_spans_loop r2 ctx1 p (Some sink) u1 k1)"
      if t: "\<not> is_field tag 1 PB_WIRE_BYTES" "is_field tag 2 PB_WIRE_BYTES" "pb_submsg r1 = Some (ss, r2)"
        "\<not> length p < PENDING_MAX" for ss r2
    proof -
      obtain rc ctx1 u1 k1 where d: "decode_scope_spans ss ctx (Some sink) u k = (rc, ctx1, u1, k1)"
        by (cases "decode_scope_spans ss ctx (Some sink) u k") auto
      note ih = IH(3)[OF t(1,2) t(3) refl t(4) d[symmetric] refl refl]
      show ?thesis
        using scope_spans[OF prems, of ss] ih by (auto simp: d scope_result_def res_result_def)
    qed
    show ?thesis
      unfolding resource_spans_loop.simps[of r ctx] PbTag pb_next_result.case
      by (intro if_ok[of _ res_result] read_ok[of res_result] fail direct) (simp_all add: prems resource_ok IH)
  qed (use prems in \<open>simp_all add: resource_spans_loop.simps[of r ctx] res_result_def\<close>)
qed

lemma ctx_init_ok: "ctx_ok span_ctx_init"
  by code_simp

lemma resource:
  assumes "inv k u" "decode_resource_spans r (Some sink) u k = (rc, u1, k1)"
  shows "if rc = 0 then inv k1 u1 else either k1 u1"
  using assms resource_spans[OF assms(1) ctx_init_ok, of r "[]"]
  by (auto simp: decode_resource_spans_def res_result_def split: sum.splits dest: pending)

definition final :: "int \<times> 'u \<Rightarrow> bool" where
  "final = (\<lambda>(n, u). \<exists>k. (n = int k \<or> n = - 1 \<and> k = 0) \<and> either k u)"

lemma traces: "inv k u \<Longrightarrow> final (traces_loop r (Some sink) u k)"
proof (induction r "Some sink" u k rule: traces_loop.induct)
  case (1 r u k)
  have fin: "final (count_or_error j, v)" "final (int j, v)" if "either j v" for j v
    using that by (auto simp: final_def count_or_error_def)
  have now: "either k u"
    using "1.prems" by (simp add: either_def)
  show ?case
  proof (cases "pb_next r")
    case (PbTag tag r1)
    note IH = "1.hyps"[OF PbTag]
    have rs: "final (case decode_resource_spans rs (Some sink) u k of (rc, u1, k1) \<Rightarrow>
        if rc < 0 then (count_or_error k1, u1) else if rc > 0 then (int k1, u1) else traces_loop r2 (Some sink) u1 k1)"
      if t: "is_field tag 1 PB_WIRE_BYTES" "pb_submsg r1 = Some (rs, r2)" for rs r2
    proof -
      obtain rc u1 k1 where d: "decode_resource_spans rs (Some sink) u k = (rc, u1, k1)"
        by (cases "decode_resource_spans rs (Some sink) u k") auto
      show ?thesis
        using resource[OF "1.prems" d] IH(1)[OF t refl d[symmetric] refl] fin by (auto simp: d split: if_splits)
    qed
    show ?thesis
      unfolding traces_loop.simps[of r] PbTag pb_next_result.case
      by (intro if_ok[of _ final] read_ok[of final] rs) (simp_all add: "1.prems" fin now IH)
  qed (use now fin in \<open>simp_all add: traces_loop.simps[of r]\<close>)
qed

text \<open>After the whole request, \<open>k\<close> spans were taken and the result says so, or is \<open>-1\<close> for none.\<close>

lemma decode:
  "inv 0 u \<Longrightarrow> otlp_decode_traces body (Some sink) u = (n, u1) \<Longrightarrow>
   \<exists>k. (n = int k \<or> n = - 1 \<and> k = 0) \<and> (inv k u1 \<or> fin k u1)"
  using traces[of 0 u "pb_reader_init body 0 (length body)"]
  by (simp add: otlp_decode_traces_def final_def either_def)

end

end
