(* ===== verification/AttrSpec.thy ===== *)
theory AttrSpec
  imports SbLemmas
begin

text \<open>
  The abstract meaning of an OTLP attribute value: a tree \<open>any_value\<close>, its protobuf encoding
  \<open>enc_any\<close>, and the JSON text \<open>render\<close> it should become.  The theory proves that the
  decoder of \<^verbatim>\<open>src/agent/otlp_common.c\<close>, run on the encoding of a tree, writes exactly that
  text whenever the builder has room for it.
\<close>

section \<open>Reading encoded fields\<close>

definition views :: "pb_reader \<Rightarrow> byte list \<Rightarrow> bool" where
  "views r bs \<longleftrightarrow> rd_ok r \<and> rd_view r = bs"

lemma views_append: "views r (bs @ rest) \<longleftrightarrow> reads_as r bs rest"
  by (simp add: views_def reads_as_def)

lemma views_ok: "views r bs \<Longrightarrow> rd_ok r"
  by (simp add: views_def)

lemma views_adv: "views r (bs @ rest) \<Longrightarrow> views (rd_adv (length bs) r) rest"
  using reads_as_adv[of r bs "[]" rest] by (simp add: views_append reads_as_def views_def)

lemma views_Nil: "views r [] \<Longrightarrow> pb_next r = PbEnd"
  using rd_view_Nil[of r] by (auto simp: views_def pb_next_def)

lemma tag_fieldE:
  assumes "views r (enc_tag f w @ rest)" "0 < f" "f < 2 ^ 29" "w \<in> {0, 1, 2, 5}"
  obtains r1 where "pb_next r = PbTag (tag_of f w) r1" "views r1 rest"
  using assms pb_next_enc[of r f w rest] views_adv[of r "enc_tag f w" rest]
  by (simp add: views_append)

lemma bytes_fieldE:
  assumes v: "views r (enc_field f bs @ rest)" and f: "0 < f" "f < 2 ^ 29" and len: "length bs < 2 ^ 64"
  obtains r1 p r2 where "pb_next r = PbTag (tag_of f 2) r1" "pb_bytes r1 = Some (p, r2)"
    "mem_bytes r2 p = bs" "views r2 rest"
proof -
  from v have "views r (enc_tag f 2 @ enc_bytes bs @ rest)"
    by (simp add: enc_field_def)
  then obtain r1 where r1: "pb_next r = PbTag (tag_of f 2) r1" "views r1 (enc_bytes bs @ rest)"
    using f by (auto elim: tag_fieldE)
  then have "reads_as r1 (enc_bytes bs) rest"
    by (simp add: views_append)
  from pb_bytes_enc[OF this len] mem_bytes_enc[OF this] views_adv[OF r1(2)] that[OF r1(1)]
  show ?thesis by simp
qed

lemma submsg_fieldE:
  assumes v: "views r (enc_field f bs @ rest)" and f: "0 < f" "f < 2 ^ 29" and len: "length bs < 2 ^ 64"
  obtains r1 sub r2 where "pb_next r = PbTag (tag_of f 2) r1" "pb_submsg r1 = Some (sub, r2)"
    "views sub bs" "views r2 rest"
proof -
  from v have "views r (enc_tag f 2 @ enc_bytes bs @ rest)"
    by (simp add: enc_field_def)
  then obtain r1 where r1: "pb_next r = PbTag (tag_of f 2) r1" "views r1 (enc_bytes bs @ rest)"
    using f by (auto elim: tag_fieldE)
  then have "reads_as r1 (enc_bytes bs) rest"
    by (simp add: views_append)
  then obtain sub where "pb_submsg r1 = Some (sub, rd_adv (length (enc_bytes bs)) r1)" "reads_as sub bs []"
    using len by (rule pb_submsg_enc)
  with views_adv[OF r1(2)] that[OF r1(1)] show ?thesis
    by (simp add: views_def reads_as_def)
qed

lemma varint_fieldE:
  assumes v: "views r (enc_tag f 0 @ enc_varint n @ rest)" and f: "0 < f" "f < 2 ^ 29" and n: "n < 2 ^ 64"
  obtains r1 r2 where "pb_next r = PbTag (tag_of f 0) r1" "pb_varint r1 = Some (word_of_nat n, r2)"
    "views r2 rest"
proof -
  from v f obtain r1 where r1: "pb_next r = PbTag (tag_of f 0) r1" "views r1 (enc_varint n @ rest)"
    by (auto elim: tag_fieldE)
  with pb_varint_enc[OF n, of r1 rest] views_adv[OF r1(2)] that[OF r1(1)] show ?thesis
    by (simp add: views_append)
qed

lemma fixed64_fieldE:
  assumes v: "views r (enc_tag f 1 @ enc_fixed64 w @ rest)" and f: "0 < f" "f < 2 ^ 29"
  obtains r1 r2 where "pb_next r = PbTag (tag_of f 1) r1" "pb_fixed64 r1 = Some (w, r2)" "views r2 rest"
proof -
  from v f obtain r1 where r1: "pb_next r = PbTag (tag_of f 1) r1" "views r1 (enc_fixed64 w @ rest)"
    by (auto elim: tag_fieldE)
  with pb_fixed64_enc[of r1 w rest] views_adv[OF r1(2)] that[OF r1(1)] show ?thesis
    by (simp add: views_append)
qed

lemma length_enc_field_bound:
  "length (enc_field f bs) < 2 ^ 64 \<Longrightarrow> length bs < 2 ^ 64"
  by (simp add: enc_field_def enc_bytes_def)

section \<open>Values, their encoding and their text\<close>

datatype any_value =
    AvString "byte list"
  | AvBool bool
  | AvInt "64 word"
  | AvDouble dbl
  | AvArray "any_value list"
  | AvKvlist "(byte list \<times> any_value) list"
  | AvBytes "byte list"

fun enc_any :: "any_value \<Rightarrow> byte list" where
  "enc_any (AvString s) = enc_field 1 s"
| "enc_any (AvBool b) = enc_tag 2 0 @ enc_varint (if b then 1 else 0)"
| "enc_any (AvInt w) = enc_tag 3 0 @ enc_varint (unat w)"
| "enc_any (AvDouble d) = enc_tag 4 1 @ enc_fixed64 d"
| "enc_any (AvArray vs) = enc_field 5 (concat (map (\<lambda>v. enc_field 1 (enc_any v)) vs))"
| "enc_any (AvKvlist kvs) =
     enc_field 6 (concat (map (\<lambda>(k, v). enc_field 1 (enc_field 1 k @ enc_field 2 (enc_any v))) kvs))"
| "enc_any (AvBytes bs) = enc_field 7 bs"

definition enc_kv :: "byte list \<times> any_value \<Rightarrow> byte list" where
  "enc_kv = (\<lambda>(k, v). enc_field 1 k @ enc_field 2 (enc_any v))"

text \<open>Comma-separated texts; the flag says that nothing precedes them.\<close>

fun list_text :: "bool \<Rightarrow> byte list list \<Rightarrow> byte list" where
  "list_text first [] = []"
| "list_text first (x # xs) = (if first then x else 0x2c # x) @ list_text False xs"

definition kv_key :: "byte list \<Rightarrow> cstring" where
  "kv_key k = pw_copy_str 256 k"

fun render :: "nat \<Rightarrow> any_value \<Rightarrow> byte list" where
  "render d (AvString s) = (if d > 4 then lit ''null'' else json_quote s)"
| "render d (AvBool b) =
     (if d > 4 then lit ''null'' else if b then lit ''true'' else lit ''false'')"
| "render d (AvInt w) = (if d > 4 then lit ''null'' else dec_int (sint w))"
| "render d (AvDouble x) = (if d > 4 then lit ''null'' else fmt_g 17 x)"
| "render d (AvArray vs) =
     (if d > 4 then lit ''null'' else 0x5b # list_text True (map (render (Suc d)) vs) @ [0x5d])"
| "render d (AvKvlist kvs) =
     (if d > 4 then lit ''null''
      else 0x7b # list_text True
             (map (\<lambda>(k, v). json_quote (kv_key k) @ 0x3a # render (Suc d) v)
               (filter (\<lambda>(k, v). kv_key k \<noteq> []) kvs)) @ [0x7d])"
| "render d (AvBytes bs) = (if d > 4 then lit ''null'' else json_quote (pw_to_hex 129 bs))"

section \<open>The decoder renders encoded values\<close>

lemma is_field_tag_of: "is_field (tag_of f w) f' w' \<longleftrightarrow> word_of_nat f = f' \<and> word_of_nat w = w'"
  by (simp add: is_field_def tag_of_def)

lemma emits_cong: "(\<And>sb. f sb = g sb) \<Longrightarrow> emits g out \<Longrightarrow> emits f out"
  by (simp add: emits_def)

text \<open>What the decoders do with \<open>v\<close>, from any window that holds its encoding.\<close>

definition renders :: "any_value \<Rightarrow> bool" where
  "renders v \<longleftrightarrow>
     (\<forall>r d. views r (enc_any v) \<and> length (enc_any v) < 2 ^ 64 \<longrightarrow>
        emits (\<lambda>sb. decode_any_value r sb d) (render d v))"

lemma render_deep: "4 < d \<Longrightarrow> render d v = lit ''null''"
  by (cases v) auto

lemma decode_any_value_deep: "4 < d \<Longrightarrow> emits (\<lambda>sb. decode_any_value r sb d) (render d v)"
  by (auto simp: decode_any_value.simps PW_ATTR_MAX_DEPTH_def render_deep intro: emits_puts)

lemma value_list_renders:
  "(\<And>v. v \<in> set vs \<Longrightarrow> renders v) \<Longrightarrow>
   views r (concat (map (\<lambda>v. enc_field 1 (enc_any v)) vs)) \<Longrightarrow>
   length (concat (map (\<lambda>v. enc_field 1 (enc_any v)) vs)) < 2 ^ 64 \<Longrightarrow>
   emits (\<lambda>sb. value_list_loop r sb d first) (list_text first (map (render (Suc d)) vs))"
proof (induction vs arbitrary: r first)
  case Nil
  then show ?case
    by (auto simp: value_list_loop.simps views_Nil intro: emits_cong[OF _ emits_id])
next
  case (Cons v vs)
  from Cons.prems(3) have len: "length (enc_any v) < 2 ^ 64"
    by (simp add: enc_field_def enc_bytes_def)
  from Cons.prems(2) len obtain r1 sub r2 where
    rd: "pb_next r = PbTag (tag_of 1 2) r1" "pb_submsg r1 = Some (sub, r2)" and
    sub: "views sub (enc_any v)" and
    r2: "views r2 (concat (map (\<lambda>v. enc_field 1 (enc_any v)) vs))"
    using submsg_fieldE[of r 1 "enc_any v" "concat (map (\<lambda>v. enc_field 1 (enc_any v)) vs)"] by auto
  have step: "value_list_loop r sb d first =
      value_list_loop r2 (decode_any_value sub (if \<not> first then pw_sb_putc sb 0x2c else sb) (d + 1)) d False" for sb
    by (simp add: value_list_loop.simps[of r] rd is_field_tag_of)
  have v: "emits (\<lambda>sb. decode_any_value sub sb (Suc d)) (render (Suc d) v)"
    using Cons.prems(1)[of v] sub len by (simp add: renders_def)
  have rest: "emits (\<lambda>sb. value_list_loop r2 sb d False) (list_text False (map (render (Suc d)) vs))"
    using Cons.prems by (intro Cons.IH r2) auto
  have sep: "emits (\<lambda>sb. if \<not> first then pw_sb_putc sb 0x2c else sb) (if first then [] else [0x2c])"
    by (cases first) auto
  have "(if first then [] else [0x2c]) @ render (Suc d) v = (if first then render (Suc d) v else 0x2c # render (Suc d) v)"
    by simp
  with emits_comp[OF emits_comp[OF sep v] rest] show ?case
    by (intro emits_cong[OF step]) simp
qed

lemma parse_kv_enc:
  assumes "views r (enc_kv (k, v))" and len: "length (enc_kv (k, v)) < 2 ^ 64"
  obtains w where "pw_parse_kv 256 r = (kv_key k, Some w)" "views w (enc_any v)"
proof -
  from len have lens: "length k < 2 ^ 64" "length (enc_any v) < 2 ^ 64"
    by (simp_all add: enc_kv_def enc_field_def enc_bytes_def)
  from assms(1) have "views r (enc_field 1 k @ enc_field 2 (enc_any v) @ [])"
    by (simp add: enc_kv_def)
  then obtain r1 p r2 where 1: "pb_next r = PbTag (tag_of 1 2) r1" "pb_bytes r1 = Some (p, r2)"
      "mem_bytes r2 p = k" and v2: "views r2 (enc_field 2 (enc_any v) @ [])"
    using lens(1) by (auto elim: bytes_fieldE)
  from v2 obtain r3 w r4 where 2: "pb_next r2 = PbTag (tag_of 2 2) r3" "pb_submsg r3 = Some (w, r4)"
      "views w (enc_any v)" "views r4 []"
    using lens(2) submsg_fieldE[of r2 2 "enc_any v" "[]"] by auto
  have "pw_parse_kv 256 r = (kv_key k, Some w)"
    by (simp add: pw_parse_kv_def parse_kv_loop.simps[of _ r] parse_kv_loop.simps[of _ r2]
        parse_kv_loop.simps[of _ r4] 1 2(1,2) views_Nil[OF 2(4)] is_field_tag_of kv_key_def)
  then show ?thesis
    using 2(3) by (rule that)
qed

lemma append_kv_renders:
  assumes v: "renders v" and view: "views r (enc_kv (k, v))" and len: "length (enc_kv (k, v)) < 2 ^ 64"
  shows "fst (pw_append_kv_json r sb d) = (kv_key k \<noteq> [])"
    and "kv_key k = [] \<Longrightarrow> pw_append_kv_json r sb d = (False, sb)"
    and "kv_key k \<noteq> [] \<Longrightarrow> emits (\<lambda>sb. snd (pw_append_kv_json r sb d))
           (json_quote (kv_key k) @ 0x3a # render (Suc d) v)"
proof -
  obtain w where w: "pw_parse_kv 256 r = (kv_key k, Some w)" "views w (enc_any v)"
    using view len by (rule parse_kv_enc)
  show "fst (pw_append_kv_json r sb d) = (kv_key k \<noteq> [])"
    by (simp add: pw_append_kv_json.simps w)
  show "kv_key k = [] \<Longrightarrow> pw_append_kv_json r sb d = (False, sb)"
    by (simp add: pw_append_kv_json.simps w)
  assume key: "kv_key k \<noteq> []"
  have "length (enc_any v) < 2 ^ 64"
    using len by (simp add: enc_kv_def enc_field_def enc_bytes_def)
  with v w(2) have "emits (\<lambda>sb. decode_any_value w sb (Suc d)) (render (Suc d) v)"
    by (simp add: renders_def)
  from emits_comp[OF emits_comp[OF emits_json_string[of "kv_key k"] emits_putc[of "0x3a"]] this]
  show "emits (\<lambda>sb. snd (pw_append_kv_json r sb d)) (json_quote (kv_key k) @ 0x3a # render (Suc d) v)"
    using key by (simp add: pw_append_kv_json.simps w Let_def)
qed

lemma emitsI:
  "(\<And>sb. length (sb_buf sb) + length out < sb_cap sb \<Longrightarrow>
     sb_buf (f sb) = sb_buf sb @ out \<and> sb_cap (f sb) = sb_cap sb) \<Longrightarrow> emits f out"
  by (simp add: emits_def)

text \<open>The members of a key-value list that are written: an entry without a key is rolled back.\<close>

definition kv_texts :: "nat \<Rightarrow> (byte list \<times> any_value) list \<Rightarrow> byte list list" where
  "kv_texts d kvs =
     map (\<lambda>(k, v). json_quote (kv_key k) @ 0x3a # render (Suc d) v) (filter (\<lambda>(k, v). kv_key k \<noteq> []) kvs)"

lemma kvlist_renders:
  "(\<And>k v. (k, v) \<in> set kvs \<Longrightarrow> renders v) \<Longrightarrow>
   views r (concat (map (\<lambda>kv. enc_field 1 (enc_kv kv)) kvs)) \<Longrightarrow>
   length (concat (map (\<lambda>kv. enc_field 1 (enc_kv kv)) kvs)) < 2 ^ 64 \<Longrightarrow>
   emits (\<lambda>sb. kvlist_loop r sb d first) (list_text first (kv_texts d kvs))"
proof (induction kvs arbitrary: r first)
  case Nil
  then show ?case
    by (auto simp: kvlist_loop.simps views_Nil kv_texts_def intro: emits_cong[OF _ emits_id])
next
  case (Cons kv kvs)
  obtain k v where kv: "kv = (k, v)"
    by (cases kv)
  let ?tl = "concat (map (\<lambda>kv. enc_field 1 (enc_kv kv)) kvs)"
  from Cons.prems(3) have len: "length (enc_kv (k, v)) < 2 ^ 64"
    by (simp add: kv enc_field_def enc_bytes_def)
  from Cons.prems(2) len obtain r1 sub r2 where
    rd: "pb_next r = PbTag (tag_of 1 2) r1" "pb_submsg r1 = Some (sub, r2)" and
    sub: "views sub (enc_kv (k, v))" and r2: "views r2 ?tl"
    using submsg_fieldE[of r 1 "enc_kv (k, v)" ?tl] by (auto simp: kv)
  have v: "renders v"
    using Cons.prems(1)[of k v] by (simp add: kv)
  have rest: "emits (\<lambda>sb. kvlist_loop r2 sb d fs) (list_text fs (kv_texts d kvs))" for fs
    using Cons.prems by (intro Cons.IH r2) auto
  let ?sep = "\<lambda>sb. if \<not> first then pw_sb_putc sb 0x2c else sb"
  have step: "kvlist_loop r sb d first =
      (case pw_append_kv_json sub (?sep sb) d of (wrote, sb1) \<Rightarrow>
         if \<not> wrote then kvlist_loop r2 (sb_rollback (length (sb_buf sb)) sb1) d first
         else kvlist_loop r2 sb1 d False)" for sb
    by (simp add: kvlist_loop.simps[of r] rd is_field_tag_of)
  note ap = append_kv_renders[OF v sub len]
  show ?case
  proof (cases "kv_key k = []")
    case True
    have "sb_le sb (?sep sb)" for sb by auto
    then have same: "sb_buf (sb_rollback (length (sb_buf sb)) (?sep sb)) = sb_buf sb"
      "sb_cap (sb_rollback (length (sb_buf sb)) (?sep sb)) = sb_cap sb" for sb
      using sb_rollback_buf[of sb "?sep sb"] by (auto simp: sb_rollback_def pw_sb_putc_def)
    have "kvlist_loop r sb d first = kvlist_loop r2 (sb_rollback (length (sb_buf sb)) (?sep sb)) d first" for sb
      by (simp add: step ap(2)[OF True])
    with rest[of first] same show ?thesis
      by (auto simp: kv kv_texts_def True emits_def)
  next
    case False
    have eq: "kvlist_loop r sb d first = kvlist_loop r2 (snd (pw_append_kv_json sub (?sep sb) d)) d False" for sb
      using ap(1)[of "?sep sb" d] False by (auto simp: step split: prod.splits)
    have sep: "emits ?sep (if first then [] else [0x2c])"
      by (cases first) auto
    have texts: "kv_texts d (kv # kvs) = (json_quote (kv_key k) @ 0x3a # render (Suc d) v) # kv_texts d kvs"
      by (simp add: kv kv_texts_def False)
    from emits_comp[OF emits_comp[OF sep ap(3)[OF False]] rest[of False]]
    show ?thesis
      by (intro emits_cong[OF eq]) (cases first; simp add: texts)
  qed
qed

text \<open>One field, then the end of the window: what the loop over an \<open>AnyValue\<close> does with it.\<close>

lemma any_value_loop_end: "views r [] \<Longrightarrow> any_value_loop r sb d w = (sb, w)"
  by (simp add: any_value_loop.simps views_Nil)

lemma emits_value:
  assumes f: "emits f out" and d: "d \<le> 4" and loop: "\<And>sb. any_value_loop r sb d False = (f sb, True)"
  shows "emits (\<lambda>sb. decode_any_value r sb d) out"
proof -
  have "decode_any_value r sb d = f sb" for sb
    using d by (simp add: decode_any_value.simps PW_ATTR_MAX_DEPTH_def loop)
  then show ?thesis using f by simp
qed

lemma rendersI:
  assumes "\<And>r d. views r (enc_any v @ []) \<Longrightarrow> length (enc_any v) < 2 ^ 64 \<Longrightarrow> d \<le> 4 \<Longrightarrow>
    emits (\<lambda>sb. decode_any_value r sb d) (render d v)"
  shows "renders v"
  unfolding renders_def
proof (intro allI impI)
  fix r d
  assume "views r (enc_any v) \<and> length (enc_any v) < 2 ^ 64"
  then show "emits (\<lambda>sb. decode_any_value r sb d) (render d v)"
    using assms[of r d] decode_any_value_deep[of d r v] by (cases "d \<le> 4") auto
qed

lemma one_value:
  assumes rd: "pb_next r = PbTag tag r1" and stop: "views r2 []" and d: "d \<le> 4"
    and step: "\<And>sb. any_value_loop r sb d False = any_value_loop r2 (f sb) d True" and f: "emits f out"
  shows "emits (\<lambda>sb. decode_any_value r sb d) out"
  using f d by (rule emits_value) (simp add: step any_value_loop_end[OF stop])

lemmas one_step = is_field_tag_of pb_bits_to_double_def

lemma render_scalar:
  "renders (AvString s)" "renders (AvBytes s)" "renders (AvBool b)" "renders (AvInt w)" "renders (AvDouble x)"
proof -
  show "renders (AvString s)"
  proof (rule rendersI)
    fix r :: pb_reader and d :: nat
    assume v: "views r (enc_any (AvString s) @ [])" and len: "length (enc_any (AvString s)) < 2 ^ 64" and d: "d \<le> 4"
    have len': "length s < 2 ^ 64"
      using len unfolding enc_any.simps by (rule length_enc_field_bound)
    obtain r1 p r2 where rd: "pb_next r = PbTag (tag_of 1 2) r1" "pb_bytes r1 = Some (p, r2)" "mem_bytes r2 p = s" "views r2 []"
      by (rule bytes_fieldE[OF v[unfolded enc_any.simps] _ _ len']) auto
    show "emits (\<lambda>sb. decode_any_value r sb d) (render d (AvString s))"
      using d emits_json_string[of s]
      by (intro one_value[OF rd(1,4)]) (simp_all add: any_value_loop.simps[of r] one_step rd)
  qed
  show "renders (AvBytes s)"
  proof (rule rendersI)
    fix r :: pb_reader and d :: nat
    assume v: "views r (enc_any (AvBytes s) @ [])" and len: "length (enc_any (AvBytes s)) < 2 ^ 64" and d: "d \<le> 4"
    have len': "length s < 2 ^ 64"
      using len unfolding enc_any.simps by (rule length_enc_field_bound)
    obtain r1 p r2 where rd: "pb_next r = PbTag (tag_of 7 2) r1" "pb_bytes r1 = Some (p, r2)" "mem_bytes r2 p = s" "views r2 []"
      by (rule bytes_fieldE[OF v[unfolded enc_any.simps] _ _ len']) auto
    show "emits (\<lambda>sb. decode_any_value r sb d) (render d (AvBytes s))"
      using d emits_json_string[of "pw_to_hex 129 s"]
      by (intro one_value[OF rd(1,4)]) (simp_all add: any_value_loop.simps[of r] one_step rd)
  qed
  show "renders (AvBool b)"
  proof (rule rendersI)
    fix r :: pb_reader and d :: nat
    assume v: "views r (enc_any (AvBool b) @ [])" and d: "d \<le> 4"
    obtain r1 r2 where rd: "pb_next r = PbTag (tag_of 2 0) r1"
        "pb_varint r1 = Some (word_of_nat (if b then 1 else 0), r2)" "views r2 []"
      by (rule varint_fieldE[OF v[unfolded enc_any.simps append_assoc]]) auto
    show "emits (\<lambda>sb. decode_any_value r sb d) (render d (AvBool b))"
      using d emits_puts[of "if b then lit ''true'' else lit ''false''"]
      by (intro one_value[OF rd(1,3)]) (simp_all add: any_value_loop.simps[of r] one_step rd split: if_splits)
  qed
  show "renders (AvInt w)"
  proof (rule rendersI)
    fix r :: pb_reader and d :: nat
    assume v: "views r (enc_any (AvInt w) @ [])" and d: "d \<le> 4"
    have "unat w < 2 ^ 64"
      using unsigned_less[of w] by simp
    from varint_fieldE[OF v[unfolded enc_any.simps append_assoc] _ _ this]
    obtain r1 r2 where rd: "pb_next r = PbTag (tag_of 3 0) r1" "pb_varint r1 = Some (w, r2)" "views r2 []"
      by auto
    show "emits (\<lambda>sb. decode_any_value r sb d) (render d (AvInt w))"
      using d emits_puts[of "dec_int (sint w)"]
      by (intro one_value[OF rd(1,3)]) (simp_all add: any_value_loop.simps[of r] one_step rd)
  qed
  show "renders (AvDouble x)"
  proof (rule rendersI)
    fix r :: pb_reader and d :: nat
    assume v: "views r (enc_any (AvDouble x) @ [])" and d: "d \<le> 4"
    obtain r1 r2 where rd: "pb_next r = PbTag (tag_of 4 1) r1" "pb_fixed64 r1 = Some (x, r2)" "views r2 []"
      by (rule fixed64_fieldE[OF v[unfolded enc_any.simps append_assoc]]) auto
    show "emits (\<lambda>sb. decode_any_value r sb d) (render d (AvDouble x))"
      using d emits_puts[of "fmt_g 17 x"]
      by (intro one_value[OF rd(1,3)]) (simp_all add: any_value_loop.simps[of r] one_step rd)
  qed
qed

lemma render_array:
  assumes vs: "\<And>v. v \<in> set vs \<Longrightarrow> renders v"
  shows "renders (AvArray vs)"
proof (rule rendersI)
  fix r :: pb_reader and d :: nat
  let ?body = "concat (map (\<lambda>v. enc_field 1 (enc_any v)) vs)"
  assume v: "views r (enc_any (AvArray vs) @ [])" and len: "length (enc_any (AvArray vs)) < 2 ^ 64" and d: "d \<le> 4"
  have len': "length ?body < 2 ^ 64"
    using len unfolding enc_any.simps by (rule length_enc_field_bound)
  obtain r1 sub r2 where rd: "pb_next r = PbTag (tag_of 5 2) r1" "pb_submsg r1 = Some (sub, r2)"
      and sub: "views sub ?body" and r2: "views r2 []"
    by (rule submsg_fieldE[OF v[unfolded enc_any.simps] _ _ len']) auto
  note body = value_list_renders[OF vs sub len', of d True]
  have "emits (\<lambda>sb. decode_value_list sub sb d) (render d (AvArray vs))"
    using emits_comp[OF emits_putc[of "0x5b"] emits_comp[OF body emits_putc[of "0x5d"]]] d
    by (simp add: decode_value_list.simps)
  then show "emits (\<lambda>sb. decode_any_value r sb d) (render d (AvArray vs))"
    using d by (intro one_value[OF rd(1) r2]) (simp_all add: any_value_loop.simps[of r] one_step rd)
qed

lemma render_kvlist:
  assumes kvs: "\<And>k v. (k, v) \<in> set kvs \<Longrightarrow> renders v"
  shows "renders (AvKvlist kvs)"
proof (rule rendersI)
  fix r :: pb_reader and d :: nat
  let ?body = "concat (map (\<lambda>kv. enc_field 1 (enc_kv kv)) kvs)"
  have enc: "enc_any (AvKvlist kvs) = enc_field 6 ?body"
    by (simp add: enc_kv_def case_prod_unfold)
  assume v: "views r (enc_any (AvKvlist kvs) @ [])" and len: "length (enc_any (AvKvlist kvs)) < 2 ^ 64" and d: "d \<le> 4"
  have len': "length ?body < 2 ^ 64"
    using len unfolding enc by (rule length_enc_field_bound)
  obtain r1 sub r2 where rd: "pb_next r = PbTag (tag_of 6 2) r1" "pb_submsg r1 = Some (sub, r2)"
      and sub: "views sub ?body" and r2: "views r2 []"
    by (rule submsg_fieldE[OF v[unfolded enc] _ _ len']) auto
  note body = kvlist_renders[OF kvs sub len', where d = d and first = True]
  have "emits (\<lambda>sb. decode_kvlist sub sb d) (render d (AvKvlist kvs))"
    using emits_comp[OF emits_putc[of "0x7b"] emits_comp[OF body emits_putc[of "0x7d"]]] d
    by (simp add: decode_kvlist.simps kv_texts_def)
  then show "emits (\<lambda>sb. decode_any_value r sb d) (render d (AvKvlist kvs))"
    using d by (intro one_value[OF rd(1) r2]) (simp_all add: any_value_loop.simps[of r] one_step rd)
qed

theorem all_render: "renders v"
proof (induction v)
  case (AvArray vs)
  then show ?case by (rule render_array)
next
  case (AvKvlist kvs)
  then show ?case by (intro render_kvlist) fastforce
qed (rule render_scalar)+

end
