(* ===== verification/TraceSpec.thy ===== *)
theory TraceSpec
  imports OtlpTrace AttrSpec
begin

text \<open>
  The abstract content of an OTLP trace request, its protobuf encoding, and the spans the decoder
  of \<^verbatim>\<open>src/agent/otlp_trace.c\<close> should hand to its sink for it.  The theory proves that it hands over
  exactly those, in the order of the request.
\<close>

section \<open>Requests\<close>

record otel_span =
  os_trace_id :: "byte list"
  os_span_id :: "byte list"
  os_parent_id :: "byte list"
  os_name :: "byte list"
  os_kind :: nat
  os_start :: "64 word"
  os_end :: "64 word"
  os_attrs :: "(byte list \<times> any_value) list"
  os_status_msg :: "byte list"
  os_status :: nat

type_synonym otel_scope = "byte list \<times> otel_span list"
type_synonym otel_resource = "(byte list \<times> any_value) list \<times> otel_scope list"

definition enc_status :: "otel_span \<Rightarrow> byte list" where
  "enc_status s = enc_field 2 (os_status_msg s) @ enc_tag 3 0 @ enc_varint (os_status s)"

definition enc_span :: "otel_span \<Rightarrow> byte list" where
  "enc_span s =
     enc_field 1 (os_trace_id s) @ enc_field 2 (os_span_id s) @ enc_field 4 (os_parent_id s) @
     enc_field 5 (os_name s) @ enc_tag 6 0 @ enc_varint (os_kind s) @
     enc_tag 7 1 @ enc_fixed64 (os_start s) @ enc_tag 8 1 @ enc_fixed64 (os_end s) @
     concat (map (\<lambda>kv. enc_field 9 (enc_kv kv)) (os_attrs s)) @ enc_field 15 (enc_status s)"

definition enc_scope :: "otel_scope \<Rightarrow> byte list" where
  "enc_scope = (\<lambda>(name, spans). enc_field 1 (enc_field 1 name) @ concat (map (\<lambda>s. enc_field 2 (enc_span s)) spans))"

definition enc_resource_spans :: "otel_resource \<Rightarrow> byte list" where
  "enc_resource_spans = (\<lambda>(attrs, scopes).
     enc_field 1 (concat (map (\<lambda>kv. enc_field 1 (enc_kv kv)) attrs)) @
     concat (map (\<lambda>sc. enc_field 2 (enc_scope sc)) scopes))"

definition enc_request :: "otel_resource list \<Rightarrow> byte list" where
  "enc_request rs = concat (map (\<lambda>r. enc_field 1 (enc_resource_spans r)) rs)"

section \<open>The spans of a request\<close>

definition attrs_text :: "(byte list \<times> any_value) list \<Rightarrow> byte list" where
  "attrs_text kvs = 0x7b # list_text True (kv_texts 0 kvs) @ [0x7d]"

definition span_of :: "span_context \<Rightarrow> otel_span \<Rightarrow> pw_span" where
  "span_of ctx s =
     \<lparr>sp_label = snprintf_s 100 (ctx_label ctx),
      sp_trace_id = pw_to_hex 33 (os_trace_id s), sp_span_id = pw_to_hex 17 (os_span_id s),
      sp_parent_span_id = pw_to_hex 17 (os_parent_id s), sp_name = pw_copy_str 512 (os_name s),
      sp_service_name = snprintf_s 256 (ctx_service_name ctx), sp_scope_name = snprintf_s 256 (ctx_scope_name ctx),
      sp_kind = span_kind_name (word_of_nat (os_kind s)), sp_status_code = status_code_name (word_of_nat (os_status s)),
      sp_status_message = pw_copy_str 512 (os_status_msg s), sp_start_ns = os_start s, sp_end_ns = os_end s,
      sp_duration_ns = (if os_start s \<le> os_end s then os_end s - os_start s else 0),
      sp_attributes_json = attrs_text (os_attrs s)\<rparr>"

text \<open>A resource attribute counts only when it is a string.\<close>

fun resource_attr :: "byte list \<times> any_value \<Rightarrow> span_context \<Rightarrow> span_context" where
  "resource_attr (k, AvString v) ctx =
     (if kv_key k = lit ''service.name'' then ctx\<lparr>ctx_service_name := pw_copy_str 256 v\<rparr>
      else if kv_key k = lit ''procwatch.label'' then ctx\<lparr>ctx_label := pw_copy_str 100 v\<rparr>
      else ctx)"
| "resource_attr (k, _) ctx = ctx"

definition resource_ctx :: "(byte list \<times> any_value) list \<Rightarrow> span_context \<Rightarrow> span_context" where
  "resource_ctx kvs ctx = fold resource_attr kvs ctx"

definition scope_ctx :: "byte list \<Rightarrow> span_context \<Rightarrow> span_context" where
  "scope_ctx name ctx = ctx\<lparr>ctx_scope_name := pw_copy_str 256 name\<rparr>"

fun scopes_spans :: "span_context \<Rightarrow> otel_scope list \<Rightarrow> pw_span list" where
  "scopes_spans ctx [] = []"
| "scopes_spans ctx ((name, spans) # rest) =
     map (span_of (scope_ctx name ctx)) spans @ scopes_spans (scope_ctx name ctx) rest"

definition resource_spans :: "otel_resource \<Rightarrow> pw_span list" where
  "resource_spans = (\<lambda>(attrs, scopes). scopes_spans (resource_ctx attrs span_ctx_init) scopes)"

definition request_spans :: "otel_resource list \<Rightarrow> pw_span list" where
  "request_spans rs = concat (map resource_spans rs)"

text \<open>What the wire can carry and the arrays can hold.\<close>

definition span_encodable :: "otel_span \<Rightarrow> bool" where
  "span_encodable s \<longleftrightarrow> os_kind s < 2 ^ 64 \<and> os_status s < 2 ^ 64 \<and> length (attrs_text (os_attrs s)) < 8192"

section \<open>One span\<close>

lemma len_field: "length (enc_field f bs @ rest) < 2 ^ 64 \<Longrightarrow> length bs < 2 ^ 64 \<and> length rest < 2 ^ 64"
  using length_enc_field_bound[of f bs] by simp

lemma span_id_steps:
  assumes "views r (enc_field f bs @ rest)" "length bs < 2 ^ 64" "f \<in> {1, 2, 4, 5}"
  obtains r2 where "views r2 rest"
    "\<And>sp attrs fa h. span_loop r sp attrs fa h = span_loop r2
       (if f = 1 then sp\<lparr>sp_trace_id := pw_to_hex 33 bs\<rparr> else if f = 2 then sp\<lparr>sp_span_id := pw_to_hex 17 bs\<rparr>
        else if f = 4 then sp\<lparr>sp_parent_span_id := pw_to_hex 17 bs\<rparr>
        else sp\<lparr>sp_name := pw_copy_str 512 bs\<rparr>) attrs fa h"
proof -
  obtain r1 p r2 where rd: "pb_next r = PbTag (tag_of f 2) r1" "pb_bytes r1 = Some (p, r2)" "mem_bytes r2 p = bs" "views r2 rest"
    by (rule bytes_fieldE[OF assms(1) _ _ assms(2)]) (use assms(3) in auto)
  have step: "span_loop r sp attrs fa h = span_loop r2
       (if f = 1 then sp\<lparr>sp_trace_id := pw_to_hex 33 bs\<rparr> else if f = 2 then sp\<lparr>sp_span_id := pw_to_hex 17 bs\<rparr>
        else if f = 4 then sp\<lparr>sp_parent_span_id := pw_to_hex 17 bs\<rparr>
        else sp\<lparr>sp_name := pw_copy_str 512 bs\<rparr>) attrs fa h" for sp attrs fa h
    using assms(3) by (auto simp: span_loop.simps[of r] rd is_field_tag_of span_caps)
  show ?thesis
    by (rule that[OF rd(4) step])
qed

lemma span_num_steps:
  assumes "views r (enc_tag 6 0 @ enc_varint k @ enc_tag 7 1 @ enc_fixed64 s @ enc_tag 8 1 @ enc_fixed64 e @ rest)" "k < 2 ^ 64"
  obtains r2 where "views r2 rest"
    "\<And>sp attrs fa h. span_loop r sp attrs fa h =
       span_loop r2 (sp\<lparr>sp_kind := span_kind_name (word_of_nat k), sp_start_ns := s, sp_end_ns := e\<rparr>) attrs fa h"
proof -
  obtain r1 r2 where a: "pb_next r = PbTag (tag_of 6 0) r1" "pb_varint r1 = Some (word_of_nat k, r2)"
      "views r2 (enc_tag 7 1 @ enc_fixed64 s @ enc_tag 8 1 @ enc_fixed64 e @ rest)"
    by (rule varint_fieldE[OF assms(1) _ _ assms(2)]) auto
  obtain r3 r4 where b: "pb_next r2 = PbTag (tag_of 7 1) r3" "pb_fixed64 r3 = Some (s, r4)"
      "views r4 (enc_tag 8 1 @ enc_fixed64 e @ rest)"
    by (rule fixed64_fieldE[OF a(3)]) auto
  obtain r5 r6 where c: "pb_next r4 = PbTag (tag_of 8 1) r5" "pb_fixed64 r5 = Some (e, r6)" "views r6 rest"
    by (rule fixed64_fieldE[OF b(3)]) auto
  have step: "span_loop r sp attrs fa h =
      span_loop r6 (sp\<lparr>sp_kind := span_kind_name (word_of_nat k), sp_start_ns := s, sp_end_ns := e\<rparr>) attrs fa h"
    for sp attrs fa h
    by (simp add: span_loop.simps[of r] span_loop.simps[of r2] span_loop.simps[of r4] a b c is_field_tag_of)
  show ?thesis
    by (rule that[OF c(3) step])
qed

text \<open>The attributes append their members to the builder.\<close>

lemma span_attr_steps:
  "views r (concat (map (\<lambda>kv. enc_field 9 (enc_kv kv)) kvs) @ rest) \<Longrightarrow>
   length (concat (map (\<lambda>kv. enc_field 9 (enc_kv kv)) kvs)) < 2 ^ 64 \<Longrightarrow>
   \<exists>r2. views r2 rest \<and>
     (\<forall>sp attrs fa h. length (sb_buf attrs) + length (list_text fa (kv_texts 0 kvs)) < sb_cap attrs \<longrightarrow>
        (\<exists>attrs1. sb_buf attrs1 = sb_buf attrs @ list_text fa (kv_texts 0 kvs) \<and> sb_cap attrs1 = sb_cap attrs \<and>
           span_loop r sp attrs fa h =
             span_loop r2 sp attrs1 (fa \<and> kv_texts 0 kvs = []) (h \<or> kv_texts 0 kvs \<noteq> [])))"
proof (induction kvs arbitrary: r)
  case Nil
  then show ?case
    by (auto simp: kv_texts_def)
next
  case (Cons kv kvs)
  obtain k v where kv: "kv = (k, v)" by (cases kv)
  let ?tl = "concat (map (\<lambda>kv. enc_field 9 (enc_kv kv)) kvs)"
  have view: "views r (enc_field 9 (enc_kv (k, v)) @ (?tl @ rest))"
    using Cons.prems(1) by (simp add: kv)
  have len: "length (enc_kv (k, v)) < 2 ^ 64" "length ?tl < 2 ^ 64"
    using len_field[of 9 "enc_kv (k, v)" ?tl] Cons.prems(2) by (simp_all add: kv)
  obtain r1 sub r2 where rd: "pb_next r = PbTag (tag_of 9 2) r1" "pb_submsg r1 = Some (sub, r2)"
      "views sub (enc_kv (k, v))" "views r2 (?tl @ rest)"
    by (rule submsg_fieldE[OF view _ _ len(1)]) auto
  from Cons.IH[OF rd(4) len(2)] obtain r3 where r3: "views r3 rest" and
    IH: "\<And>sp attrs fa h. length (sb_buf attrs) + length (list_text fa (kv_texts 0 kvs)) < sb_cap attrs \<Longrightarrow>
        \<exists>attrs1. sb_buf attrs1 = sb_buf attrs @ list_text fa (kv_texts 0 kvs) \<and> sb_cap attrs1 = sb_cap attrs \<and>
           span_loop r2 sp attrs fa h =
             span_loop r3 sp attrs1 (fa \<and> kv_texts 0 kvs = []) (h \<or> kv_texts 0 kvs \<noteq> [])"
    by blast
  note ap = append_kv_renders[OF all_render rd(3) len(1)]
  have step: "span_loop r sp attrs fa h =
      (case pw_append_kv_json sub (if \<not> fa then pw_sb_putc attrs 0x2c else attrs) 0 of
         (wrote, attrs1) \<Rightarrow> if wrote then span_loop r2 sp attrs1 False True
           else span_loop r2 sp (sb_rollback (length (sb_buf attrs)) attrs1) fa h)" for sp attrs fa h
    by (simp add: span_loop.simps[of r] rd is_field_tag_of)
  have main: "\<exists>attrs1. sb_buf attrs1 = sb_buf attrs @ list_text fa (kv_texts 0 (kv # kvs)) \<and> sb_cap attrs1 = sb_cap attrs \<and>
      span_loop r sp attrs fa h =
        span_loop r3 sp attrs1 (fa \<and> kv_texts 0 (kv # kvs) = []) (h \<or> kv_texts 0 (kv # kvs) \<noteq> [])"
    if room: "length (sb_buf attrs) + length (list_text fa (kv_texts 0 (kv # kvs))) < sb_cap attrs" for sp attrs fa h
  proof (cases "kv_key k = []")
    case True
    let ?attrs = "sb_rollback (length (sb_buf attrs)) (if \<not> fa then pw_sb_putc attrs 0x2c else attrs)"
    have same: "sb_buf ?attrs = sb_buf attrs" "sb_cap ?attrs = sb_cap attrs"
      using sb_rollback_buf[of attrs "if \<not> fa then pw_sb_putc attrs 0x2c else attrs"]
      by (auto simp: sb_rollback_def pw_sb_putc_def)
    have texts: "kv_texts 0 (kv # kvs) = kv_texts 0 kvs"
      by (simp add: kv kv_texts_def True)
    have eq: "span_loop r sp attrs fa h = span_loop r2 sp ?attrs fa h"
      by (simp add: step ap(2)[OF True])
    show ?thesis
      using IH[of ?attrs fa sp h] room unfolding eq texts same .
  next
    case False
    define item where "item = json_quote (kv_key k) @ 0x3a # render 1 v"
    let ?a0 = "if \<not> fa then pw_sb_putc attrs 0x2c else attrs"
    let ?a1 = "snd (pw_append_kv_json sub ?a0 0)"
    have texts: "kv_texts 0 (kv # kvs) = item # kv_texts 0 kvs"
      by (simp add: kv kv_texts_def False item_def)
    have eq: "span_loop r sp attrs fa h = span_loop r2 sp ?a1 False True"
      using ap(1)[of ?a0 0] False by (auto simp: step split: prod.splits)
    have sep: "emits (\<lambda>sb. if \<not> fa then pw_sb_putc sb 0x2c else sb) (if fa then [] else [0x2c])"
      by (cases fa) auto
    have em: "emits (\<lambda>sb. snd (pw_append_kv_json sub (if \<not> fa then pw_sb_putc sb 0x2c else sb) 0)) ((if fa then [] else [0x2c]) @ item)"
      using emits_comp[OF sep ap(3)[OF False, of 0]] by (simp add: item_def)
    have a1: "sb_buf ?a1 = sb_buf attrs @ (if fa then [] else [0x2c]) @ item" "sb_cap ?a1 = sb_cap attrs"
      using emitsD[OF em, of attrs] room by (auto simp: texts split: if_splits)
    have room1: "length (sb_buf ?a1) + length (list_text False (kv_texts 0 kvs)) < sb_cap ?a1"
      using room by (auto simp: a1 texts split: if_splits)
    from IH[OF room1, of sp True] obtain attrs1 where
      "sb_buf attrs1 = sb_buf ?a1 @ list_text False (kv_texts 0 kvs)" "sb_cap attrs1 = sb_cap ?a1"
      "span_loop r2 sp ?a1 False True = span_loop r3 sp attrs1 False True"
      by auto
    then show ?thesis
      using a1 by (intro exI[of _ attrs1]) (auto simp: eq texts)
  qed
  show ?case
    using r3 main by blast
qed

lemma span_status_step:
  assumes "views r (enc_field 15 (enc_status s))" "length (enc_status s) < 2 ^ 64" "os_status s < 2 ^ 64"
  shows "span_loop r sp attrs fa h = Some (sp\<lparr>sp_status_message := pw_copy_str 512 (os_status_msg s),
      sp_status_code := status_code_name (word_of_nat (os_status s))\<rparr>, attrs, h)"
proof -
  have v: "views r (enc_field 15 (enc_status s) @ [])" using assms(1) by simp
  obtain r1 sub r2 where rd: "pb_next r = PbTag (tag_of 15 2) r1" "pb_submsg r1 = Some (sub, r2)"
      "views sub (enc_status s)" "views r2 []"
    by (rule submsg_fieldE[OF v _ _ assms(2)]) auto
  have lens: "length (os_status_msg s) < 2 ^ 64"
    using len_field[OF assms(2)[unfolded enc_status_def]] by simp
  have sub: "views sub (enc_field 2 (os_status_msg s) @ (enc_tag 3 0 @ enc_varint (os_status s)))"
    using rd(3) by (simp add: enc_status_def)
  obtain q1 p q2 where a: "pb_next sub = PbTag (tag_of 2 2) q1" "pb_bytes q1 = Some (p, q2)"
      "mem_bytes q2 p = os_status_msg s" "views q2 (enc_tag 3 0 @ enc_varint (os_status s))"
    by (rule bytes_fieldE[OF sub _ _ lens]) auto
  have q2: "views q2 (enc_tag 3 0 @ enc_varint (os_status s) @ [])" using a(4) by simp
  obtain q3 q4 where b: "pb_next q2 = PbTag (tag_of 3 0) q3" "pb_varint q3 = Some (word_of_nat (os_status s), q4)" "views q4 []"
    by (rule varint_fieldE[OF q2 _ _ assms(3)]) auto
  show ?thesis
    by (simp add: span_loop.simps[of r] span_loop.simps[of r2] status_loop.simps[of sub] status_loop.simps[of q2]
        status_loop.simps[of q4] rd views_Nil a b is_field_tag_of span_caps)
qed

lemma decode_span_enc:
  assumes view: "views r (enc_span s)" and len: "length (enc_span s) < 2 ^ 64" and ok: "span_encodable s"
  shows "decode_span r ctx (Some sink) u = sink (span_of ctx s) u"
proof -
  let ?nums = "enc_tag 6 0 @ enc_varint (os_kind s) @ enc_tag 7 1 @ enc_fixed64 (os_start s) @ enc_tag 8 1 @ enc_fixed64 (os_end s)"
  let ?attrs = "concat (map (\<lambda>kv. enc_field 9 (enc_kv kv)) (os_attrs s))"
  let ?st = "enc_field 15 (enc_status s)"
  have enc: "enc_span s = enc_field 1 (os_trace_id s) @ (enc_field 2 (os_span_id s) @ (enc_field 4 (os_parent_id s) @
      (enc_field 5 (os_name s) @ (?nums @ (?attrs @ ?st)))))"
    by (simp add: enc_span_def)
  note len1 = len_field[OF len[unfolded enc]]
  note len2 = len_field[OF len1[THEN conjunct2]]
  note len3 = len_field[OF len2[THEN conjunct2]]
  note len4 = len_field[OF len3[THEN conjunct2]]
  from len4 have lena: "length ?attrs < 2 ^ 64" "length (enc_status s) < 2 ^ 64"
    using len_field[of 15 "enc_status s" "[]"] by auto
  obtain r1 where 1: "views r1 (enc_field 2 (os_span_id s) @ (enc_field 4 (os_parent_id s) @
      (enc_field 5 (os_name s) @ (?nums @ (?attrs @ ?st)))))"
    and s1: "\<And>sp attrs fa h. span_loop r sp attrs fa h =
       span_loop r1 (sp\<lparr>sp_trace_id := pw_to_hex 33 (os_trace_id s)\<rparr>) attrs fa h"
    by (rule span_id_steps[OF view[unfolded enc] len1[THEN conjunct1]]) auto
  obtain r2 where 2: "views r2 (enc_field 4 (os_parent_id s) @ (enc_field 5 (os_name s) @ (?nums @ (?attrs @ ?st))))"
    and s2: "\<And>sp attrs fa h. span_loop r1 sp attrs fa h =
       span_loop r2 (sp\<lparr>sp_span_id := pw_to_hex 17 (os_span_id s)\<rparr>) attrs fa h"
    by (rule span_id_steps[OF 1 len2[THEN conjunct1]]) auto
  obtain r3 where 3: "views r3 (enc_field 5 (os_name s) @ (?nums @ (?attrs @ ?st)))"
    and s3: "\<And>sp attrs fa h. span_loop r2 sp attrs fa h =
       span_loop r3 (sp\<lparr>sp_parent_span_id := pw_to_hex 17 (os_parent_id s)\<rparr>) attrs fa h"
    by (rule span_id_steps[OF 2 len3[THEN conjunct1]]) auto
  obtain r4 where 4: "views r4 (?nums @ (?attrs @ ?st))"
    and s4: "\<And>sp attrs fa h. span_loop r3 sp attrs fa h =
       span_loop r4 (sp\<lparr>sp_name := pw_copy_str 512 (os_name s)\<rparr>) attrs fa h"
    by (rule span_id_steps[OF 3 len4[THEN conjunct1]]) auto
  have num: "views r4 (enc_tag 6 0 @ enc_varint (os_kind s) @ enc_tag 7 1 @ enc_fixed64 (os_start s) @ enc_tag 8 1 @
      enc_fixed64 (os_end s) @ (?attrs @ ?st))"
    using 4 by simp
  have kind: "os_kind s < 2 ^ 64" "os_status s < 2 ^ 64" using ok by (auto simp: span_encodable_def)
  obtain r5 where 5: "views r5 (?attrs @ ?st)"
    and s5: "\<And>sp attrs fa h. span_loop r4 sp attrs fa h =
       span_loop r5 (sp\<lparr>sp_kind := span_kind_name (word_of_nat (os_kind s)), sp_start_ns := os_start s,
         sp_end_ns := os_end s\<rparr>) attrs fa h"
    by (rule span_num_steps[OF num kind(1)]) auto
  define a0 where "a0 = pw_sb_putc (pw_sb_init PW_SPAN_ATTRS_MAX) 0x7b"
  have a0: "sb_buf a0 = [0x7b]" "sb_cap a0 = 8192"
    by (simp_all add: a0_def pw_sb_putc_def pw_sb_init_def span_caps)
  have room: "length (sb_buf a0) + length (list_text True (kv_texts 0 (os_attrs s))) < sb_cap a0"
    using ok by (simp add: a0 span_encodable_def attrs_text_def)
  from span_attr_steps[OF 5 lena(1)] obtain r6 where 6: "views r6 ?st" and
    "\<And>sp attrs fa h. length (sb_buf attrs) + length (list_text fa (kv_texts 0 (os_attrs s))) < sb_cap attrs \<Longrightarrow>
        (\<exists>attrs1. sb_buf attrs1 = sb_buf attrs @ list_text fa (kv_texts 0 (os_attrs s)) \<and> sb_cap attrs1 = sb_cap attrs \<and>
           span_loop r5 sp attrs fa h =
             span_loop r6 sp attrs1 (fa \<and> kv_texts 0 (os_attrs s) = []) (h \<or> kv_texts 0 (os_attrs s) \<noteq> []))"
    by blast
  note attr = this(2)[OF room]
  define sp5 where "sp5 = (span_init ctx)\<lparr>sp_trace_id := pw_to_hex 33 (os_trace_id s), sp_span_id := pw_to_hex 17 (os_span_id s),
      sp_parent_span_id := pw_to_hex 17 (os_parent_id s), sp_name := pw_copy_str 512 (os_name s),
      sp_kind := span_kind_name (word_of_nat (os_kind s)), sp_start_ns := os_start s, sp_end_ns := os_end s\<rparr>"
  from attr[of sp5 False] obtain a1 where a1: "sb_buf a1 = 0x7b # list_text True (kv_texts 0 (os_attrs s))" "sb_cap a1 = 8192"
    and s6: "span_loop r5 sp5 a0 True False =
      span_loop r6 sp5 a1 (kv_texts 0 (os_attrs s) = []) (kv_texts 0 (os_attrs s) \<noteq> [])"
    by (auto simp: a0)
  have "span_loop r (span_init ctx) a0 True False = span_loop r5 sp5 a0 True False"
    by (simp add: s1 s2 s3 s4 s5 sp5_def)
  also note s6
  also note span_status_step[OF 6 lena(2) kind(2)]
  finally have loop: "span_loop r (span_init ctx) a0 True False =
    Some (sp5\<lparr>sp_status_message := pw_copy_str 512 (os_status_msg s),
      sp_status_code := status_code_name (word_of_nat (os_status s))\<rparr>, a1, kv_texts 0 (os_attrs s) \<noteq> [])" .
  have "length (attrs_text (os_attrs s)) < 8192"
    using ok by (simp add: span_encodable_def)
  then have close: "sb_buf (pw_sb_putc a1 0x7d) = attrs_text (os_attrs s)"
    by (simp add: pw_sb_putc_def a1 attrs_text_def)
  have empty: "lit ''{}'' = attrs_text (os_attrs s)" if "kv_texts 0 (os_attrs s) = []"
    using that by (simp add: attrs_text_def lit_def)
  have fin: "span_finish (sp5\<lparr>sp_status_message := pw_copy_str 512 (os_status_msg s),
      sp_status_code := status_code_name (word_of_nat (os_status s))\<rparr>) a1 (kv_texts 0 (os_attrs s) \<noteq> []) = span_of ctx s"
    using close empty
    by (cases "kv_texts 0 (os_attrs s) = []")
      (simp_all add: span_finish_def sp5_def span_of_def span_init_def span_caps)
  show ?thesis
    by (simp add: decode_span_def loop fin flip: a0_def)
qed

section \<open>Scopes, resources, requests\<close>

text \<open>
  A list of spans handed to a sink until it refuses one: the sign of the refusal, the state and the number taken.
\<close>

fun feed :: "('a \<Rightarrow> 'u \<Rightarrow> int \<times> 'u) \<Rightarrow> 'a list \<Rightarrow> 'u \<Rightarrow> nat \<Rightarrow> int \<times> 'u \<times> nat" where
  "feed sink [] u k = (0, u, k)"
| "feed sink (x # xs) u k =
     (case sink x u of (rc, u1) \<Rightarrow> if rc = 0 then feed sink xs u1 (k + 1) else (sgn rc, u1, k))"

lemma feed_append:
  "feed sink (xs @ ys) u k =
     (case feed sink xs u k of (rc, u1, k1) \<Rightarrow> if rc \<noteq> 0 then (rc, u1, k1) else feed sink ys u1 k1)"
  by (induction xs arbitrary: u k) (auto simp: sgn_0_0 split: prod.split)

lemma scope_spans_steps:
  "views r (concat (map (\<lambda>s. enc_field 2 (enc_span s)) spans)) \<Longrightarrow>
   length (concat (map (\<lambda>s. enc_field 2 (enc_span s)) spans)) < 2 ^ 64 \<Longrightarrow> list_all span_encodable spans \<Longrightarrow>
   decode_scope_spans r ctx (Some sink) u k =
     (case feed sink (map (span_of ctx) spans) u k of (rc, u1, k1) \<Rightarrow> (rc, ctx, u1, k1))"
proof (induction spans arbitrary: r u k)
  case Nil
  then show ?case
    by (simp add: decode_scope_spans.simps[of r] views_Nil)
next
  case (Cons s spans)
  let ?tl = "concat (map (\<lambda>s. enc_field 2 (enc_span s)) spans)"
  have len: "length (enc_span s) < 2 ^ 64" "length ?tl < 2 ^ 64"
    using len_field[of 2 "enc_span s" ?tl] Cons.prems(2) by simp_all
  have view: "views r (enc_field 2 (enc_span s) @ ?tl)"
    using Cons.prems(1) by simp
  obtain r1 sub r2 where rd: "pb_next r = PbTag (tag_of 2 2) r1" "pb_submsg r1 = Some (sub, r2)"
      "views sub (enc_span s)" "views r2 ?tl"
    by (rule submsg_fieldE[OF view _ _ len(1)]) auto
  have "decode_span sub ctx (Some sink) u = sink (span_of ctx s) u"
    using Cons.prems(3) by (intro decode_span_enc[OF rd(3) len(1)]) simp
  moreover have "decode_scope_spans r2 ctx (Some sink) v (k + 1) =
      (case feed sink (map (span_of ctx) spans) v (k + 1) of (rc, u1, k1) \<Rightarrow> (rc, ctx, u1, k1))" for v
    using Cons.prems len(2) rd(4) by (intro Cons.IH) auto
  ultimately show ?case
    by (cases "sink (span_of ctx s) u") (simp add: decode_scope_spans.simps[of r] rd is_field_tag_of)
qed

lemma scope_name_enc:
  assumes "views r (enc_field 1 name)" "length name < 2 ^ 64"
  shows "scope_loop r n0 = pw_copy_str 256 name"
proof -
  have v: "views r (enc_field 1 name @ [])" using assms by simp
  obtain r1 p r2 where "pb_next r = PbTag (tag_of 1 2) r1" "pb_bytes r1 = Some (p, r2)" "mem_bytes r2 p = name" "views r2 []"
    by (rule bytes_fieldE[OF v _ _ assms(2)]) auto
  then show ?thesis
    by (simp add: scope_loop.simps[of r] scope_loop.simps[of r2] views_Nil is_field_tag_of span_caps)
qed

lemma scope_steps:
  assumes "views r (enc_scope (name, spans))" "length (enc_scope (name, spans)) < 2 ^ 64"
    "list_all span_encodable spans"
  shows "decode_scope_spans r ctx (Some sink) u k =
    (case feed sink (map (span_of (scope_ctx name ctx)) spans) u k of (rc, u1, k1) \<Rightarrow> (rc, scope_ctx name ctx, u1, k1))"
proof -
  let ?tl = "concat (map (\<lambda>s. enc_field 2 (enc_span s)) spans)"
  have len: "length (enc_field 1 name) < 2 ^ 64" "length ?tl < 2 ^ 64"
    using len_field[of 1 "enc_field 1 name" ?tl] assms(2) by (simp_all add: enc_scope_def)
  have view: "views r (enc_field 1 (enc_field 1 name) @ ?tl)"
    using assms(1) by (simp add: enc_scope_def)
  obtain r1 sub r2 where rd: "pb_next r = PbTag (tag_of 1 2) r1" "pb_submsg r1 = Some (sub, r2)"
      "views sub (enc_field 1 name)" "views r2 ?tl"
    by (rule submsg_fieldE[OF view _ _ len(1)]) auto
  have "scope_loop sub n0 = pw_copy_str 256 name" for n0
    by (rule scope_name_enc[OF rd(3) length_enc_field_bound[OF len(1)]])
  then have "decode_scope_spans r ctx (Some sink) u k = decode_scope_spans r2 (scope_ctx name ctx) (Some sink) u k"
    by (simp add: decode_scope_spans.simps[of r] rd is_field_tag_of scope_ctx_def)
  then show ?thesis
    using scope_spans_steps[OF rd(4) len(2) assms(3)] by simp
qed

lemma value_as_string_enc:
  assumes "views r (enc_any v)" "length (enc_any v) < 2 ^ 64"
  shows "pw_any_value_as_string r cap = (case v of AvString s \<Rightarrow> Some (pw_copy_str cap s) | _ \<Rightarrow> None)"
proof -
  have bytes: "pw_any_value_as_string r cap = None" if f: "0 < f" "f < 2 ^ 29" "f \<in> {5, 6, 7}"
    and v: "views r (enc_field f bs @ [])" "length bs < 2 ^ 64" for f bs
  proof -
    obtain r1 p r2 where "pb_next r = PbTag (tag_of f 2) r1" "pb_bytes r1 = Some (p, r2)" "views r2 []"
      by (rule bytes_fieldE[OF v(1) f(1,2) v(2)]) auto
    then show ?thesis
      using f(3) by (auto simp: pw_any_value_as_string.simps[of r] pw_any_value_as_string.simps[of r2] views_Nil
          is_field_def pb_skip_def tag_of_def)
  qed
  show ?thesis
  proof (cases v)
    case (AvString s)
    have v: "views r (enc_field 1 s @ [])" using assms(1) by (simp add: AvString)
    obtain r1 p r2 where "pb_next r = PbTag (tag_of 1 2) r1" "pb_bytes r1 = Some (p, r2)" "mem_bytes r2 p = s"
      by (rule bytes_fieldE[OF v]) (use assms(2) length_enc_field_bound in \<open>auto simp: AvString simp del: One_nat_def\<close>)
    then show ?thesis
      by (simp add: AvString pw_any_value_as_string.simps[of r] is_field_tag_of)
  next
    case (AvBool b)
    have v: "views r (enc_tag 2 0 @ enc_varint (if b then 1 else 0) @ [])" using assms(1) by (simp add: AvBool)
    obtain r1 r2 where "pb_next r = PbTag (tag_of 2 0) r1" "pb_varint r1 = Some (word_of_nat (if b then 1 else 0), r2)" "views r2 []"
      by (rule varint_fieldE[OF v]) auto
    then show ?thesis
      by (simp add: AvBool pw_any_value_as_string.simps[of r] pw_any_value_as_string.simps[of r2] views_Nil
          is_field_def pb_skip_def tag_of_def)
  next
    case (AvInt w)
    have v: "views r (enc_tag 3 0 @ enc_varint (unat w) @ [])" using assms(1) by (simp add: AvInt)
    have "unat w < 2 ^ 64" using unsigned_less[of w] by simp
    from varint_fieldE[OF v _ _ this]
    obtain r1 r2 where "pb_next r = PbTag (tag_of 3 0) r1" "pb_varint r1 = Some (w, r2)" "views r2 []"
      by auto
    then show ?thesis
      by (simp add: AvInt pw_any_value_as_string.simps[of r] pw_any_value_as_string.simps[of r2] views_Nil
          is_field_def pb_skip_def tag_of_def)
  next
    case (AvDouble x)
    have v: "views r (enc_tag 4 1 @ enc_fixed64 x @ [])" using assms(1) by (simp add: AvDouble)
    obtain r1 r2 where "pb_next r = PbTag (tag_of 4 1) r1" "pb_fixed64 r1 = Some (x, r2)" "views r2 []"
      by (rule fixed64_fieldE[OF v]) auto
    then show ?thesis
      by (simp add: AvDouble pw_any_value_as_string.simps[of r] pw_any_value_as_string.simps[of r2] views_Nil
          is_field_def pb_skip_def tag_of_def)
  next
    case (AvArray vs)
    show ?thesis
      using assms bytes[of 5 "concat (map (\<lambda>v. enc_field 1 (enc_any v)) vs)"] length_enc_field_bound
      by (simp add: AvArray)
  next
    case (AvKvlist kvs)
    show ?thesis
      using assms bytes[of 6 "concat (map (\<lambda>(k, v). enc_field 1 (enc_field 1 k @ enc_field 2 (enc_any v))) kvs)"]
        length_enc_field_bound
      by (simp add: AvKvlist)
  next
    case (AvBytes s)
    show ?thesis
      using assms bytes[of 7 s] length_enc_field_bound by (simp add: AvBytes)
  qed
qed

lemma res_attr_enc:
  assumes "views r (enc_kv kv)" "length (enc_kv kv) < 2 ^ 64"
  shows "span_res_attr r ctx = resource_attr kv ctx"
proof -
  obtain k v where kv: "kv = (k, v)" by (cases kv)
  obtain w where w: "pw_parse_kv 256 r = (kv_key k, Some w)" "views w (enc_any v)"
    using assms by (auto simp: kv elim: parse_kv_enc)
  have "length (enc_any v) < 2 ^ 64"
    using assms(2) by (simp add: kv enc_kv_def enc_field_def enc_bytes_def)
  note val = value_as_string_enc[OF w(2) this]
  show ?thesis
    by (cases v) (auto simp: kv span_res_attr_def w(1) val span_caps)
qed

lemma resource_steps:
  "views r (concat (map (\<lambda>kv. enc_field 1 (enc_kv kv)) kvs)) \<Longrightarrow>
   length (concat (map (\<lambda>kv. enc_field 1 (enc_kv kv)) kvs)) < 2 ^ 64 \<Longrightarrow>
   span_resource_loop r ctx = resource_ctx kvs ctx"
proof (induction kvs arbitrary: r ctx)
  case Nil
  then show ?case
    by (simp add: span_resource_loop.simps[of r] views_Nil resource_ctx_def)
next
  case (Cons kv kvs)
  let ?tl = "concat (map (\<lambda>kv. enc_field 1 (enc_kv kv)) kvs)"
  have len: "length (enc_kv kv) < 2 ^ 64" "length ?tl < 2 ^ 64"
    using len_field[of 1 "enc_kv kv" ?tl] Cons.prems(2) by simp_all
  have view: "views r (enc_field 1 (enc_kv kv) @ ?tl)"
    using Cons.prems(1) by simp
  obtain r1 sub r2 where rd: "pb_next r = PbTag (tag_of 1 2) r1" "pb_submsg r1 = Some (sub, r2)"
      "views sub (enc_kv kv)" "views r2 ?tl"
    by (rule submsg_fieldE[OF view _ _ len(1)]) auto
  have "span_resource_loop r ctx = span_resource_loop r2 (span_res_attr sub ctx)"
    by (simp add: span_resource_loop.simps[of r] rd is_field_tag_of)
  then show ?case
    using Cons.IH[OF rd(4) len(2)] res_attr_enc[OF rd(3) len(1)] by (simp add: resource_ctx_def)
qed

text \<open>The scopes of a resource are buffered first, up to the limit.\<close>

definition holds_scope :: "pb_reader \<Rightarrow> otel_scope \<Rightarrow> bool" where
  "holds_scope r sc \<longleftrightarrow> views r (enc_scope sc) \<and> length (enc_scope sc) < 2 ^ 64 \<and> list_all span_encodable (snd sc)"

lemma buffer_steps:
  "views r (concat (map (\<lambda>sc. enc_field 2 (enc_scope sc)) scopes)) \<Longrightarrow>
   length (concat (map (\<lambda>sc. enc_field 2 (enc_scope sc)) scopes)) < 2 ^ 64 \<Longrightarrow>
   list_all (\<lambda>sc. list_all span_encodable (snd sc)) scopes \<Longrightarrow> length pending + length scopes \<le> 64 \<Longrightarrow>
   \<exists>subs. resource_spans_loop r ctx pending sink u k = Inr (ctx, pending @ subs, u, k) \<and> list_all2 holds_scope subs scopes"
proof (induction scopes arbitrary: r pending)
  case Nil
  then show ?case
    by (simp add: resource_spans_loop.simps[of r] views_Nil)
next
  case (Cons sc scopes)
  let ?tl = "concat (map (\<lambda>sc. enc_field 2 (enc_scope sc)) scopes)"
  have len: "length (enc_scope sc) < 2 ^ 64" "length ?tl < 2 ^ 64"
    using len_field[of 2 "enc_scope sc" ?tl] Cons.prems(2) by simp_all
  have view: "views r (enc_field 2 (enc_scope sc) @ ?tl)"
    using Cons.prems(1) by simp
  obtain r1 sub r2 where rd: "pb_next r = PbTag (tag_of 2 2) r1" "pb_submsg r1 = Some (sub, r2)"
      "views sub (enc_scope sc)" "views r2 ?tl"
    by (rule submsg_fieldE[OF view _ _ len(1)]) auto
  have step: "resource_spans_loop r ctx pending sink u k = resource_spans_loop r2 ctx (pending @ [sub]) sink u k"
    using Cons.prems(4) by (simp add: resource_spans_loop.simps[of r] rd is_field_tag_of PENDING_MAX_def)
  have "\<exists>subs. resource_spans_loop r2 ctx (pending @ [sub]) sink u k = Inr (ctx, (pending @ [sub]) @ subs, u, k) \<and>
      list_all2 holds_scope subs scopes"
    using Cons.prems len(2) rd(4) by (intro Cons.IH) auto
  then obtain subs where "resource_spans_loop r2 ctx (pending @ [sub]) sink u k = Inr (ctx, (pending @ [sub]) @ subs, u, k)"
      "list_all2 holds_scope subs scopes" by blast
  moreover have "holds_scope sub sc"
    using rd(3) len(1) Cons.prems(3) by (simp add: holds_scope_def)
  ultimately show ?case
    by (intro exI[of _ "sub # subs"]) (simp add: step)
qed

lemma pending_steps:
  "list_all2 holds_scope subs scopes \<Longrightarrow>
   pending_spans subs ctx (Some sink) u k = feed sink (scopes_spans ctx scopes) u k"
proof (induction subs arbitrary: scopes ctx u k)
  case (Cons sub subs)
  obtain name spans rest where sc: "scopes = (name, spans) # rest" "holds_scope sub (name, spans)" "list_all2 holds_scope subs rest"
    using Cons.prems by (cases scopes) auto
  then have "decode_scope_spans sub ctx (Some sink) u k =
      (case feed sink (map (span_of (scope_ctx name ctx)) spans) u k of (rc, u1, k1) \<Rightarrow> (rc, scope_ctx name ctx, u1, k1))"
    by (intro scope_steps) (auto simp: holds_scope_def)
  then show ?case
    using Cons.IH[OF sc(3)] by (auto simp: sc(1) feed_append split: prod.split)
qed simp

definition resource_encodable :: "otel_resource \<Rightarrow> bool" where
  "resource_encodable = (\<lambda>(attrs, scopes).
     length scopes \<le> 64 \<and> list_all (\<lambda>sc. list_all span_encodable (snd sc)) scopes)"

lemma resource_enc:
  assumes "views r (enc_resource_spans res)" "length (enc_resource_spans res) < 2 ^ 64" "resource_encodable res"
  shows "decode_resource_spans r (Some sink) u k = feed sink (resource_spans res) u k"
proof -
  obtain attrs scopes where res: "res = (attrs, scopes)" by (cases res)
  let ?at = "concat (map (\<lambda>kv. enc_field 1 (enc_kv kv)) attrs)"
  let ?sc = "concat (map (\<lambda>sc. enc_field 2 (enc_scope sc)) scopes)"
  have len: "length ?at < 2 ^ 64" "length ?sc < 2 ^ 64"
    using len_field[of 1 ?at ?sc] assms(2) by (simp_all add: res enc_resource_spans_def)
  have view: "views r (enc_field 1 ?at @ ?sc)"
    using assms(1) by (simp add: res enc_resource_spans_def)
  obtain r1 sub r2 where rd: "pb_next r = PbTag (tag_of 1 2) r1" "pb_submsg r1 = Some (sub, r2)"
      "views sub ?at" "views r2 ?sc"
    by (rule submsg_fieldE[OF view _ _ len(1)]) auto
  have first: "resource_spans_loop r span_ctx_init [] (Some sink) u k =
      resource_spans_loop r2 (resource_ctx attrs span_ctx_init) [] (Some sink) u k"
    by (simp add: resource_spans_loop.simps[of r] rd is_field_tag_of resource_steps[OF rd(3) len(1)])
  obtain subs where subs: "resource_spans_loop r2 (resource_ctx attrs span_ctx_init) [] (Some sink) u k =
        Inr (resource_ctx attrs span_ctx_init, subs, u, k)" "list_all2 holds_scope subs scopes"
    using buffer_steps[OF rd(4) len(2), of "[]" "resource_ctx attrs span_ctx_init" "Some sink" u k] assms(3) by (auto simp: res resource_encodable_def)
  show ?thesis
    by (simp add: decode_resource_spans_def first subs(1) pending_steps[OF subs(2)] resource_spans_def res)
qed

lemma feed_sign: "feed sink xs u k = (rc, u1, k1) \<Longrightarrow> rc \<in> {- 1, 0, 1} \<and> k \<le> k1"
  by (induction xs arbitrary: u k) (fastforce simp: sgn_if split: prod.splits if_splits)+

lemma request_steps:
  "views r (enc_request rs) \<Longrightarrow> length (enc_request rs) < 2 ^ 64 \<Longrightarrow> list_all resource_encodable rs \<Longrightarrow>
   traces_loop r (Some sink) u k =
     (case feed sink (request_spans rs) u k of (rc, u1, k1) \<Rightarrow> (if rc < 0 then count_or_error k1 else int k1, u1))"
proof (induction rs arbitrary: r u k)
  case Nil
  then show ?case
    by (simp add: traces_loop.simps[of r] views_Nil enc_request_def request_spans_def)
next
  case (Cons res rs)
  have len: "length (enc_resource_spans res) < 2 ^ 64" "length (enc_request rs) < 2 ^ 64"
    using len_field[of 1 "enc_resource_spans res" "enc_request rs"] Cons.prems(2) by (simp_all add: enc_request_def)
  have view: "views r (enc_field 1 (enc_resource_spans res) @ enc_request rs)"
    using Cons.prems(1) by (simp add: enc_request_def)
  obtain r1 sub r2 where rd: "pb_next r = PbTag (tag_of 1 2) r1" "pb_submsg r1 = Some (sub, r2)"
      "views sub (enc_resource_spans res)" "views r2 (enc_request rs)"
    by (rule submsg_fieldE[OF view _ _ len(1)]) auto
  have "decode_resource_spans sub (Some sink) u k = feed sink (resource_spans res) u k"
    using Cons.prems by (intro resource_enc rd(3) len) auto
  moreover have "request_spans (res # rs) = resource_spans res @ request_spans rs"
    by (simp add: request_spans_def)
  ultimately show ?case
    using Cons.IH[OF rd(4) len(2)] Cons.prems(3)
    by (auto simp: traces_loop.simps[of r] rd is_field_tag_of feed_append split: prod.split)
qed

lemma trace_decode:
  assumes "length (enc_request rs) < 2 ^ 64" "list_all resource_encodable rs"
  shows "otlp_decode_traces (enc_request rs) (Some sink) u =
    (case feed sink (request_spans rs) u 0 of (rc, u1, k) \<Rightarrow> (if rc < 0 \<and> k = 0 then - 1 else int k, u1))"
proof -
  have "views (pb_reader_init (enc_request rs) 0 (length (enc_request rs))) (enc_request rs)"
    by (simp add: views_def rd_ok_def rd_view_def rd_left_def pb_reader_init_def)
  from request_steps[OF this assms, of sink u 0] show ?thesis
    by (auto simp: otlp_decode_traces_def count_or_error_def split: prod.split)
qed


definition sample_request :: "otel_resource list" where
  "sample_request =
     [([(lit ''service.name'', AvString (lit ''api''))],
       [(lit ''lib'', [\<lparr>os_trace_id = [0xab, 1], os_span_id = [2], os_parent_id = [], os_name = lit ''GET'', os_kind = 2,
          os_start = 5, os_end = 9, os_attrs = [(lit ''n'', AvInt 3)], os_status_msg = [], os_status = 1\<rparr>])])]"


end
