(* ===== verification/MetricProps.thy ===== *)
theory MetricProps
  imports OtlpMetric TraceProps
begin

text \<open>
  What \<^verbatim>\<open>src/agent/otlp_metric.c\<close> promises its sink, for every payload: each data point handed over fits its arrays
  and is made of proper C strings, and the result counts the points the sink took.  The sink's side is the locale
  \<open>point_consumer\<close>, as \<open>span_consumer\<close> for traces.
\<close>

section \<open>Points that fit\<close>

definition type_names :: "cstring list" where
  "type_names = map lit [''gauge'', ''sum'', ''histogram'']"

definition point_fields_ok :: "pw_metric_point \<Rightarrow> bool" where
  "point_fields_ok pt \<longleftrightarrow>
     str_ok 100 (mp_label pt) \<and> str_ok 256 (mp_service_name pt) \<and> str_ok 256 (mp_scope_name pt) \<and>
     str_ok 64 (mp_pid_key pt) \<and> str_ok 256 (mp_metric_name pt) \<and> str_ok 256 (mp_description pt) \<and>
     str_ok 64 (mp_unit pt) \<and> mp_metric_type pt \<in> set type_names"

definition point_ok :: "pw_metric_point \<Rightarrow> bool" where
  "point_ok pt \<longleftrightarrow> point_fields_ok pt \<and> str_ok 2048 (mp_attributes_json pt) \<and> clean (mp_attributes_json pt)"

definition mctx_ok :: "metric_context \<Rightarrow> bool" where
  "mctx_ok ctx \<longleftrightarrow>
     str_ok 256 (mctx_service_name ctx) \<and> str_ok 256 (mctx_scope_name ctx) \<and> str_ok 100 (mctx_label ctx) \<and>
     str_ok 64 (mctx_pid_key ctx)"

definition metric_head_ok :: "metric_head \<Rightarrow> bool" where
  "metric_head_ok h \<longleftrightarrow> str_ok 256 (mh_name h) \<and> str_ok 256 (mh_description h) \<and> str_ok 64 (mh_unit h)"

definition point_parts_ok :: "(pw_metric_point \<times> pw_sb \<times> bool) option \<Rightarrow> bool" where
  "point_parts_ok res \<longleftrightarrow>
     (case res of None \<Rightarrow> True | Some (pt, attrs, h) \<Rightarrow> point_fields_ok pt \<and> fits 2048 attrs \<and> clean (sb_buf attrs))"

lemma point_parts_ok_simps [simp]:
  "point_parts_ok None"
  "point_parts_ok (Some (pt, attrs, h)) \<longleftrightarrow> point_fields_ok pt \<and> fits 2048 attrs \<and> clean (sb_buf attrs)"
  by (simp_all add: point_parts_ok_def)

lemma point_fields_upd [simp]:
  "point_fields_ok (pt\<lparr>mp_time_ns := v\<rparr>) = point_fields_ok pt"
  "point_fields_ok (pt\<lparr>mp_count := v\<rparr>) = point_fields_ok pt"
  "point_fields_ok (pt\<lparr>mp_value := x\<rparr>) = point_fields_ok pt"
  by (simp_all add: point_fields_ok_def)

lemma point_attrs_ok:
  assumes "fits 2048 attrs" "clean (sb_buf attrs)" "decode_point_attrs kv attrs f h = (attrs1, f1, h1)"
  shows "fits 2048 attrs1 \<and> clean (sb_buf attrs1)"
proof -
  obtain wrote attrs2 where ap: "pw_append_kv_json kv (if \<not> f then pw_sb_putc attrs 0x2c else attrs) 0 = (wrote, attrs2)"
    by fastforce
  have "fits 2048 attrs2 \<and> clean (sb_buf attrs2)"
    using kv_ok[OF _ _ ap] sep_ok[OF assms(1,2), of f] by blast
  then show ?thesis
    using assms(3) fits_sb.rollback[of 2048 attrs2] clean_sb.rollback[of attrs2]
    by (auto simp: decode_point_attrs_def ap split: if_splits)
qed

lemma number_loop_ok:
  "point_fields_ok pt \<Longrightarrow> fits 2048 attrs \<Longrightarrow> clean (sb_buf attrs) \<Longrightarrow> point_parts_ok (number_loop r pt attrs f h)"
proof (induction r pt attrs f h rule: number_loop.induct)
  case (1 r pt attrs f h)
  note prems = "1.prems"
  show ?case
  proof (cases "pb_next r")
    case (PbTag tag r1)
    show ?thesis
      unfolding number_loop.simps[of r pt attrs f h] PbTag pb_next_result.case
      by (intro if_ok[of _ point_parts_ok] read_ok[of point_parts_ok])
        (auto simp: prems "1.IH"[OF PbTag] point_attrs_ok[OF prems(2,3)] split: prod.split)
  qed (use prems in \<open>simp_all add: number_loop.simps[of r pt attrs f h]\<close>)
qed

lemma histogram_loop_ok:
  "point_fields_ok pt \<Longrightarrow> fits 2048 attrs \<Longrightarrow> clean (sb_buf attrs) \<Longrightarrow> point_parts_ok (histogram_loop r pt attrs f h)"
proof (induction r pt attrs f h rule: histogram_loop.induct)
  case (1 r pt attrs f h)
  note prems = "1.prems"
  show ?case
  proof (cases "pb_next r")
    case (PbTag tag r1)
    show ?thesis
      unfolding histogram_loop.simps[of r pt attrs f h] PbTag pb_next_result.case
      by (intro if_ok[of _ point_parts_ok] read_ok[of point_parts_ok])
        (auto simp: prems "1.IH"[OF PbTag] point_attrs_ok[OF prems(2,3)] split: prod.split)
  qed (use prems in \<open>simp_all add: histogram_loop.simps[of r pt attrs f h]\<close>)
qed

lemma point_finish_ok:
  assumes "point_fields_ok pt" "fits 2048 attrs" "clean (sb_buf attrs)"
  shows "point_ok (point_finish pt attrs h)"
proof -
  have "fits 2048 (pw_sb_putc attrs 0x7d)" "clean (sb_buf (pw_sb_putc attrs 0x7d))"
    using fits_sb.putc[OF assms(2), of "0x7d"] clean_sb.putc[OF assms(3), of "0x7d"] by auto
  moreover have "clean (lit ''{}'')" by code_simp
  ultimately show ?thesis
    using assms(1) by (auto simp: point_ok_def point_finish_def point_fields_ok_def str_ok_def fits_def clean_is_cstr)
qed

lemma point_init_ok:
  "mctx_ok ctx \<Longrightarrow> str_ok 256 name \<Longrightarrow> str_ok 256 desc \<Longrightarrow> str_ok 64 unit \<Longrightarrow> type \<in> set type_names \<Longrightarrow>
   point_fields_ok (point_init ctx name desc unit type n)"
  by (simp add: point_fields_ok_def point_init_def mctx_ok_def span_caps metric_caps) (simp add: str_ok_def)

lemma attrs_start_ok: "fits 2048 (pw_sb_putc (pw_sb_init PW_METRIC_ATTRS_MAX) 0x7b)" "clean (sb_buf (pw_sb_putc (pw_sb_init PW_METRIC_ATTRS_MAX) 0x7b))"
  by (simp_all add: fits_def pw_sb_putc_def pw_sb_init_def metric_caps)

lemma head_loop_ok: "metric_head_ok h \<Longrightarrow> metric_head_loop r h = Some h1 \<Longrightarrow> metric_head_ok h1"
proof -
  define good where "good = (\<lambda>x. case x of None \<Rightarrow> True | Some h \<Rightarrow> metric_head_ok h)"
  have "good (metric_head_loop r h)" if "metric_head_ok h"
    using that
  proof (induction r h rule: metric_head_loop.induct)
    case (1 r h)
    show ?case
    proof (cases "pb_next r")
      case (PbTag tag r1)
      have upd: "metric_head_ok (h\<lparr>mh_name := pw_copy_str PW_METRIC_NAME_MAX x\<rparr>)"
          "metric_head_ok (h\<lparr>mh_description := pw_copy_str PW_METRIC_DESC_MAX x\<rparr>)"
          "metric_head_ok (h\<lparr>mh_unit := pw_copy_str PW_METRIC_UNIT_MAX x\<rparr>)" "metric_head_ok (h\<lparr>mh_pending := ps\<rparr>)" for x ps
        using "1.prems" by (simp_all add: metric_head_ok_def metric_caps)
      show ?thesis
        unfolding metric_head_loop.simps[of r h] PbTag pb_next_result.case
        by (intro if_ok[of _ good] read_ok[of good]) (simp_all add: "1.prems" "1.IH"[OF PbTag] upd, simp_all add: good_def)
    qed (use "1.prems" in \<open>simp_all add: metric_head_loop.simps[of r h] good_def\<close>)
  qed
  then show "metric_head_ok h \<Longrightarrow> metric_head_loop r h = Some h1 \<Longrightarrow> metric_head_ok h1"
    by (simp add: good_def)
qed

lemma metric_res_attr_ok: "mctx_ok ctx \<Longrightarrow> mctx_ok (metric_res_attr kv ctx)"
  by (auto simp: metric_res_attr_def mctx_ok_def span_caps metric_caps value_as_string_ok split: prod.split option.split)

lemma metric_resource_ok: "mctx_ok ctx \<Longrightarrow> mctx_ok (metric_resource_loop res ctx)"
proof (induction res ctx rule: metric_resource_loop.induct)
  case (1 res ctx)
  show ?case
  proof (cases "pb_next res")
    case (PbTag tag r1)
    show ?thesis
      unfolding metric_resource_loop.simps[of res ctx] PbTag pb_next_result.case
      by (intro if_ok[of _ mctx_ok] read_ok[of mctx_ok]) (simp_all add: "1.prems" "1.IH"[OF PbTag] metric_res_attr_ok)
  qed (use "1.prems" in \<open>simp_all add: metric_resource_loop.simps[of res ctx]\<close>)
qed

lemma mctx_init_ok: "mctx_ok metric_ctx_init"
  by code_simp

section \<open>The sink's contract\<close>

locale point_consumer =
  fixes sink :: "pw_metric_point \<Rightarrow> 'u \<Rightarrow> int \<times> 'u"
    and inv :: "nat \<Rightarrow> 'u \<Rightarrow> bool"
    and fin :: "nat \<Rightarrow> 'u \<Rightarrow> bool"
  assumes taken: "inv k u \<Longrightarrow> point_ok pt \<Longrightarrow> sink pt u = (0, u1) \<Longrightarrow> inv (Suc k) u1"
    and refused: "inv k u \<Longrightarrow> point_ok pt \<Longrightarrow> sink pt u = (rc, u1) \<Longrightarrow> rc \<noteq> 0 \<Longrightarrow> fin k u1"
begin

definition either :: "nat \<Rightarrow> 'u \<Rightarrow> bool" where
  "either k u \<longleftrightarrow> inv k u \<or> fin k u"

text \<open>The result of a part: a count that is right so far, refused or not.\<close>

definition counted :: "int \<times> 'u \<times> nat \<Rightarrow> bool" where
  "counted = (\<lambda>(rc, u, k). if rc = 0 then inv k u else either k u)"

lemma parts_step:
  assumes "inv k u" "point_parts_ok parts"
    and run: "(case parts of None \<Rightarrow> (- 1, u) | Some (pt, attrs, h) \<Rightarrow> sink (point_finish pt attrs h) u) = (rc, u1)"
  shows "if rc = 0 then inv (Suc k) u1 else either k u1"
proof (cases parts)
  case None
  then show ?thesis using assms by (auto simp: either_def)
next
  case (Some x)
  obtain pt attrs h where x: "x = (pt, attrs, h)" by (cases x)
  have ok: "point_ok (point_finish pt attrs h)"
    using assms(2) by (intro point_finish_ok) (simp_all add: Some x)
  show ?thesis
    using taken[OF assms(1) ok] refused[OF assms(1) ok] run by (auto simp: Some x either_def)
qed

lemma point_step:
  assumes "inv k u" "mctx_ok ctx" "metric_head_ok h" and run: "decode_point kind r ctx h (Some sink) u = (rc, u1)"
  shows "if rc = 0 then inv (Suc k) u1 else either k u1"
proof -
  have init: "point_fields_ok (point_init ctx (mh_name h) (mh_description h) (mh_unit h) ty n)"
    if "ty \<in> set type_names" for ty n
    using assms(2,3) that by (intro point_init_ok) (simp_all add: metric_head_ok_def)
  have kinds: "lit ''histogram'' \<in> set type_names" "kind_name kind \<in> set type_names"
    by (simp add: type_names_def) (cases kind; simp add: kind_name_def type_names_def)
  show ?thesis
  proof (cases "kind = Histogram")
    case True
    show ?thesis
      by (rule parts_step[OF assms(1) histogram_loop_ok[OF init[OF kinds(1)] attrs_start_ok]
            run[unfolded decode_point_def if_P[OF True] decode_histogram_point_def option.case]])
  next
    case False
    show ?thesis
      by (rule parts_step[OF assms(1) number_loop_ok[OF init[OF kinds(2)] attrs_start_ok]
            run[unfolded decode_point_def if_not_P[OF False] decode_number_point_def option.case]])
  qed
qed

lemma points:
  "inv k u \<Longrightarrow> mctx_ok ctx \<Longrightarrow> metric_head_ok h \<Longrightarrow> counted (points_loop kind r ctx h (Some sink) u k)"
proof (induction kind r ctx h "Some sink" u k rule: points_loop.induct)
  case (1 kind r ctx h u k)
  note prems = "1.prems"
  have fail: "counted (- 1, u, k)"
    using prems by (simp add: counted_def either_def)
  show ?case
  proof (cases "pb_next r")
    case (PbTag tag r1)
    note IH = "1.hyps"[OF PbTag]
    have point: "counted (case decode_point kind p ctx h (Some sink) u of (rc, u1) \<Rightarrow>
        if rc < 0 then (- 1, u1, k) else if rc > 0 then (1, u1, k) else points_loop kind r2 ctx h (Some sink) u1 (k + 1))"
      if t: "is_field tag 1 PB_WIRE_BYTES" "pb_submsg r1 = Some (p, r2)" for p r2
    proof -
      obtain rc u1 where d: "decode_point kind p ctx h (Some sink) u = (rc, u1)" by fastforce
      show ?thesis
        using point_step[OF prems d] prems(2,3) IH(1)[OF t refl d[symmetric]] by (auto simp: d counted_def)
    qed
    show ?thesis
      unfolding points_loop.simps[of kind r ctx] PbTag pb_next_result.case
      by (intro if_ok[of _ counted] read_ok[of counted] fail point) (simp_all add: prems IH)
  qed (use prems in \<open>simp_all add: points_loop.simps[of kind r ctx] counted_def\<close>)
qed

lemma pending_ok:
  "inv k u \<Longrightarrow> mctx_ok ctx \<Longrightarrow> metric_head_ok h \<Longrightarrow> counted (pending_points ps ctx h (Some sink) u k)"
proof (induction ps ctx h "Some sink" u k rule: pending_points.induct)
  case (2 kind r rest ctx h u k)
  obtain rc u1 k1 where d: "points_loop kind r ctx h (Some sink) u k = (rc, u1, k1)"
    by (metis prod_cases3)
  then show ?case
    using points[OF "2.prems", of kind r] "2.hyps"[OF d[symmetric] refl] "2.prems" by (auto simp: counted_def)
qed (simp add: counted_def)

lemma metric:
  "inv k u \<Longrightarrow> mctx_ok ctx \<Longrightarrow> counted (decode_metric r ctx (Some sink) u k)"
proof -
  assume prems: "inv k u" "mctx_ok ctx"
  let ?h0 = "\<lparr>mh_name = [], mh_description = [], mh_unit = [], mh_pending = []\<rparr>"
  have "metric_head_ok ?h0" by (simp add: metric_head_ok_def)
  show ?thesis
  proof (cases "metric_head_loop r ?h0")
    case None
    then show ?thesis using prems by (simp add: decode_metric_def counted_def either_def)
  next
    case (Some h)
    note pending_ok[OF prems head_loop_ok[OF \<open>metric_head_ok ?h0\<close> Some], of "mh_pending h"]
    then show ?thesis using prems by (auto simp: decode_metric_def Some counted_def)
  qed
qed

definition scope_counted :: "int \<times> metric_context \<times> 'u \<times> nat \<Rightarrow> bool" where
  "scope_counted = (\<lambda>(rc, ctx, u, k). mctx_ok ctx \<and> counted (rc, u, k))"

lemma scope_metrics:
  "inv k u \<Longrightarrow> mctx_ok ctx \<Longrightarrow> scope_counted (decode_scope_metrics r ctx (Some sink) u k)"
proof (induction r ctx "Some sink" u k rule: decode_scope_metrics.induct)
  case (1 r ctx u k)
  note prems = "1.prems"
  have fail: "scope_counted (- 1, ctx, u, k)"
    using prems by (simp add: scope_counted_def counted_def either_def)
  show ?case
  proof (cases "pb_next r")
    case (PbTag tag r1)
    note IH = "1.hyps"[OF PbTag]
    have metric: "scope_counted (case decode_metric m ctx (Some sink) u k of (rc, u1, k1) \<Rightarrow>
        if rc < 0 then (- 1, ctx, u1, k1) else if rc > 0 then (1, ctx, u1, k1)
        else decode_scope_metrics r2 ctx (Some sink) u1 k1)"
      if t: "\<not> is_field tag 1 PB_WIRE_BYTES" "is_field tag 2 PB_WIRE_BYTES" "pb_submsg r1 = Some (m, r2)" for m r2
    proof -
      obtain rc u1 k1 where d: "decode_metric m ctx (Some sink) u k = (rc, u1, k1)" by (metis prod_cases3)
      show ?thesis
        using metric[OF prems, of m] prems(2) IH(2)[OF t refl d[symmetric] refl]
        by (auto simp: d scope_counted_def counted_def)
    qed
    have scope: "mctx_ok (ctx\<lparr>mctx_scope_name := scope_loop scope (mctx_scope_name ctx)\<rparr>)" for scope
      using prems(2) scope_loop_ok by (simp add: mctx_ok_def)
    show ?thesis
      unfolding decode_scope_metrics.simps[of r ctx] PbTag pb_next_result.case
      by (intro if_ok[of _ scope_counted] read_ok[of scope_counted] fail metric) (simp_all add: prems scope IH)
  qed (use prems in \<open>simp_all add: decode_scope_metrics.simps[of r ctx] scope_counted_def counted_def\<close>)
qed

lemma pending_scopes:
  "inv k u \<Longrightarrow> mctx_ok ctx \<Longrightarrow> counted (pending_metrics sms ctx (Some sink) u k)"
proof (induction sms ctx "Some sink" u k rule: pending_metrics.induct)
  case (2 sm rest ctx u k)
  obtain rc ctx1 u1 k1 where d: "decode_scope_metrics sm ctx (Some sink) u k = (rc, ctx1, u1, k1)"
    by (metis prod_cases4)
  then show ?case
    using scope_metrics[OF "2.prems", of sm] "2.hyps"[OF d[symmetric] refl refl] by (auto simp: scope_counted_def counted_def)
qed (simp add: counted_def)

definition res_counted :: "(int \<times> 'u \<times> nat) + (metric_context \<times> pb_reader list \<times> 'u \<times> nat) \<Rightarrow> bool" where
  "res_counted x \<longleftrightarrow>
     (case x of
        Inl (rc, u, k) \<Rightarrow> rc \<noteq> 0 \<and> either k u
      | Inr (ctx, pending, u, k) \<Rightarrow> mctx_ok ctx \<and> inv k u)"

lemma resource_metrics:
  "inv k u \<Longrightarrow> mctx_ok ctx \<Longrightarrow> res_counted (resource_metrics_loop r ctx p (Some sink) u k)"
proof (induction r ctx p "Some sink" u k rule: resource_metrics_loop.induct)
  case (1 r ctx p u k)
  note prems = "1.prems"
  have fail: "res_counted (Inl (- 1, u, k))"
    using prems by (simp add: res_counted_def either_def)
  show ?case
  proof (cases "pb_next r")
    case (PbTag tag r1)
    note IH = "1.hyps"[OF PbTag]
    have direct: "res_counted (case decode_scope_metrics sm ctx (Some sink) u k of (rc, ctx1, u1, k1) \<Rightarrow>
        if rc \<noteq> 0 then Inl (rc, u1, k1) else resource_metrics_loop r2 ctx1 p (Some sink) u1 k1)"
      if t: "\<not> is_field tag 1 PB_WIRE_BYTES" "is_field tag 2 PB_WIRE_BYTES" "pb_submsg r1 = Some (sm, r2)"
        "\<not> length p < PENDING_MAX" for sm r2
    proof -
      obtain rc ctx1 u1 k1 where d: "decode_scope_metrics sm ctx (Some sink) u k = (rc, ctx1, u1, k1)"
        by (metis prod_cases4)
      note ih = IH(3)[OF t(1,2) t(3) refl t(4) d[symmetric] refl refl]
      show ?thesis
        using scope_metrics[OF prems, of sm] ih by (auto simp: d scope_counted_def counted_def res_counted_def)
    qed
    show ?thesis
      unfolding resource_metrics_loop.simps[of r ctx] PbTag pb_next_result.case
      by (intro if_ok[of _ res_counted] read_ok[of res_counted] fail direct) (simp_all add: prems metric_resource_ok IH)
  qed (use prems in \<open>simp_all add: resource_metrics_loop.simps[of r ctx] res_counted_def\<close>)
qed

lemma resource:
  assumes "inv k u"
  shows "counted (decode_resource_metrics r (Some sink) u k)"
proof (cases "resource_metrics_loop r metric_ctx_init [] (Some sink) u k")
  case (Inl x)
  then show ?thesis
    using resource_metrics[OF assms mctx_init_ok, of r "[]"]
    by (cases x) (simp add: decode_resource_metrics_def res_counted_def counted_def)
next
  case (Inr x)
  obtain ctx pending u1 k1 where x: "x = (ctx, pending, u1, k1)" by (cases x)
  have "mctx_ok ctx \<and> inv k1 u1"
    using resource_metrics[OF assms mctx_init_ok, of r "[]"] by (simp add: Inr x res_counted_def)
  then show ?thesis
    using pending_scopes by (simp add: decode_resource_metrics_def Inr x)
qed

definition final :: "int \<times> 'u \<Rightarrow> bool" where
  "final = (\<lambda>(n, u). \<exists>k. (n = int k \<or> n = - 1 \<and> k = 0) \<and> either k u)"

lemma metrics: "inv k u \<Longrightarrow> final (metrics_loop r (Some sink) u k)"
proof (induction r "Some sink" u k rule: metrics_loop.induct)
  case (1 r u k)
  have fin: "final (count_or_error j, v)" "final (int j, v)" if "either j v" for j v
    using that by (auto simp: final_def count_or_error_def)
  have now: "either k u"
    using "1.prems" by (simp add: either_def)
  show ?case
  proof (cases "pb_next r")
    case (PbTag tag r1)
    note IH = "1.hyps"[OF PbTag]
    have rm: "final (case decode_resource_metrics m (Some sink) u k of (rc, u1, k1) \<Rightarrow>
        if rc < 0 then (count_or_error k1, u1) else if rc > 0 then (int k1, u1) else metrics_loop r2 (Some sink) u1 k1)"
      if t: "is_field tag 1 PB_WIRE_BYTES" "pb_submsg r1 = Some (m, r2)" for m r2
    proof -
      obtain rc u1 k1 where d: "decode_resource_metrics m (Some sink) u k = (rc, u1, k1)" by (metis prod_cases3)
      show ?thesis
        using resource[OF "1.prems", of m] IH(1)[OF t refl d[symmetric] refl] fin by (auto simp: d counted_def)
    qed
    show ?thesis
      unfolding metrics_loop.simps[of r] PbTag pb_next_result.case
      by (intro if_ok[of _ final] read_ok[of final] rm) (simp_all add: "1.prems" fin now IH)
  qed (use now fin in \<open>simp_all add: metrics_loop.simps[of r]\<close>)
qed

text \<open>After the whole request, \<open>k\<close> points were taken and the result says so, or is \<open>-1\<close> for none.\<close>

lemma decode:
  "inv 0 u \<Longrightarrow> otlp_decode_metrics body (Some sink) u = (n, u1) \<Longrightarrow>
   \<exists>k. (n = int k \<or> n = - 1 \<and> k = 0) \<and> (inv k u1 \<or> fin k u1)"
  using metrics[of 0 u "pb_reader_init body 0 (length body)"]
  by (simp add: otlp_decode_metrics_def final_def either_def)

end

section \<open>What a sink gets to see\<close>

text \<open>A sink that keeps what it was handed.\<close>

definition keeping :: "('a \<Rightarrow> 'u \<Rightarrow> int \<times> 'u) \<Rightarrow> 'a \<Rightarrow> 'u \<times> 'a list \<Rightarrow> int \<times> 'u \<times> 'a list" where
  "keeping sink x = (\<lambda>(u, seen). case sink x u of (rc, u1) \<Rightarrow> (rc, u1, seen @ [x]))"

interpretation kept_spans: span_consumer "keeping sink" "\<lambda>k (u, seen). list_all span_ok seen" "\<lambda>k (u, seen). list_all span_ok seen" for sink
  by unfold_locales (auto simp: keeping_def split: prod.splits)

interpretation kept_points: point_consumer "keeping sink" "\<lambda>k (u, seen). list_all point_ok seen" "\<lambda>k (u, seen). list_all point_ok seen" for sink
  by unfold_locales (auto simp: keeping_def split: prod.splits)

text \<open>C34. Every record the decoders hand out is of the declared type, whatever the payload and however the sink answers: each
  text ends within its array and contains no NUL, kinds, status codes and metric types are among the documented names,
  identifiers and attribute texts have no control characters, and a span's duration is its end less its start, or 0.\<close>

theorem decoded_records_well_formed:
  "list_all span_ok (snd (snd (otlp_decode_traces body (Some (keeping span_sink)) (u, [])))) \<and>
   list_all point_ok (snd (snd (otlp_decode_metrics body (Some (keeping point_sink)) (v, []))))"
proof -
  obtain n u1 spans where t: "otlp_decode_traces body (Some (keeping span_sink)) (u, []) = (n, u1, spans)"
    by (metis prod_cases3)
  obtain m v1 pts where p: "otlp_decode_metrics body (Some (keeping point_sink)) (v, []) = (m, v1, pts)"
    by (metis prod_cases3)
  show ?thesis
    using kept_spans.decode[OF _ t] kept_points.decode[OF _ p] by (simp add: t p)
qed

end
