(* ===== verification/Environ.thy ===== *)
theory Environ
  imports CNumber
begin

text \<open>
  The environment of a process: the strings of \<^verbatim>\<open>environ\<close>, in their order, with the C library's \<^verbatim>\<open>getenv\<close> and
  \<^verbatim>\<open>setenv\<close>.  \<open>pe_nomem\<close> is a script for the allocations: \<open>True\<close> lets the next one fail, an exhausted
  script means that all succeed.
\<close>

record penv =
  pe_vars :: "cstring list"
  pe_nomem :: "bool list"

text \<open>The value in an entry of that name: \<^verbatim>\<open>strncmp(e, name, n) == 0 && e[n] == '='\<close>.\<close>

definition entry_value :: "cstring \<Rightarrow> cstring \<Rightarrow> cstring option" where
  "entry_value name e =
     (if is_prefix (name @ [0x3d]) e then Some (drop (length name + 1) e) else None)"

fun env_lookup :: "cstring \<Rightarrow> cstring list \<Rightarrow> cstring option" where
  "env_lookup name [] = None"
| "env_lookup name (e # es) = (case entry_value name e of Some v \<Rightarrow> Some v | None \<Rightarrow> env_lookup name es)"

definition env_get :: "penv \<Rightarrow> cstring \<Rightarrow> cstring option" where
  "env_get e name = env_lookup name (pe_vars e)"

definition env_entry :: "cstring \<Rightarrow> cstring \<Rightarrow> cstring" where
  "env_entry name v = name @ 0x3d # v"

fun env_replace :: "cstring \<Rightarrow> cstring \<Rightarrow> cstring list \<Rightarrow> cstring list" where
  "env_replace name v [] = [env_entry name v]"
| "env_replace name v (e # es) =
     (if entry_value name e \<noteq> None then env_entry name v # es else e # env_replace name v es)"

definition env_alloc :: "penv \<Rightarrow> bool \<times> penv" where
  "env_alloc e = (case pe_nomem e of [] \<Rightarrow> (True, e) | f # fs \<Rightarrow> (\<not> f, e\<lparr>pe_nomem := fs\<rparr>))"

text \<open>The names the program sets are nonempty and have no equals sign.\<close>

definition env_set :: "cstring \<Rightarrow> cstring \<Rightarrow> bool \<Rightarrow> penv \<Rightarrow> int \<times> penv" where
  "env_set name v overwrite e =
     (if env_get e name \<noteq> None \<and> \<not> overwrite then (0, e)
      else case env_alloc e of (ok, e1) \<Rightarrow>
        if \<not> ok then (- 1, e1)
        else (0, e1\<lparr>pe_vars := env_replace name v (pe_vars e1)\<rparr>))"

section \<open>Laws\<close>

definition env_name :: "cstring \<Rightarrow> bool" where
  "env_name name \<longleftrightarrow> name \<noteq> [] \<and> 0x3d \<notin> set name"

lemma env_alloc_vars [simp]: "env_alloc e = (ok, e1) \<Longrightarrow> pe_vars e1 = pe_vars e"
  by (auto simp: env_alloc_def split: list.splits)

lemma env_alloc_ok [simp]: "pe_nomem e = [] \<Longrightarrow> env_alloc e = (True, e)"
  by (simp add: env_alloc_def)

lemma entry_value_entry [simp]: "entry_value name (env_entry name v) = Some v"
  by (simp add: entry_value_def env_entry_def is_prefix_def)

text \<open>An entry has one name.\<close>

lemma entry_value_unique:
  assumes "env_name a" "env_name b" "entry_value a e \<noteq> None" "entry_value b e \<noteq> None"
  shows "a = b"
proof -
  obtain s where "e = a @ 0x3d # s"
    using assms(3) by (auto simp: entry_value_def is_prefix_iff split: if_splits)
  moreover obtain t where "e = b @ 0x3d # t"
    using assms(4) by (auto simp: entry_value_def is_prefix_iff split: if_splits)
  moreover have "takeWhile (\<lambda>c. c \<noteq> 0x3d) (u @ 0x3d # r) = u" if "env_name u" for u r
    using that by (intro takeWhile_append_stop) (auto simp: env_name_def)
  ultimately show ?thesis using assms(1,2) by metis
qed

lemma entry_value_other:
  assumes "env_name a" "env_name b" "a \<noteq> b"
  shows "entry_value a (env_entry b v) = None"
  using entry_value_unique[OF assms(1,2), of "env_entry b v"] assms(3) by (cases "entry_value a (env_entry b v)") auto

lemma env_lookup_replace:
  assumes "env_name a" "env_name b"
  shows "env_lookup a (env_replace b v es) = (if a = b then Some v else env_lookup a es)"
proof (induction es)
  case Nil
  then show ?case using entry_value_other[OF assms] by simp
next
  case (Cons e es)
  show ?case
  proof (cases "a = b")
    case False
    have "entry_value a e = None" if "entry_value b e \<noteq> None"
      using entry_value_unique[OF assms, of e] that False by blast
    then show ?thesis
      using Cons False entry_value_other[OF assms False, of v] by (auto split: option.splits)
  qed (use Cons in \<open>auto split: option.splits\<close>)
qed

lemma env_get_set:
  assumes "env_set name v overwrite e = (rc, e1)" "env_name name" "env_name a"
  shows "env_get e1 a =
    (if a = name \<and> rc = 0 \<and> (overwrite \<or> env_get e name = None) then Some v else env_get e a)"
  using assms env_lookup_replace
  by (auto simp: env_set_def env_get_def split: if_splits prod.splits)

lemma env_set_total [simp]: "pe_nomem e = [] \<Longrightarrow> pe_nomem (snd (env_set name v ow e)) = []"
  by (simp add: env_set_def)

lemma env_set_rc: "pe_nomem e = [] \<Longrightarrow> fst (env_set name v ow e) = 0"
  by (simp add: env_set_def)

section \<open>The contract of an environment\<close>

text \<open>
  What a client needs of an environment: a read after a write.  \<open>ok\<close> says that writes do not fail.
\<close>

locale environment =
  fixes get :: "'e \<Rightarrow> cstring \<Rightarrow> cstring option"
    and put :: "cstring \<Rightarrow> cstring \<Rightarrow> bool \<Rightarrow> 'e \<Rightarrow> int \<times> 'e"
    and ok :: "'e \<Rightarrow> bool"
  assumes get_put: "put n v ow e = (rc, e1) \<Longrightarrow> env_name n \<Longrightarrow> env_name a \<Longrightarrow>
      get e1 a = (if a = n \<and> rc = 0 \<and> (ow \<or> get e n = None) then Some v else get e a)"
    and put_ok: "ok e \<Longrightarrow> fst (put n v ow e) = 0 \<and> ok (snd (put n v ow e))"
begin

lemma put_default_keeps: "get e n = Some v0 \<Longrightarrow> env_name n \<Longrightarrow> get (snd (put n v False e)) n = Some v0"
  using get_put[of n v False e] by (cases "put n v False e") auto

lemma put_other: "env_name n \<Longrightarrow> env_name a \<Longrightarrow> a \<noteq> n \<Longrightarrow> get (snd (put n v ow e)) a = get e a"
  using get_put[of n v ow e] by (cases "put n v ow e") auto

lemma put_reads: "ok e \<Longrightarrow> env_name n \<Longrightarrow> get (snd (put n v True e)) n = Some v"
  using get_put[of n v True e] put_ok[of e n v True] by (cases "put n v True e") auto

text \<open>A default is set once: afterwards any default for that name changes nothing that can be read.\<close>

lemma put_default_total:
  "ok e \<Longrightarrow> env_name n \<Longrightarrow> get (snd (put n v False e)) n = Some (case get e n of Some v0 \<Rightarrow> v0 | None \<Rightarrow> v)"
  using get_put[of n v False e] put_ok[of e n v False] by (cases "put n v False e") (auto split: option.splits)

end

interpretation env: environment env_get env_set "\<lambda>e. pe_nomem e = []"
  by unfold_locales (auto simp: env_get_set env_set_rc)

end
