(* ===== verification/Inject.thy ===== *)
theory Inject
  imports Environ ProcPush
begin

text \<open>
  The preload library: \<^verbatim>\<open>src/inject/envmod.c\<close> (environment edits), \<^verbatim>\<open>detect.c\<close> (which runtime is this),
  \<^verbatim>\<open>inject.c\<close> (the constructor), \<^verbatim>\<open>exec_wrap.c\<close> (the interposed exec calls) and \<^verbatim>\<open>metrics_thread.c\<close>.

  What a process is made of -- how it was started, what the dynamic linker finds, its ids and its clock -- is the
  record \<open>image\<close>.  Messages on stderr are left out.
\<close>

section \<open>envmod.c\<close>

definition PW_ENV_MAX :: nat where "PW_ENV_MAX = 8192"

definition carries :: "cstring option \<Rightarrow> cstring option \<Rightarrow> bool" where
  "carries cur marker = (case (cur, marker) of (Some c, Some m) \<Rightarrow> strstr c m \<noteq> None | _ \<Rightarrow> False)"

definition pw_env_append :: "cstring \<Rightarrow> cstring \<Rightarrow> cstring option \<Rightarrow> penv \<Rightarrow> int \<times> penv" where
  "pw_env_append name addition marker e =
     (let cur = env_get e name
      in if carries cur marker then (0, e)
         else if blank cur then env_set name addition True e
         else if length (the cur) + length addition + 1 > PW_ENV_MAX then (- 1, e)
         else env_set name (the cur @ addition) True e)"

definition pw_env_prepend :: "cstring \<Rightarrow> cstring \<Rightarrow> cstring option \<Rightarrow> byte \<Rightarrow> penv \<Rightarrow> int \<times> penv" where
  "pw_env_prepend name addition marker separator e =
     (let cur = env_get e name
      in if carries cur marker then (0, e)
         else if blank cur then env_set name addition True e
         else if length (the cur) + length addition + 2 > PW_ENV_MAX then (- 1, e)
         else env_set name (addition @ separator # the cur) True e)"

definition pw_env_set_default :: "string \<Rightarrow> cstring \<Rightarrow> penv \<Rightarrow> int \<times> penv" where
  "pw_env_set_default name v e = env_set (lit name) v False e"

section \<open>detect.c\<close>

datatype pw_runtime = PW_RT_UNKNOWN | PW_RT_JAVA | PW_RT_PYTHON

record image =
  im_execfn :: "cstring option"
  im_cmdline :: "byte list option"
  im_dlsym :: "(cstring \<Rightarrow> bool) option"
  im_exists :: "cstring \<Rightarrow> bool"
  im_uid :: int
  im_euid :: int
  im_gid :: int
  im_egid :: int
  im_pid :: int
  im_time :: tm

definition basename_of :: "cstring \<Rightarrow> cstring" where
  "basename_of path = (case strrchr path 0x2f of Some slash \<Rightarrow> drop 1 slash | None \<Rightarrow> path)"

definition is_python_name :: "cstring \<Rightarrow> bool" where
  "is_python_name name \<longleftrightarrow>
     is_prefix (lit ''python'') name \<and> list_all (\<lambda>c. is_digit c \<or> c = 0x2e) (drop 6 name)"

definition classify_name :: "cstring \<Rightarrow> pw_runtime" where
  "classify_name name =
     (if name = lit ''java'' then PW_RT_JAVA
      else if is_python_name name then PW_RT_PYTHON
      else if name = lit ''gunicorn'' \<or> name = lit ''uwsgi'' \<or> name = lit ''celery'' \<or> name = lit ''uvicorn'' \<or>
              name = lit ''flask'' then PW_RT_PYTHON
      else PW_RT_UNKNOWN)"

definition read_cmdline_argv0 :: "image \<Rightarrow> nat \<Rightarrow> cstring option" where
  "read_cmdline_argv0 im bufsz =
     (case im_cmdline im of
        None \<Rightarrow> None
      | Some c \<Rightarrow> if take (bufsz - 1) c = [] then None else Some (cstr (take (bufsz - 1) c)))"

definition pw_detect_by_name :: "image \<Rightarrow> pw_runtime" where
  "pw_detect_by_name im =
     (let rt = (if blank (im_execfn im) then PW_RT_UNKNOWN else classify_name (basename_of (the (im_execfn im))))
      in if rt \<noteq> PW_RT_UNKNOWN then rt
         else case read_cmdline_argv0 im 512 of
                None \<Rightarrow> PW_RT_UNKNOWN
              | Some cmdline \<Rightarrow>
                  if cmdline = [] then PW_RT_UNKNOWN else classify_name (basename_of cmdline))"

definition pw_confirm_by_symbol :: "image \<Rightarrow> pw_runtime \<Rightarrow> pw_runtime" where
  "pw_confirm_by_symbol im hint =
     (case im_dlsym im of
        None \<Rightarrow> hint
      | Some dlsym \<Rightarrow>
          if hint = PW_RT_JAVA then
            (if dlsym (lit ''JLI_Launch'') then PW_RT_JAVA
             else if dlsym (lit ''JNI_CreateJavaVM'') then PW_RT_JAVA else hint)
          else if hint = PW_RT_PYTHON then
            (if dlsym (lit ''Py_BytesMain'') then PW_RT_PYTHON
             else if dlsym (lit ''Py_Initialize'') then PW_RT_PYTHON else hint)
          else PW_RT_UNKNOWN)"

section \<open>inject.c\<close>

definition pw_agent_dir :: "penv \<Rightarrow> cstring" where
  "pw_agent_dir e =
     (let dir = env_get e (lit ''PROCWATCH_AGENT_DIR'') in if blank dir then lit ''/opt/procwatch/agent'' else the dir)"

definition pw_resolve_label :: "penv \<Rightarrow> cstring option" where
  "pw_resolve_label e =
     (let label = env_get e (lit ''PROCWATCH_LABEL'') in if pw_label_valid label then label else None)"

definition ATTRS :: cstring where
  "ATTRS = lit ''OTEL_RESOURCE_ATTRIBUTES''"

definition pw_attach_label_to_otel :: "cstring option \<Rightarrow> penv \<Rightarrow> penv" where
  "pw_attach_label_to_otel label e =
     (if blank label then e
      else
        let attr = snprintf_s 160 (lit ''procwatch.label='' @ the label);
            cur = env_get e ATTRS
        in if carries cur (Some (lit ''procwatch.label='')) then e
           else if blank cur then snd (env_set ATTRS attr True e)
           else if length (the cur) + 1 + length attr + 1 > 8192 then e
           else snd (env_set ATTRS (snprintf_s 8192 (the cur @ 0x2c # attr)) True e))"

text \<open>Append a segment to the output array, after a comma unless it is the first; \<open>None\<close> when it does not fit.\<close>

definition put_segment :: "byte list \<Rightarrow> cstring \<Rightarrow> byte list option" where
  "put_segment buf seg =
     (if buf \<noteq> [] \<and> length buf + 1 \<ge> 8192 then None
      else
        let buf1 = (if buf \<noteq> [] then buf @ [0x2c] else buf)
        in if length buf1 + length seg \<ge> 8192 then None else Some (buf1 @ seg))"

lemma strchr_tl_shrinks: "Some t = strchr p b \<Longrightarrow> length t - Suc 0 < length p"
  using strchr_Some[of p b t] by force

text \<open>The loop over the segments: the output so far and whether the key was replaced.\<close>

function segment_loop :: "cstring \<Rightarrow> cstring \<Rightarrow> cstring \<Rightarrow> byte list \<Rightarrow> bool \<Rightarrow> (byte list \<times> bool) option" where
  "segment_loop kv keyeq p buf replaced =
     (if p = [] then Some (buf, replaced)
      else
        let comma = strchr p 0x2c;
            seg_len = (case comma of Some c \<Rightarrow> length p - length c | None \<Rightarrow> length p);
            is_target = (seg_len \<ge> length keyeq \<and> is_prefix keyeq p);
            out_seg = (if is_target then kv else take seg_len p)
        in case put_segment buf out_seg of
             None \<Rightarrow> None
           | Some buf1 \<Rightarrow>
               (case comma of
                  None \<Rightarrow> Some (buf1, replaced \<or> is_target)
                | Some c \<Rightarrow> segment_loop kv keyeq (drop 1 c) buf1 (replaced \<or> is_target)))"
  by pat_completeness auto
termination
  by (relation "measure (\<lambda>(kv, k, p, b, r). length p)") (auto dest: strchr_tl_shrinks)

declare segment_loop.simps [simp del]

definition set_resource_attr :: "cstring \<Rightarrow> cstring \<Rightarrow> penv \<Rightarrow> penv" where
  "set_resource_attr key v e =
     (let kv = key @ 0x3d # v; keyeq = key @ [0x3d]; cur = env_get e ATTRS
      in if length kv \<ge> 192 then e
         else if length keyeq \<ge> 160 then e
         else if blank cur then snd (env_set ATTRS kv True e)
         else case segment_loop kv keyeq (the cur) [] False of
                None \<Rightarrow> e
              | Some (buf, replaced) \<Rightarrow>
                  if replaced then snd (env_set ATTRS buf True e)
                  else case put_segment buf kv of
                         None \<Rightarrow> e
                       | Some buf1 \<Rightarrow> snd (env_set ATTRS buf1 True e))"

definition pw_attach_pid_key_to_otel :: "image \<Rightarrow> penv \<Rightarrow> penv" where
  "pw_attach_pid_key_to_otel im e =
     (let pid_key = snprintf_s 64 (dec_int (im_pid im) @ snprintf_s 32 (pw_format_created_stamp (im_time im)))
      in set_resource_attr (lit ''service.instance.id'') pid_key
           (set_resource_attr (lit ''procwatch.pid_key'') pid_key e))"

definition exec_basename :: "image \<Rightarrow> cstring option" where
  "exec_basename im = (if blank (im_execfn im) then None else Some (basename_of (the (im_execfn im))))"

definition resolve_service_name :: "image \<Rightarrow> penv \<Rightarrow> cstring" where
  "resolve_service_name im e =
     (if \<not> blank (env_get e (lit ''OTEL_SERVICE_NAME'')) then the (env_get e (lit ''OTEL_SERVICE_NAME''))
      else if \<not> blank (env_get e (lit ''PROCWATCH_SERVICE'')) then the (env_get e (lit ''PROCWATCH_SERVICE''))
      else if \<not> blank (exec_basename im) then the (exec_basename im)
      else lit ''unknown_service'')"

definition PW_DEFAULT_ENDPOINT :: cstring where
  "PW_DEFAULT_ENDPOINT = lit ''http://127.0.0.1:4318''"

definition env_endpoint :: "(cstring \<Rightarrow> cstring option) \<Rightarrow> cstring" where
  "env_endpoint getenv =
     (if blank (getenv (lit ''PROCWATCH_ENDPOINT'')) then PW_DEFAULT_ENDPOINT
      else the (getenv (lit ''PROCWATCH_ENDPOINT'')))"

definition pw_apply_common :: "image \<Rightarrow> penv \<Rightarrow> penv" where
  "pw_apply_common im e =
     (let e1 = (case pw_resolve_label e of None \<Rightarrow> e | Some label \<Rightarrow> pw_attach_label_to_otel (Some label) e);
          e2 = pw_attach_pid_key_to_otel im e1;
          service = resolve_service_name im e2;
          e3 = snd (pw_env_set_default ''OTEL_SERVICE_NAME'' service e2);
          e4 = snd (env_set (lit ''PROCWATCH_SERVICE'') service True e3);
          endpoint = env_endpoint (env_get e4);
          e5 = snd (pw_env_set_default ''OTEL_EXPORTER_OTLP_ENDPOINT'' endpoint e4);
          e6 = snd (pw_env_set_default ''OTEL_EXPORTER_OTLP_PROTOCOL'' (lit ''http/protobuf'') e5);
          e7 = snd (pw_env_set_default ''OTEL_TRACES_EXPORTER'' (lit ''otlp'') e6);
          e8 = snd (pw_env_set_default ''OTEL_METRICS_EXPORTER'' (lit ''otlp'') e7)
      in snd (pw_env_set_default ''OTEL_LOGS_EXPORTER'' (lit ''otlp'') e8))"

definition pw_apply_java :: "image \<Rightarrow> cstring \<Rightarrow> penv \<Rightarrow> penv" where
  "pw_apply_java im agent_dir e =
     (let jar = snprintf_s 1024 (agent_dir @ lit ''/java/javaagent.jar'')
      in if \<not> im_exists im jar then e
         else
           let e1 = snd (pw_env_append (lit ''JAVA_TOOL_OPTIONS'')
                           (snprintf_s 1152 (lit '' -javaagent:'' @ jar)) (Some jar) e)
           in snd (pw_env_set_default ''OTEL_INSTRUMENTATION_RUNTIME_TELEMETRY_ENABLED'' (lit ''true'') e1))"

definition pw_apply_python :: "image \<Rightarrow> cstring \<Rightarrow> penv \<Rightarrow> penv" where
  "pw_apply_python im agent_dir e =
     (let shim_dir = snprintf_s 1024 (agent_dir @ lit ''/python'');
          shim = snprintf_s 1088 (shim_dir @ lit ''/sitecustomize.py'')
      in if \<not> im_exists im shim then e
         else snd (pw_env_prepend (lit ''PYTHONPATH'') shim_dir (Some shim_dir) 0x3a e))"

text \<open>The static variables of the library.\<close>

record inject_state =
  in_applied :: bool
  in_armed :: bool
  in_hint :: cstring
  in_started :: bool

definition inject_init :: inject_state where
  "inject_init = \<lparr>in_applied = False, in_armed = False, in_hint = lit ''other'', in_started = False\<rparr>"

definition pw_set_runtime_hint :: "cstring option \<Rightarrow> inject_state \<Rightarrow> inject_state" where
  "pw_set_runtime_hint hint st = st\<lparr>in_hint := (if blank hint then lit ''other'' else the hint)\<rparr>"

definition pw_init :: "image \<Rightarrow> inject_state \<times> penv \<Rightarrow> inject_state \<times> penv" where
  "pw_init im = (\<lambda>(st, e).
     if in_applied st then (st, e)
     else
       let st1 = st\<lparr>in_applied := True\<rparr>;
           off = env_get e (lit ''PROCWATCH_INJECT_DISABLED'')
       in if \<not> blank off \<and> the off \<noteq> lit ''0'' then (st1, e)
          else if im_euid im \<noteq> im_uid im \<or> im_egid im \<noteq> im_gid im then (st1, e)
          else if pw_resolve_label e = None then (st1, e)
          else
            let st2 = st1\<lparr>in_armed := True\<rparr>;
                rt0 = pw_detect_by_name im;
                rt = (if rt0 \<noteq> PW_RT_UNKNOWN then pw_confirm_by_symbol im rt0 else rt0);
                agent_dir = pw_agent_dir e
            in case rt of
                 PW_RT_JAVA \<Rightarrow>
                   (pw_set_runtime_hint (Some (lit ''java'')) st2, pw_apply_java im agent_dir (pw_apply_common im e))
               | PW_RT_PYTHON \<Rightarrow>
                   (pw_set_runtime_hint (Some (lit ''python'')) st2, pw_apply_python im agent_dir (pw_apply_common im e))
               | PW_RT_UNKNOWN \<Rightarrow> (pw_set_runtime_hint (Some (lit ''other'')) st2, e))"

section \<open>exec_wrap.c\<close>

definition KEEP_KEYS :: "cstring list" where
  "KEEP_KEYS = map lit
     [''PROCWATCH_LABEL'', ''PROCWATCH_SERVICE'', ''PROCWATCH_ENDPOINT'', ''PROCWATCH_AGENT_DIR'', ''PROCWATCH_POD'',
      ''PROCWATCH_METRIC_INTERVAL'', ''PROCWATCH_INJECT_DEBUG'', ''LD_PRELOAD'', ''OTEL_SERVICE_NAME'',
      ''OTEL_EXPORTER_OTLP_ENDPOINT'', ''OTEL_EXPORTER_OTLP_PROTOCOL'', ''OTEL_RESOURCE_ATTRIBUTES'',
      ''OTEL_TRACES_EXPORTER'', ''OTEL_METRICS_EXPORTER'', ''OTEL_LOGS_EXPORTER'', ''JAVA_TOOL_OPTIONS'', ''PYTHONPATH'']"

definition env_has_key :: "cstring list option \<Rightarrow> cstring \<Rightarrow> bool" where
  "env_has_key envp key =
     (case envp of None \<Rightarrow> False | Some es \<Rightarrow> list_ex (\<lambda>e. entry_value key e \<noteq> None) es)"

text \<open>What the loops skip: a key without a value here or with an entry in \<open>envp\<close>.\<close>

definition to_merge :: "penv \<Rightarrow> cstring list option \<Rightarrow> cstring \<Rightarrow> bool" where
  "to_merge e envp key \<longleftrightarrow> \<not> blank (env_get e key) \<and> \<not> env_has_key envp key"

fun merge_loop :: "cstring list option \<Rightarrow> cstring list \<Rightarrow> cstring list \<Rightarrow> penv \<Rightarrow> cstring list option \<times> penv" where
  "merge_loop envp [] out e = (Some out, e)"
| "merge_loop envp (key # keys) out e =
     (if \<not> to_merge e envp key then merge_loop envp keys out e
      else case env_alloc e of (ok, e1) \<Rightarrow>
        if \<not> ok then (None, e1)
        else merge_loop envp keys (out @ [env_entry key (the (env_get e key))]) e1)"

definition merge_env :: "cstring list option \<Rightarrow> penv \<Rightarrow> cstring list option \<times> penv" where
  "merge_env envp e =
     (if length (filter (to_merge e envp) KEEP_KEYS) = 0 then (None, e)
      else case env_alloc e of (ok, e1) \<Rightarrow>
        if \<not> ok then (None, e1)
        else merge_loop envp KEEP_KEYS (case envp of None \<Rightarrow> [] | Some es \<Rightarrow> es) e1)"

text \<open>
  The three interposed calls: the real function, if the linker finds it, gets the merged environment, or the
  given one if nothing was merged.  Its result is only seen when it fails.
\<close>

definition wrapped_exec :: "(cstring list option \<Rightarrow> int) option \<Rightarrow> cstring list option \<Rightarrow> penv \<Rightarrow> int \<times> penv" where
  "wrapped_exec real_fn envp e =
     (case real_fn of
        None \<Rightarrow> (- 1, e)
      | Some f \<Rightarrow>
          (case merge_env envp e of (merged, e1) \<Rightarrow> (f (case merged of Some m \<Rightarrow> Some m | None \<Rightarrow> envp), e1)))"

section \<open>metrics_thread.c\<close>

definition metric_interval :: "(cstring \<Rightarrow> cstring option) \<Rightarrow> int" where
  "metric_interval getenv =
     (let iv = getenv (lit ''PROCWATCH_METRIC_INTERVAL'')
      in if blank iv then 10 else if atoi (the iv) > 0 then atoi (the iv) else 10)"

definition baseline_zero :: proc_baseline where
  "baseline_zero = \<lparr>pb_proc_time = 0, pb_cpu_total = 0, pb_have_baseline = False\<rparr>"

text \<open>The part before the loop: the first sample only sets the baseline.\<close>

definition metrics_first :: "procfs \<Rightarrow> sysconf \<Rightarrow> int \<Rightarrow> proc_baseline" where
  "metrics_first pf sc pid =
     (case pw_sample_pid pf sc pid baseline_zero sample_zero of None \<Rightarrow> baseline_zero | Some (base, s) \<Rightarrow> base)"

text \<open>One turn of the loop, after its sleep, over what \<^verbatim>\<open>/proc\<close> shows at that time.\<close>

definition metrics_turn ::
    "'d net \<Rightarrow> (cstring \<Rightarrow> cstring option) \<Rightarrow> sysconf \<Rightarrow> int \<Rightarrow> cstring \<Rightarrow> cstring \<Rightarrow> procfs \<Rightarrow>
     proc_baseline \<times> 'd \<Rightarrow> proc_baseline \<times> 'd" where
  "metrics_turn net getenv sc pid stamp runtime pf = (\<lambda>(base, d).
     case pw_sample_pid pf sc pid base sample_zero of
       None \<Rightarrow> (base, d)
     | Some (base1, s) \<Rightarrow>
         let s1 = pw_sample_fill_identity getenv (Some runtime) s;
             s2 = pw_sample_set_pid_key (ss_pid s1) stamp s1
         in if \<not> pw_label_valid (Some (ss_label s2)) then (base1, d)
            else (base1, snd (pw_push_sample net (Some (env_endpoint getenv)) s2 d)))"

text \<open>The turns of the thread over the rounds \<open>pfs\<close>; the loop itself never ends.\<close>

definition metrics_loop ::
    "'d net \<Rightarrow> (cstring \<Rightarrow> cstring option) \<Rightarrow> sysconf \<Rightarrow> int \<Rightarrow> tm \<Rightarrow> cstring \<Rightarrow> procfs \<Rightarrow> procfs list \<Rightarrow>
     'd \<Rightarrow> proc_baseline \<times> 'd" where
  "metrics_loop net getenv sc pid t runtime pf0 pfs d =
     fold (metrics_turn net getenv sc pid (snprintf_s 32 (pw_format_created_stamp t)) runtime) pfs
       (metrics_first pf0 sc pid, d)"

text \<open>
  Whether the thread is started, and with which hint; the \<open>bool\<close>s are \<^verbatim>\<open>strdup\<close>, \<^verbatim>\<open>pthread_attr_init\<close> and
  \<^verbatim>\<open>pthread_create\<close>.
\<close>

definition pw_metrics_thread_start ::
    "bool \<Rightarrow> bool \<Rightarrow> bool \<Rightarrow> penv \<Rightarrow> inject_state \<Rightarrow> cstring option \<times> inject_state" where
  "pw_metrics_thread_start dup_ok attr_ok create_ok e st =
     (if in_started st then (None, st)
      else if pw_resolve_label e = None then (None, st)
      else
        let arg = (if dup_ok then in_hint st else lit ''other'')
        in if \<not> attr_ok then (None, st)
           else if create_ok then (Some arg, st\<lparr>in_started := True\<rparr>) else (None, st))"

definition libc_start_main ::
    "bool \<Rightarrow> bool \<Rightarrow> bool \<Rightarrow> penv \<Rightarrow> inject_state \<Rightarrow> cstring option \<times> inject_state" where
  "libc_start_main dup_ok attr_ok create_ok e st =
     (if in_armed st then pw_metrics_thread_start dup_ok attr_ok create_ok e st else (None, st))"

end
