(* ===== verification/Wrap.thy ===== *)
theory Wrap
  imports TreeWalk Inject
begin

text \<open>
  The wrapper command \<^verbatim>\<open>procwatch-wrap\<close>, \<^verbatim>\<open>src/wrap/wrap.c\<close>: it starts the program, samples the processes below it
  in rounds until it ends, and exits with its status.  \<^verbatim>\<open>fork\<close> and \<^verbatim>\<open>waitpid\<close> are inputs; \<^verbatim>\<open>realloc\<close> is taken to
  succeed.  A round sees one state of \<^verbatim>\<open>/proc\<close>.
\<close>

record tree_node =
  tn_pid :: int
  tn_stat :: proc_stat
  tn_status :: proc_status
  tn_comm :: cstring

text \<open>What is read of one process; the \<^verbatim>\<open>status\<close> part stays zero when that file cannot be read.\<close>

definition read_node :: "procfs \<Rightarrow> int \<Rightarrow> tree_node option" where
  "read_node pf cur =
     (case read_proc_stat pf cur 64 of
        None \<Rightarrow> None
      | Some (st, comm) \<Rightarrow>
          Some \<lparr>tn_pid = cur, tn_stat = st,
                tn_status = (case read_proc_status pf cur of None \<Rightarrow> proc_status_zero | Some ps \<Rightarrow> ps),
                tn_comm = comm\<rparr>)"

definition snapshot_tree :: "procfs \<Rightarrow> int \<Rightarrow> tree_node list" where
  "snapshot_tree pf root_pid = tree_walk pf (read_node pf) [root_pid] 0 [] []"

record wrap_config =
  wc_endpoint :: cstring
  wc_stamp :: cstring
  wc_ncpu :: int
  wc_page_kb :: int

record wrap_state =
  ws_prev :: "prev_sample list"
  ws_tot_prev :: cpu_totals

definition node_time :: "tree_node \<Rightarrow> 64 word" where
  "node_time n = ps_utime (tn_stat n) + ps_stime (tn_stat n)"

definition node_sample ::
    "(cstring \<Rightarrow> cstring option) \<Rightarrow> wrap_config \<Rightarrow> 64 word \<Rightarrow> 64 word \<Rightarrow> tree_node \<Rightarrow> proc_sample" where
  "node_sample getenv wc delta_tot delta_proc n =
     (let cpu_pct = (if delta_tot > 0 then cpu_percent delta_proc delta_tot (wc_ncpu wc) else 0);
          rss_kb = (if pt_vmrss_kb (tn_status n) > 0 then pt_vmrss_kb (tn_status n)
                    else long_wrap (ps_rss (tn_stat n) * wc_page_kb wc));
          threads = (if pt_threads (tn_status n) > 0 then pt_threads (tn_status n) else ps_num_threads (tn_stat n));
          s = sample_zero\<lparr>ss_pid := tn_pid n, ss_cpu_pct := cpu_pct, ss_rss_kb := rss_kb, ss_threads := threads,
                ss_comm := snprintf_s 64 (tn_comm n)\<rparr>
      in pw_sample_set_pid_key (ss_pid s) (wc_stamp wc) (pw_sample_fill_identity getenv (Some (lit ''other'')) s))"

text \<open>The loop over the nodes of a round.\<close>

fun push_nodes ::
    "'d net \<Rightarrow> (cstring \<Rightarrow> cstring option) \<Rightarrow> wrap_config \<Rightarrow> bool \<Rightarrow> 64 word \<Rightarrow> tree_node list \<Rightarrow>
     prev_sample list \<Rightarrow> 'd \<Rightarrow> prev_sample list \<times> 'd" where
  "push_nodes net getenv wc skip_push delta_tot [] prev d = (prev, d)"
| "push_nodes net getenv wc skip_push delta_tot (n # ns) prev d =
     (case charge (tn_pid n) (node_time n) prev of (prev1, delta_proc) \<Rightarrow>
        if skip_push then push_nodes net getenv wc skip_push delta_tot ns prev1 d
        else
          let s = node_sample getenv wc delta_tot delta_proc n;
              d1 = (if pw_label_valid (Some (ss_label s)) then snd (pw_push_sample net (Some (wc_endpoint wc)) s d) else d)
          in push_nodes net getenv wc skip_push delta_tot ns prev1 d1)"

definition push_tree ::
    "'d net \<Rightarrow> (cstring \<Rightarrow> cstring option) \<Rightarrow> wrap_config \<Rightarrow> int \<Rightarrow> bool \<Rightarrow> procfs \<Rightarrow> wrap_state \<times> 'd \<Rightarrow> wrap_state \<times> 'd" where
  "push_tree net getenv wc root_pid skip_push pf = (\<lambda>(ws, d).
     case parse_cpu_totals pf of
       None \<Rightarrow> (ws, d)
     | Some tot_now \<Rightarrow>
         let delta_tot = cpu_totals_sum tot_now - cpu_totals_sum (ws_tot_prev ws)
         in case push_nodes net getenv wc skip_push delta_tot (snapshot_tree pf root_pid) (clear_seen (ws_prev ws)) d of
              (prev, d1) \<Rightarrow> (\<lparr>ws_prev = prev, ws_tot_prev = tot_now\<rparr>, d1))"

section \<open>main\<close>

text \<open>The command to run, or the exit status 2.\<close>

definition wrap_command :: "(cstring \<Rightarrow> cstring option) \<Rightarrow> cstring list \<Rightarrow> int + cstring list" where
  "wrap_command getenv argv =
     (let argi = (if 1 < length argv \<and> argv ! 1 = lit ''--'' then 2 else 1)
      in if argi \<ge> length argv then Inl 2
         else if \<not> pw_label_valid (getenv (lit ''PROCWATCH_LABEL'')) then Inl 2
         else Inr (drop argi argv))"

definition wrap_config_of :: "(cstring \<Rightarrow> cstring option) \<Rightarrow> sysconf \<Rightarrow> tm \<Rightarrow> wrap_config" where
  "wrap_config_of getenv sc t =
     \<lparr>wc_endpoint = env_endpoint getenv, wc_stamp = snprintf_s 32 (pw_format_created_stamp t),
      wc_ncpu = sys_ncpu sc, wc_page_kb = sys_page_kb sc\<rparr>"

definition cpu_totals_zero :: cpu_totals where
  "cpu_totals_zero =
     \<lparr>ct_user = 0, ct_nice = 0, ct_system = 0, ct_idle = 0, ct_iowait = 0, ct_irq = 0, ct_softirq = 0, ct_steal = 0\<rparr>"

definition wrap_state_init :: "procfs \<Rightarrow> wrap_state" where
  "wrap_state_init pf =
     \<lparr>ws_prev = [], ws_tot_prev = (case parse_cpu_totals pf of None \<Rightarrow> cpu_totals_zero | Some t \<Rightarrow> t)\<rparr>"

text \<open>
  The baseline round and the rounds until the child is gone; \<open>pfs\<close> is \<^verbatim>\<open>/proc\<close> at each of the latter, the
  last of them being the last that started before the child ended.
\<close>

definition wrap_rounds ::
    "'d net \<Rightarrow> (cstring \<Rightarrow> cstring option) \<Rightarrow> wrap_config \<Rightarrow> int \<Rightarrow> procfs \<Rightarrow> procfs \<Rightarrow> procfs list \<Rightarrow> 'd \<Rightarrow> wrap_state \<times> 'd" where
  "wrap_rounds net getenv wc child pf_start pf0 pfs d =
     fold (push_tree net getenv wc child False) pfs
       (push_tree net getenv wc child True pf0 (wrap_state_init pf_start, d))"

datatype wait_status = Exited int | Signaled int | Stopped

datatype wait_result = Waited wait_status | WaitIntr | WaitFailed

text \<open>The loop around \<^verbatim>\<open>waitpid\<close>: the status it leaves in \<^verbatim>\<open>status\<close>, which starts as 0, a normal exit with 0.\<close>

fun wait_child :: "wait_result list \<Rightarrow> wait_status" where
  "wait_child [] = Exited 0"
| "wait_child (WaitIntr # rs) = wait_child rs"
| "wait_child (WaitFailed # rs) = Exited 0"
| "wait_child (Waited st # rs) = st"

definition wrap_exit :: "wait_status \<Rightarrow> int" where
  "wrap_exit st = (case st of Exited n \<Rightarrow> n | Signaled n \<Rightarrow> 128 + n | Stopped \<Rightarrow> 1)"

text \<open>All of it; a failed \<^verbatim>\<open>fork\<close> is \<open>None\<close>.\<close>

definition wrap_main ::
    "'d net \<Rightarrow> (cstring \<Rightarrow> cstring option) \<Rightarrow> sysconf \<Rightarrow> tm \<Rightarrow> cstring list \<Rightarrow> int option \<Rightarrow>
     procfs \<Rightarrow> procfs \<Rightarrow> procfs list \<Rightarrow> wait_result list \<Rightarrow> 'd \<Rightarrow> int \<times> 'd" where
  "wrap_main net getenv sc t argv fork_pid pf_start pf0 pfs waits d =
     (case wrap_command getenv argv of
        Inl rc \<Rightarrow> (rc, d)
      | Inr cmd \<Rightarrow>
          (case fork_pid of
             None \<Rightarrow> (1, d)
           | Some child \<Rightarrow>
               (case wrap_rounds net getenv (wrap_config_of getenv sc t) child pf_start pf0 pfs d of (ws, d1) \<Rightarrow>
                  (wrap_exit (wait_child waits), d1))))"

end
