(* ===== verification/ProcPushProps.thy ===== *)
theory ProcPushProps
  imports ProcPush LineFields SampleAgent
begin

text \<open>
  What the samplers make of \<^verbatim>\<open>/proc/<pid>/stat\<close>: \<open>read_proc_stat\<close> of \<^verbatim>\<open>src/proc_scan.c\<close> reads the kernel's
  numbers, \<open>pw_sample_pid\<close> of \<^verbatim>\<open>src/common/proc_push.c\<close> does not; and what the agent makes of a pushed
  sample.
\<close>

section \<open>A stat line of the kernel\<close>

lemma strrchr_split: "b \<notin> set u \<Longrightarrow> strrchr (pre @ b # u) b = Some (b # u)"
proof -
  assume "b \<notin> set u"
  then have "takeWhile (\<lambda>c. c \<noteq> b) (rev u @ b # rev pre) = rev u"
    by (intro takeWhile_append_stop) auto
  then show ?thesis by (simp add: strrchr_def)
qed

text \<open>The numbers after the state letter, each after a space, and the newline.\<close>

definition int_fields :: "int list \<Rightarrow> byte list" where
  "int_fields is = concat (map (\<lambda>i. 0x20 # dec_int i) is) @ [0x0a]"

definition stat_text :: "int \<Rightarrow> cstring \<Rightarrow> byte \<Rightarrow> int list \<Rightarrow> byte list" where
  "stat_text pid comm st is = dec_int pid @ [0x20, 0x28] @ comm @ [0x29, 0x20, st] @ int_fields is"

lemma int_fields_simps [simp]:
  "int_fields [] = [0x0a]"
  "int_fields (i # is) = 0x20 # dec_int i @ int_fields is"
  by (simp_all add: int_fields_def)

lemma int_fields_stop: "\<not> is_digit (hd (int_fields is))"
  by (cases "is") (simp_all add: is_digit_def)

lemma scan_int_dec:
  assumes "rest \<noteq> []" "\<not> is_digit (hd rest)"
  shows "scan_int (0x20 # dec_int i @ rest) = Some (i < 0, \<bar>i\<bar>, rest)"
proof -
  obtain c ds where c: "dec_digits \<bar>i\<bar> = c # ds" and d: "is_digit c"
    using dec_digits_digits[of "\<bar>i\<bar>"] by (cases "dec_digits \<bar>i\<bar>") auto
  have ws: "\<not> is_space c" "c \<noteq> 45" "c \<noteq> 43" "is_space 0x20" "\<not> is_space 45"
    using d by (auto simp: is_digit_def is_space_def word_le_nat_alt)
  obtain k where k: "0 < k" "scan_digits 10 (dec_digits \<bar>i\<bar> @ rest) 0 0 = (\<bar>i\<bar>, k, rest)"
    using scan_dec_digits_stop[of "\<bar>i\<bar>" rest 0] assms by auto
  show ?thesis
  proof (cases "i < 0")
    case True
    then show ?thesis
      using ws k by (simp add: scan_int_def dec_int_def del: scan_digits.simps)
  next
    case False
    then have "dec_digits i = c # ds" "scan_digits 10 (c # ds @ rest) 0 0 = (i, k, rest)"
      using c k(2) by simp_all
    then show ?thesis
      using ws k(1) False by (simp add: scan_int_def dec_int_def del: scan_digits.simps)
  qed
qed

lemma scan_ints_fields:
  "n \<le> length is \<Longrightarrow> scan_ints n (int_fields is) = Some (map (\<lambda>i. (i < 0, \<bar>i\<bar>)) (take n is))"
proof (induction n arbitrary: "is")
  case (Suc n)
  then obtain i js where i: "is = i # js" by (cases "is") auto
  have "int_fields js \<noteq> []" by (cases js) simp_all
  then show ?case
    using Suc by (simp add: i scan_int_dec int_fields_stop)
qed simp

lemma as_ulong_of: "i < 2 ^ 64 \<Longrightarrow> as_ulong (False, i) = word_of_int i"
  by (simp add: as_ulong_def)

lemma as_long_of: "\<bar>i\<bar> < 2 ^ 63 \<Longrightarrow> as_long (i < 0, \<bar>i\<bar>) = i"
  by (auto simp: as_long_def)

lemma stat_text_split:
  assumes "0x29 \<notin> set (st # int_fields is)"
  shows "strrchr (stat_text pid comm st is) 0x29 = Some ([0x29, 0x20, st] @ int_fields is)"
    and "strchr (stat_text pid comm st is) 0x28 = Some (0x28 # comm @ [0x29, 0x20, st] @ int_fields is)"
proof -
  have "0x28 \<notin> set (dec_int pid @ [0x20])"
    using number_text_int(1)[of pid] by (auto simp: number_text_def is_digit_def)
  from strchr_split[OF this, of "comm @ [0x29, 0x20, st] @ int_fields is"]
  show "strchr (stat_text pid comm st is) 0x28 = Some (0x28 # comm @ [0x29, 0x20, st] @ int_fields is)"
    by (simp add: stat_text_def)
  have "0x29 \<notin> set (0x20 # st # int_fields is)"
    using assms by simp
  from strrchr_split[OF this, of "dec_int pid @ [0x20, 0x28] @ comm"]
  show "strrchr (stat_text pid comm st is) 0x29 = Some ([0x29, 0x20, st] @ int_fields is)"
    by (simp add: stat_text_def)
qed

lemma int_fields_plain: "b \<in> set (int_fields is) \<Longrightarrow> b = 0x20 \<or> b = 0x0a \<or> b = 45 \<or> is_digit b"
proof (induction "is")
  case (Cons i "is")
  have "b = 45 \<or> is_digit b" if "b \<in> set (dec_int i)"
    using that dec_digits_digits[of i b] dec_digits_digits[of "- i" b] by (auto simp: dec_int_def split: if_splits)
  then show ?case using Cons by auto
qed simp

lemma int_fields_chars: "0x29 \<notin> set (int_fields is)" "0 \<notin> set (int_fields is)"
  using int_fields_plain[of "0x29" "is"] int_fields_plain[of 0 "is"] by (auto simp: is_digit_def)


section \<open>Two readers\<close>

definition letter :: "byte \<Rightarrow> bool" where
  "letter st \<longleftrightarrow> 65 \<le> st \<and> st \<le> 90 \<or> 97 \<le> st \<and> st \<le> 122"

text \<open>The file is delivered whole, as one line.\<close>

definition stat_file :: "procfs \<Rightarrow> int \<Rightarrow> cstring \<Rightarrow> byte \<Rightarrow> int list \<Rightarrow> bool" where
  "stat_file pf pid comm st is \<longleftrightarrow>
     pf_file pf (proc_path pid ''/stat'') = Some (stat_text pid comm st is) \<and>
     length (stat_text pid comm st is) < 4096 \<and> 0 \<notin> set comm \<and> 0x0a \<notin> set comm \<and>
     letter st"

lemma letterD: "letter c \<Longrightarrow> c \<noteq> 0 \<and> c \<noteq> 0x0a \<and> c \<noteq> 0x29 \<and> c \<noteq> 0x20 \<and> \<not> is_space c \<and> \<not> is_digit c \<and> c \<noteq> 45 \<and> c \<noteq> 43"
  by (auto simp: letter_def is_space_def is_digit_def word_le_nat_alt)

lemma stat_text_cstr:
  assumes "stat_file pf pid comm st is"
  shows "cstr (stat_text pid comm st is) = stat_text pid comm st is"
    and "first_line pf 4096 (proc_path pid ''/stat'') = Some (stat_text pid comm st is)"
    and "read_file pf (proc_path pid ''/stat'') 4096 = Some (stat_text pid comm st is)"
proof -
  have st: "letter st" and f: "pf_file pf (proc_path pid ''/stat'') = Some (stat_text pid comm st is)"
    and len: "length (stat_text pid comm st is) < 4096" and comm: "0 \<notin> set comm" "0x0a \<notin> set comm"
    using assms by (simp_all add: stat_file_def)
  have pid: "0 \<notin> set (dec_int pid)" "0x0a \<notin> set (dec_int pid)"
    using number_text_plain[OF number_text_int(1)[of pid]] by auto
  show c: "cstr (stat_text pid comm st is) = stat_text pid comm st is"
    using letterD[OF st] pid comm int_fields_chars(2) by (intro cstr_id) (auto simp: is_cstr_def stat_text_def)
  show "read_file pf (proc_path pid ''/stat'') 4096 = Some (stat_text pid comm st is)"
    using len c by (simp add: read_file_def f) (simp add: stat_text_def)
  obtain body where body: "stat_text pid comm st is = body @ [0x0a]"
    by (simp add: stat_text_def int_fields_def)
  have nl: "0x0a \<notin> set body"
  proof -
    have "0x0a \<notin> set (concat (map (\<lambda>i. 0x20 # dec_int i) is))"
      using number_text_plain[OF number_text_int(1)] by auto
    moreover have "body = dec_int pid @ [0x20, 0x28] @ comm @ [0x29, 0x20, st] @ concat (map (\<lambda>i. 0x20 # dec_int i) is)"
      using body by (simp add: stat_text_def int_fields_def)
    ultimately show ?thesis
      using letterD[OF st] pid comm by auto
  qed
  have "fgets 4096 (body @ [0x0a]) = (body @ [0x0a], [])"
  proof -
    have "takeWhile (\<lambda>b. b \<noteq> 0x0a) (body @ [0x0a]) = body"
      using nl by (intro takeWhile_append_stop) auto
    then show ?thesis using len body by (simp add: fgets_def Let_def)
  qed
  then show "first_line pf 4096 (proc_path pid ''/stat'') = Some (stat_text pid comm st is)"
    using c by (simp add: first_line_def f body)
qed

text \<open>C19. For a \<^verbatim>\<open>stat\<close> file as the kernel writes it -- whatever bytes the command name has, parentheses and
  spaces included -- \<open>read_proc_stat\<close> delivers each number of the file and the first bytes of the name.\<close>

theorem read_proc_stat_exact:
  assumes "stat_file pf pid comm st is" "21 \<le> length is" "0 < comm_sz"
    and "\<forall>k \<in> {0, 6, 8, 10, 11, 18}. 0 \<le> is ! k \<and> is ! k < 2 ^ 64"
    and "\<forall>k \<in> {14, 15, 16, 19, 20}. \<bar>is ! k\<bar> < 2 ^ 63"
  shows "read_proc_stat pf pid comm_sz =
    Some (\<lparr>ps_utime = word_of_int (is ! 10), ps_stime = word_of_int (is ! 11),
           ps_minflt = word_of_int (is ! 6), ps_majflt = word_of_int (is ! 8),
           ps_priority = is ! 14, ps_nice = is ! 15, ps_num_threads = is ! 16,
           ps_starttime = word_of_int (is ! 18), ps_vsize = word_of_int (is ! 19), ps_rss = is ! 20,
           ps_ppid = word_of_int (is ! 0)\<rparr>, take (comm_sz - 1) comm)"
proof -
  have st: "letter st"
    using assms(1) by (simp add: stat_file_def)
  have "0x29 \<notin> set (st # int_fields is)"
    using letterD[OF st] int_fields_chars(1)[of "is"] by auto
  note split = stat_text_split[OF this, of pid comm]
  have scan: "scan_ints 21 (int_fields is) = Some (map (\<lambda>i. (i < 0, \<bar>i\<bar>)) (take 21 is))"
    by (rule scan_ints_fields[OF assms(2)])
  have name: "take (if length comm < comm_sz - 1 then length comm else comm_sz - 1) (comm @ x) = take (comm_sz - 1) comm" for x :: "byte list"
    by simp
  have at: "map (\<lambda>i. (i < 0, \<bar>i\<bar>)) (take 21 is) ! k = (is ! k < 0, \<bar>is ! k\<bar>)" if "k < 21" for k
    using that assms(2) by simp
  have "read_proc_stat pf pid comm_sz = parse_stat_line (stat_text pid comm st is) comm_sz"
    by (simp add: read_proc_stat_def stat_text_cstr(2)[OF assms(1)])
  also have "\<dots> =
      (let f = map (\<lambda>i. (i < 0, \<bar>i\<bar>)) (take 21 is)
       in Some (\<lparr>ps_utime = as_ulong (f ! 10), ps_stime = as_ulong (f ! 11), ps_minflt = as_ulong (f ! 6),
                ps_majflt = as_ulong (f ! 8), ps_priority = as_long (f ! 14), ps_nice = as_long (f ! 15),
                ps_num_threads = as_long (f ! 16), ps_starttime = as_ulong (f ! 18),
                ps_vsize = word_of_int (as_long (f ! 19)), ps_rss = as_long (f ! 20), ps_ppid = as_ulong (f ! 0)\<rparr>,
              take (comm_sz - 1) comm))"
    unfolding parse_stat_line_def split by (simp add: scan Let_def)
  finally show ?thesis
    using assms(4,5) by (simp add: at as_ulong_of as_long_of Let_def del: nth_map nth_take)
qed

definition sample_procfs :: procfs where
  "sample_procfs =
     \<lparr>pf_file = [lit ''/proc/7/stat'' \<mapsto> stat_text 7 (lit ''a) (b'') 0x53 [1,7,7,0,-1,64,10,0,3,0,250,50,0,0,20,0,4,0,99,4096,33],
        lit ''/proc/7/status'' \<mapsto> lit ''Name:'' @ [0x09] @ lit ''x'' @ [0x0a] @ lit ''VmRSS:  132 kB'' @ [0x0a] @ lit ''Threads: 4'' @ [0x0a],
        lit ''/proc/stat'' \<mapsto> lit ''cpu  10 20 30 40 0 0 0 0 0 0'' @ [0x0a]],
      pf_dir = Map.empty, pf_link = Map.empty\<rparr>"

theorem read_proc_stat_exact_witness:
  "map_option (\<lambda>(st, comm). (ps_utime st, ps_stime st, ps_rss st, comm)) (read_proc_stat sample_procfs 7 64) =
   Some (250, 50, 33, lit ''a) (b'')"
proof -
  have "stat_file sample_procfs 7 (lit ''a) (b'') 0x53 [1,7,7,0,-1,64,10,0,3,0,250,50,0,0,20,0,4,0,99,4096,33]"
    by code_simp
  from read_proc_stat_exact[OF this, of 64] show ?thesis
    by (simp add: lit_def)
qed

section \<open>The pushed CPU share\<close>

lemma dbl_round_not_neg:
  assumes "0 \<le> num" "0 < den"
  shows "\<not> dbl_neg (dbl_round False num den)"
proof -
  define e where "e = max (floor_log2 num den - 52) (- 1074)"
  define q where "q = scale_round num den e"
  define mag where "mag = (if q < 2 ^ 52 then q else (e + 1074) * 2 ^ 52 + q)"
  have "0 \<le> q"
    using assms by (simp add: q_def scale_round_def round_half_even_nonneg)
  moreover have "- 1074 \<le> e" by (simp add: e_def)
  ultimately have m: "0 \<le> mag" by (simp add: mag_def)
  have "uint (dbl_round False num den) \<le> 2047 * 2 ^ 52"
  proof (cases "num = 0")
    case False
    have "dbl_round False num den = word_of_int (min mag (2047 * 2 ^ 52))"
      using False by (simp add: dbl_round_def Let_def e_def q_def mag_def)
    moreover have "uint (word_of_int (min mag (2047 * 2 ^ 52)) :: 64 word) = min mag (2047 * 2 ^ 52)"
      using m by (simp add: uint_word_of_int)
    ultimately show ?thesis by simp
  qed (simp add: dbl_round_def)
  then show ?thesis by (simp add: dbl_neg_def)
qed

lemma dbl_of_nonneg: "0 \<le> i \<Longrightarrow> \<not> dbl_neg (dbl_of_int i)"
  by (simp add: dbl_of_int_def dbl_round_not_neg)

lemma dbl_zero [simp]: "fst (dbl_ratio 0) = 0" "\<not> dbl_neg 0" "dbl_of_int 0 = 0" "dbl_of_uint64 0 = 0"
  by (simp_all add: dbl_ratio_def dbl_exp_def dbl_man_def dbl_neg_def dbl_of_int_def dbl_round_def dbl_of_uint64_def)

lemma dbl_mul_zero [simp]: "\<not> dbl_neg x \<Longrightarrow> dbl_mul 0 x = 0" "\<not> dbl_neg x \<Longrightarrow> dbl_mul x 0 = 0"
  by (simp_all add: dbl_mul_def dbl_round_def case_prod_beta)

lemma dbl_div_zero [simp]: "\<not> dbl_neg x \<Longrightarrow> dbl_div 0 x = 0"
  by (simp add: dbl_div_def dbl_round_def case_prod_beta)

lemma cpu_percent_zero: "0 \<le> ncpu \<Longrightarrow> cpu_percent 0 d ncpu = 0"
  by (simp add: cpu_percent_def dbl_of_nonneg dbl_of_uint64_def[of d])

lemma stat_fields_letter: "letter st \<Longrightarrow> stat_fields (Suc n) (st # tail) = replicate (Suc n) 0"
  using letterD[of st] by (simp add: strtoull_def scan_int_def digit_value_def)

text \<open>C20. The sampler of the preload library expects the first number right after the parenthesis, where the kernel
  puts the state letter.  So on every \<^verbatim>\<open>stat\<close> file of the kernel the processor time it sees is 0 and the CPU share
  it reports is 0, whatever the process consumed and whatever the baseline; resident size and threads are those
  of \<^verbatim>\<open>status\<close>, or 0.\<close>

theorem pushed_cpu_is_zero:
  assumes "stat_file pf pid comm st is"
  shows "\<exists>out'. pw_sample_pid pf sc pid base out =
      Some (\<lparr>pb_proc_time = 0, pb_cpu_total = read_cpu_total pf, pb_have_baseline = True\<rparr>, out') \<and>
    ss_cpu_pct out' = 0 \<and> (ss_rss_kb out', ss_threads out') = parse_status pf pid (0, 0) \<and>
    ss_comm out' = take 63 comm"
proof -
  have st: "letter st"
    using assms by (simp add: stat_file_def)
  have "0x29 \<notin> set (st # int_fields is)"
    using letterD[OF st] int_fields_chars(1)[of "is"] by auto
  note split = stat_text_split[OF this, of pid comm]
  have fields: "stat_fields 30 (st # int_fields is) = replicate 30 0"
    using stat_fields_letter[OF st, of 29] by simp
  have "parse_stat pf pid 64 = Some (0, 0, 0, 0, take 63 comm)"
    unfolding parse_stat_def stat_text_cstr(3)[OF assms] option.case split
    by (simp add: fields Let_def del: replicate.simps stat_fields.simps)
  moreover have "0 \<le> sys_ncpu sc"
    by (simp add: sys_ncpu_def)
  ultimately show ?thesis
    by (cases "parse_status pf pid (0, 0)")
      (simp add: pw_sample_pid_def long_wrap_def Let_def cpu_percent_zero)
qed

theorem pushed_cpu_is_zero_witness:
  "\<exists>out'. pw_sample_pid sample_procfs \<lparr>sc_pagesize = 4096, sc_nprocessors = 8\<rparr> 7
        \<lparr>pb_proc_time = 0, pb_cpu_total = 40, pb_have_baseline = True\<rparr> sample_zero =
      Some (\<lparr>pb_proc_time = 0, pb_cpu_total = read_cpu_total sample_procfs, pb_have_baseline = True\<rparr>, out') \<and>
    ss_cpu_pct out' = 0 \<and> (ss_rss_kb out', ss_threads out') = parse_status sample_procfs 7 (0, 0) \<and>
    ss_comm out' = take 63 (lit ''a) (b'')"
proof -
  have "stat_file sample_procfs 7 (lit ''a) (b'') 0x53 [1,7,7,0,-1,64,10,0,3,0,250,50,0,0,20,0,4,0,99,4096,33]"
    by code_simp
  from pushed_cpu_is_zero[OF this] show ?thesis .
qed

section \<open>A pushed sample at the agent\<close>

text \<open>Strings that need no escaping, which the client does not do, in arrays of their size.\<close>

definition plain :: "nat \<Rightarrow> cstring \<Rightarrow> bool" where
  "plain cap s \<longleftrightarrow> length s < cap \<and> (\<forall>c\<in>set s. 0x20 \<le> c \<and> c \<noteq> 0x22 \<and> c \<noteq> 0x5c)"

lemma plainD: "plain cap s \<Longrightarrow> printable cap s" "plain cap s \<Longrightarrow> json_esc s = s"
proof -
  show "plain cap s \<Longrightarrow> printable cap s" by (auto simp: plain_def printable_def)
  assume p: "plain cap s"
  show "json_esc s = s"
  proof (rule json_esc_plain)
    fix c assume "c \<in> set s"
    with p have "0x20 \<le> c" "c \<noteq> 0x22" "c \<noteq> 0x5c" by (auto simp: plain_def)
    then show "json_rep c = None"
      by (auto simp: json_rep_def word_le_nat_alt word_less_nat_alt)
  qed
qed

definition pushable :: "proc_sample \<Rightarrow> bool" where
  "pushable s \<longleftrightarrow>
     pw_label_valid (Some (ss_label s)) \<and> plain 256 (ss_service s) \<and> ss_service s \<noteq> [] \<and>
     plain 64 (ss_pid_key s) \<and> ss_pid_key s \<noteq> [] \<and> plain 64 (ss_comm s) \<and> plain 32 (ss_runtime s) \<and>
     plain 256 (ss_pod s) \<and> plain 80 (ss_container_id s) \<and>
     \<bar>ss_rss_kb s\<bar> < 2 ^ 53 \<and> \<bar>ss_threads s\<bar> < 2 ^ 53"

definition push_members :: "proc_sample \<Rightarrow> (cstring \<times> cstring) list" where
  "push_members s =
     [(lit ''label'', quoted (json_esc (ss_label s))), (lit ''service'', quoted (json_esc (ss_service s))),
      (lit ''pid'', quoted (json_esc (ss_pid_key s))),
      (lit ''comm'', quoted (json_esc (ss_comm s))), (lit ''cpu_pct'', fmt_f 6 (ss_cpu_pct s)),
      (lit ''rss_kb'', dec_int (ss_rss_kb s)), (lit ''threads'', dec_int (ss_threads s)),
      (lit ''runtime'', quoted (json_esc (ss_runtime s))), (lit ''pod'', quoted (json_esc (ss_pod s))),
      (lit ''container_id'', quoted (json_esc (ss_container_id s)))]"

lemma label_valid_identifier: "pw_label_valid (Some l) \<longleftrightarrow> validate_identifier l"
  by (cases l) (auto simp: pw_label_valid_def validate_identifier_def)

lemma push_body_members:
  assumes "pushable s"
  shows "push_body s = json_line (push_members s)" "members_ok (push_members s)"
proof -
  have id: "validate_identifier (ss_label s)"
    using assms by (simp add: pushable_def label_valid_identifier)
  have p: "plain 256 (ss_service s)" "plain 64 (ss_pid_key s)" "plain 64 (ss_comm s)" "plain 32 (ss_runtime s)"
      "plain 256 (ss_pod s)" "plain 80 (ss_container_id s)" "ss_pid_key s \<noteq> []"
    using assms by (simp_all add: pushable_def)
  show "push_body s = json_line (push_members s)"
    using p(7) by (simp add: push_body_def push_members_def plainD(2)[OF p(1)] plainD(2)[OF p(2)] plainD(2)[OF p(3)]
        plainD(2)[OF p(4)] plainD(2)[OF p(5)] plainD(2)[OF p(6)] identifier_plain(1)[OF id])
  have nul: "0 \<notin> set u" if "plain cap u" for cap u
    using that by (auto simp: plain_def)
  have "0 \<notin> set (ss_label s)"
    using printableD(3)[OF identifier_plain(2)[OF id] order_refl] .
  then show "members_ok (push_members s)"
    using nul[OF p(1)] nul[OF p(2)] nul[OF p(3)] nul[OF p(4)] nul[OF p(5)] nul[OF p(6)]
    by (simp add: members_ok_def push_members_def key_facts value_ok_quoted value_ok_number)
qed

lemma push_lookup:
  "map_of (push_members s) (lit ''label'') = Some (quoted (json_esc (ss_label s)))"
  "map_of (push_members s) (lit ''service'') = Some (quoted (json_esc (ss_service s)))"
  "map_of (push_members s) (lit ''pid'') = Some (quoted (json_esc (ss_pid_key s)))"
  "map_of (push_members s) (lit ''comm'') = Some (quoted (json_esc (ss_comm s)))"
  "map_of (push_members s) (lit ''rss_kb'') = Some (dec_int (ss_rss_kb s))"
  "map_of (push_members s) (lit ''threads'') = Some (dec_int (ss_threads s))"
  "map_of (push_members s) (lit ''runtime'') = Some (quoted (json_esc (ss_runtime s)))"
  "map_of (push_members s) (lit ''pod'') = Some (quoted (json_esc (ss_pod s)))"
  "map_of (push_members s) (lit ''container_id'') = Some (quoted (json_esc (ss_container_id s)))"
  by (simp_all add: push_members_def)

definition pushed_metric :: "proc_sample \<Rightarrow> proc_metric" where
  "pushed_metric s =
     \<lparr>pm_label = ss_label s, pm_service = ss_service s, pm_container_id = ss_container_id s, pm_pod = ss_pod s,
      pm_pid = ss_pid_key s, pm_comm = ss_comm s, pm_runtime = ss_runtime s,
      pm_cpu = json_num_or (push_body s) ''cpu_pct'' 0, pm_rss = ss_rss_kb s, pm_threads = ss_threads s\<rparr>"


definition pushed_sample :: proc_sample where
  "pushed_sample = sample_zero\<lparr>ss_label := lit ''web'', ss_service := lit ''shop'', ss_pid_key := lit ''7_20260101000000'',
     ss_comm := lit ''nginx'', ss_runtime := lit ''other'', ss_rss_kb := 132, ss_threads := 4\<rparr>"


end
