(* ===== verification/WrapProps.thy ===== *)
theory WrapProps
  imports Wrap ProcPushProps
begin

text \<open>
  The rounds of \<^verbatim>\<open>src/wrap/wrap.c\<close>: which processes a round records, and that the table of processor times is a map
  from processes to the times of their last sighting, from which the shares are computed.
\<close>

section \<open>The processes of a round\<close>

lemma read_node_pid: "read_node pf p = Some n \<Longrightarrow> tn_pid n = p"
  by (auto simp: read_node_def split: option.splits)

lemma snapshot_tree_nodes:
  "distinct (map tn_pid (snapshot_tree pf r)) \<and>
   set (snapshot_tree pf r) = {n. \<exists>p. reachable pf (read_node pf) r p \<and> read_node pf p = Some n}"
proof -
  obtain q where q: "distinct q" "set q = {p. reachable pf (read_node pf) r p}"
    "snapshot_tree pf r = map (\<lambda>p. the (read_node pf p)) (filter (\<lambda>p. read_node pf p \<noteq> None) q)"
    using tree_walk_visits[of pf "read_node pf" r] unfolding snapshot_tree_def by metis
  have "map tn_pid (snapshot_tree pf r) = filter (\<lambda>p. read_node pf p \<noteq> None) q"
    unfolding q(3) map_map by (rule map_idI) (auto dest: read_node_pid)
  moreover have "set (snapshot_tree pf r) = {n. \<exists>p. reachable pf (read_node pf) r p \<and> read_node pf p = Some n}"
    using q(2) by (force simp: q(3) image_iff)
  ultimately show ?thesis using q(1) by simp
qed

text \<open>C28. A round terminates on every \<^verbatim>\<open>/proc\<close>, even one whose child lists form cycles, and records every process that can be
  reached from the started one over readable processes, each exactly once, and no other.\<close>

theorem snapshot_tree_complete:
  "distinct (map tn_pid (snapshot_tree pf r)) \<and>
   set (snapshot_tree pf r) = {n. \<exists>p. reachable pf (read_node pf) r p \<and> read_node pf p = Some n}"
  by (rule snapshot_tree_nodes)

section \<open>The table\<close>

definition node_times :: "tree_node list \<Rightarrow> int \<Rightarrow> 64 word option" where
  "node_times ns = map_of (map (\<lambda>n. (tn_pid n, node_time n)) ns)"

definition push_node ::
    "'d net \<Rightarrow> (cstring \<Rightarrow> cstring option) \<Rightarrow> wrap_config \<Rightarrow> 64 word \<Rightarrow> (int \<Rightarrow> 64 word option) \<Rightarrow> tree_node \<Rightarrow> 'd \<Rightarrow> 'd" where
  "push_node net getenv wc delta_tot before n d =
     (let s = node_sample getenv wc delta_tot (spent (before (tn_pid n)) (node_time n)) n
      in if pw_label_valid (Some (ss_label s)) then snd (pw_push_sample net (Some (wc_endpoint wc)) s d) else d)"

lemma push_node_cong:
  "before (tn_pid n) = before2 (tn_pid n) \<Longrightarrow>
   push_node net getenv wc delta_tot before n = push_node net getenv wc delta_tot before2 n"
  by (simp add: push_node_def fun_eq_iff)

lemma push_nodes_map:
  "distinct (map tn_pid ns) \<Longrightarrow> push_nodes net getenv wc skip delta_tot ns prev d = (prev1, d1) \<Longrightarrow>
   prev_map prev1 = prev_map prev ++ node_times ns \<and>
   d1 = (if skip then d else fold (push_node net getenv wc delta_tot (prev_map prev)) ns d)"
proof (induction ns arbitrary: prev d)
  case (Cons n ns)
  obtain prev2 delta where c: "charge (tn_pid n) (node_time n) prev = (prev2, delta)" by fastforce
  note m = charge_map[OF c]
  define d2 where "d2 = (if skip then d else push_node net getenv wc delta_tot (prev_map prev) n d)"
  have rest: "push_nodes net getenv wc skip delta_tot ns prev2 d2 = (prev1, d1)"
    using Cons.prems(2) m by (auto simp: c d2_def push_node_def Let_def)
  have "fold (push_node net getenv wc delta_tot (prev_map prev2)) ns d2 =
      fold (push_node net getenv wc delta_tot (prev_map prev)) ns d2"
  proof (rule fold_cong[OF refl refl])
    fix k assume "k \<in> set ns"
    have "tn_pid n \<notin> tn_pid ` set ns" using Cons.prems(1) by simp
    with \<open>k \<in> set ns\<close> have "tn_pid k \<noteq> tn_pid n" by (metis imageI)
    then show "push_node net getenv wc delta_tot (prev_map prev2) k = push_node net getenv wc delta_tot (prev_map prev) k"
      using m by (intro push_node_cong) simp
  qed
  moreover have "(prev_map prev)(tn_pid n \<mapsto> node_time n) ++ node_times ns = prev_map prev ++ node_times (n # ns)"
  proof -
    have "node_times ns (tn_pid n) = None"
      using Cons.prems(1) by (simp add: node_times_def map_of_eq_None_iff image_image comp_def)
    then show ?thesis
      by (auto simp: node_times_def map_add_def fun_eq_iff split: option.splits)
  qed
  moreover have "distinct (map tn_pid ns)"
    using Cons.prems(1) by simp
  note Cons.IH[OF this rest]
  ultimately show ?case
    unfolding d2_def m[THEN conjunct1] by (cases skip) (simp_all only: if_True if_False fold_simps simp_thms)
qed (simp add: node_times_def)

text \<open>C29. A round of the wrapper, over the abstraction of its table to a map: the shares it pushes are computed from the time
  each process had when it was last seen (a process seen for the first time has spent nothing), exactly one push per
  recorded process in the order of the walk and none in the baseline round, and afterwards the map holds the new times
  and keeps the others.\<close>

theorem push_tree_refines:
  assumes "parse_cpu_totals pf = Some tot"
    and "push_tree net getenv wc r skip pf (ws, d) = (ws1, d1)"
  defines "nodes \<equiv> snapshot_tree pf r"
    and "delta \<equiv> cpu_totals_sum tot - cpu_totals_sum (ws_tot_prev ws)"
  shows "ws_tot_prev ws1 = tot \<and> prev_map (ws_prev ws1) = prev_map (ws_prev ws) ++ node_times nodes \<and>
    d1 = (if skip then d else fold (push_node net getenv wc delta (prev_map (ws_prev ws))) nodes d)"
proof -
  obtain prev where p: "push_nodes net getenv wc skip delta nodes (clear_seen (ws_prev ws)) d = (prev, d1)"
    and ws1: "ws1 = \<lparr>ws_prev = prev, ws_tot_prev = tot\<rparr>"
    using assms(1,2) by (auto simp: push_tree_def Let_def nodes_def delta_def split: prod.splits)
  have "distinct (map tn_pid nodes)"
    using snapshot_tree_nodes[of pf r] unfolding nodes_def by blast
  from push_nodes_map[OF this p] show ?thesis
    by (simp add: ws1)
qed

text \<open>A network that records what is sent and answers with success.\<close>

definition mem_net :: "byte list list net" where
  "mem_net = \<lparr>nt_getaddrinfo = (\<lambda>h p d. (Some [0], d)),
     nt_try = (\<lambda>a d. (\<lparr>sa_socket = True, sa_rcvtimeo = True, sa_sndtimeo = True, sa_getfl = True, sa_setfl = True,
        sa_connect = ConnOk, sa_select = 1, sa_soerr = Some 0\<rparr>, d)),
     nt_send = (\<lambda>b d. ([], b # d)), nt_recv = (\<lambda>d. (Some (lit ''HTTP/1.1 200 OK''), d))\<rparr>"

definition sample_wrap_env :: "cstring \<Rightarrow> cstring option" where
  "sample_wrap_env = [lit ''PROCWATCH_LABEL'' \<mapsto> lit ''web'']"

definition sample_wrap_config :: wrap_config where
  "sample_wrap_config = \<lparr>wc_endpoint = PW_DEFAULT_ENDPOINT, wc_stamp = lit ''_20260101000000'', wc_ncpu = 1, wc_page_kb = 4\<rparr>"

theorem push_tree_refines_witness:
  "prev_map (ws_prev (fst (push_tree mem_net sample_wrap_env sample_wrap_config 7 False sample_procfs
      (wrap_state_init sample_procfs, [])))) 7 = Some 300"
proof -
  let ?ws = "wrap_state_init sample_procfs"
  obtain tot where tot: "parse_cpu_totals sample_procfs = Some tot"
  proof -
    have "parse_cpu_totals sample_procfs \<noteq> None" by code_simp
    then show ?thesis using that by blast
  qed
  obtain ws1 d1 where p: "push_tree mem_net sample_wrap_env sample_wrap_config 7 False sample_procfs (?ws, []) = (ws1, d1)"
    by fastforce
  have "node_times (snapshot_tree sample_procfs 7) 7 = Some 300"
    by code_simp
  then show ?thesis
    using push_tree_refines[OF tot p] p by simp
qed

end
