(* ===== verification/AgentProps.thy ===== *)
theory AgentProps
  imports SampleAgent CallbackProps LineFields TraceProps TraceSpec MetricProps WrapProps
begin

text \<open>
  The daemon \<^verbatim>\<open>src/agent/agentd.c\<close> as the consumer of the two decoders: its sinks meet their contracts, so every record of a
  request is booked exactly once and the spill file grows by whole records; and while it is offline nothing makes it exit.
\<close>

section \<open>Spilled lines are records\<close>

lemma clean_json_esc [simp]: "clean (json_esc s)"
proof -
  have "clean (case json_rep c of None \<Rightarrow> [c] | Some rep \<Rightarrow> rep)" for c
    by (auto simp: json_rep_def lit_def word_le_nat_alt word_less_nat_alt)
  then show ?thesis
    unfolding json_esc_def by (intro clean_concat) auto
qed

lemma clean_esc [simp]: "clean (esc cap s)"
  by (simp add: esc_fit)

lemma clean_quoted [simp]: "clean (quoted s) \<longleftrightarrow> clean s"
  by (simp add: quoted_def)

lemma clean_snprintf [simp]: "clean s \<Longrightarrow> clean (snprintf_s n s)"
  by (simp add: snprintf_s_def)

lemma clean_commas: "(\<And>x. x \<in> set xs \<Longrightarrow> clean x) \<Longrightarrow> clean (commas xs)"
  by (induction xs rule: commas.induct) auto

lemma clean_json_line: "list_all (\<lambda>(k, v). clean k \<and> clean v) ms \<Longrightarrow> clean (json_line ms)"
  unfolding json_line_def by (fastforce intro!: clean_commas simp: json_member_def list_all_iff)

lemma good_clean: "clean s \<Longrightarrow> s \<noteq> [] \<Longrightarrow> good_record s"
proof -
  assume "clean s" "s \<noteq> []"
  then have "0x20 \<le> last s" "0 \<notin> set s" "0x0a \<notin> set s"
    using last_in_set[of s] by (fastforce simp: clean_def)+
  with \<open>s \<noteq> []\<close> show "good_record s" by (auto simp: good_record_def)
qed

lemma identifier_clean: "validate_identifier s \<Longrightarrow> clean s"
  using clean_json_esc[of s] identifier_plain(1) by metis

lemma lines_clean:
  assumes "validate_identifier schema"
  shows "clean (metric_line schema m)" "clean (otel_line schema p)" "clean (span_line schema sp)"
  unfolding metric_line_def otel_line_def span_line_def
  by (rule clean_snprintf, rule clean_json_line, simp add: identifier_clean[OF assms] span_ts_buf_def, simp add: lit_def)+

lemma line_nonempty: "1 < n \<Longrightarrow> snprintf_s n (json_line ms) \<noteq> []"
  by (simp add: snprintf_s_def json_line_def)

lemma lines_good:
  assumes "validate_identifier schema"
  shows "good_record (metric_line schema m)" "good_record (otel_line schema p)" "good_record (span_line schema sp)"
  by (intro good_clean lines_clean assms; simp only: metric_line_def otel_line_def span_line_def;
      rule line_nonempty; simp)+

section \<open>The three ways to store a record\<close>

definition store_record ::
    "'d libpq \<Rightarrow> cstring \<Rightarrow> (label_cache \<Rightarrow> nat option \<Rightarrow> 'd world \<Rightarrow> int \<times> 'd world) \<Rightarrow> (cstring \<Rightarrow> cstring) \<Rightarrow>
     (agent_state \<Rightarrow> agent_state) \<Rightarrow> (agent_state \<Rightarrow> agent_state) \<Rightarrow> 'd agent \<Rightarrow> 'd world + int \<times> 'd agent" where
  "store_record pq label ins line written spilled s =
     and_then (try_insert pq label ins s)
       (\<lambda>(ok, b, u, w).
          if ok then Inr (0, b, written u, w)
          else case spill_offline (line (st_schema u)) (b, u, w) of (went, b1, u1, w1) \<Rightarrow>
            Inr (0, b1, if went then spilled u1 else u1, w1))"

lemma write_store:
  "write_metric pq m s = store_record pq (pm_label m) (\<lambda>cache conn. db_insert_metric_labeled pq cache conn m)
     (\<lambda>schema. metric_line schema m) (\<lambda>u. u\<lparr>st_metrics_written := st_metrics_written u + 1\<rparr>)
     (\<lambda>u. u\<lparr>st_metrics_spilled := st_metrics_spilled u + 1\<rparr>) s"
  "write_otel_metric pq p s = store_record pq (mp_label p) (\<lambda>cache conn. db_insert_otel_metric pq cache conn p)
     (\<lambda>schema. otel_line schema p) (\<lambda>u. u\<lparr>st_otel_metrics_written := st_otel_metrics_written u + 1\<rparr>)
     (\<lambda>u. u\<lparr>st_otel_metrics_spilled := st_otel_metrics_spilled u + 1\<rparr>) s"
  "write_span pq sp s = store_record pq (sp_label sp) (\<lambda>cache conn. db_insert_span pq cache conn sp)
     (\<lambda>schema. span_line schema sp) (\<lambda>u. u\<lparr>st_spans_written := st_spans_written u + 1\<rparr>)
     (\<lambda>u. u\<lparr>st_spans_spilled := st_spans_spilled u + 1\<rparr>) s"
  by (simp_all add: write_metric_def write_otel_metric_def write_span_def store_record_def)

lemma try_insert_frame:
  assumes ins: "\<And>cache conn w1 rc w2. same_io w w1 \<Longrightarrow> ins cache conn w1 = (rc, w2) \<Longrightarrow> same_io w w2"
    and run: "try_insert pq label ins (b, u, w) = Inr (ok, b1, u1, w1)"
  shows "b1 = b \<and> (\<exists>cache. u1 = u\<lparr>st_labels := cache\<rparr>) \<and> same_io w w1"
proof -
  have frame: "b2 = b \<and> (\<exists>cache. u2 = u\<lparr>st_labels := cache\<rparr>) \<and> same_io w w2"
    if "agent_ensure_label pq label (b, u, w) = Inr (rc, b2, u2, w2)" for rc b2 u2 w2
    using that agent_ensure_label_keep[OF same_io_refl, where pq = pq and label = label and b = b and u = u and w = w]
    by (auto simp: agent_ensure_label_def and_then_Inr)
  show ?thesis
    using run frame ins
    by (fastforce simp: try_insert_def and_then_Inr same_io_refl intro: exI[of _ "st_labels u"] split: if_splits prod.splits)
qed

text \<open>The counters of the buffer after one successful spill.\<close>

definition one_more :: "pw_db_buf \<Rightarrow> pw_db_buf \<Rightarrow> bool" where
  "one_more b b1 \<longleftrightarrow> db_spilled b1 = db_spilled b + 1 \<and> db_flushed b1 = db_flushed b \<and> db_spill_dropped b1 = db_spill_dropped b"

lemma spill_offline_none:
  assumes "w_faults w = []"
  obtains b1 w1 where "spill_offline line (b, u, w) = (True, b1, u\<lparr>st_labels := db_label_cache_reset\<rparr>, w1)"
    "w_faults w1 = []" "db_spill_path b1 = db_spill_path b"
    "file_content (db_spill_path b) w1 = file_content (db_spill_path b) w @ line @ [0x0a]" "one_more b b1"
proof -
  obtain b1 w1 where sp: "pw_db_buf_spill line (b\<lparr>db_online := False\<rparr>) w = (0, b1, w1)" "w_faults w1 = []" "db_spill_path b1 = db_spill_path b"
      "w_files w1 = (w_files w)(db_spill_path b := Some (file_content (db_spill_path b) w @ line @ [0x0a]))"
    using spill_none[OF assms, of line "b\<lparr>db_online := False\<rparr>"] by (auto simp: file_content_def)
  with spill_counts[OF sp(1)] show ?thesis
    by (intro that[of b1 w1]) (auto simp: spill_offline_def mark_offline_def file_content_def one_more_def)
qed

text \<open>Without I/O failures a record is either in or appended to the file as one line.\<close>

lemma store_recordE:
  fixes pq :: "'d libpq"
  assumes ins: "\<And>cache conn w1 rc w2. same_io w w1 \<Longrightarrow> ins cache conn w1 = (rc, w2) \<Longrightarrow> same_io w w2"
    and run: "store_record pq label ins line written spilled (b, u, w) = Inr (rc, s1)" and "w_faults w = []"
  obtains (stored) cache w1 where "rc = 0" "s1 = (b, written (u\<lparr>st_labels := cache\<rparr>), w1)" "same_io w w1"
  | (appended) b1 cache w1 where "rc = 0" "s1 = (b1, spilled (u\<lparr>st_labels := cache\<rparr>), w1)" "w_faults w1 = []"
      "db_spill_path b1 = db_spill_path b"
      "file_content (db_spill_path b) w1 = file_content (db_spill_path b) w @ line (st_schema u) @ [0x0a]" "one_more b b1"
proof -
  from run[unfolded store_record_def and_then_Inr] obtain x where x: "try_insert pq label ins (b, u, w) = Inr x \<and>
      (case x of (ok, b, u, w) \<Rightarrow> if ok then Inr (0, b, written u, w)
        else case spill_offline (line (st_schema u)) (b, u, w) of (went, b1, u1, w1) \<Rightarrow>
          Inr (0, b1, if went then spilled u1 else u1, w1)) = (Inr (rc, s1) :: 'd world + int \<times> 'd agent)"
    by (rule exE)
  obtain ok b1 u1 w1 where xx: "x = (ok, b1, u1, w1)" by (cases x)
  note x = x[unfolded xx prod.case]
  obtain cache where fr: "b1 = b" "u1 = u\<lparr>st_labels := cache\<rparr>" "same_io w w1"
    using try_insert_frame[OF _ conjunct1[OF x]] ins by blast
  show ?thesis
  proof (cases ok)
    case True
    with x fr show ?thesis by (intro stored[of cache w1]) auto
  next
    case False
    have w1: "w_faults w1 = []" "file_content p w1 = file_content p w" for p
      using fr(3) assms(3) by (simp_all add: same_io_def file_content_def)
    obtain b2 w2 where sp: "spill_offline (line (st_schema u)) (b1, u1, w1) = (True, b2, u1\<lparr>st_labels := db_label_cache_reset\<rparr>, w2)"
        "w_faults w2 = []" "db_spill_path b2 = db_spill_path b1"
        "file_content (db_spill_path b1) w2 = file_content (db_spill_path b1) w1 @ line (st_schema u) @ [0x0a]" "one_more b1 b2"
      using spill_offline_none[OF w1(1)] .
    show ?thesis
      using False x sp w1 fr by (intro appended[of b2 db_label_cache_reset w2]) auto
  qed
qed

section \<open>Booking\<close>

definition records_seen :: "agent_state \<Rightarrow> 64 word" where
  "records_seen u =
     st_spans_written u + st_spans_spilled u + st_spans_dropped u + st_metrics_written u + st_metrics_spilled u +
     st_otel_metrics_written u + st_otel_metrics_spilled u + st_otel_metrics_dropped u"

definition records_spilled :: "agent_state \<Rightarrow> 64 word" where
  "records_spilled u = st_spans_spilled u + st_metrics_spilled u + st_otel_metrics_spilled u"

text \<open>
  From \<open>s0\<close> on, \<open>k\<close> records were booked as written, spilled or dropped; the spill file grew by one line for each that was
  counted as spilled, by the daemon and by the buffer; nothing was replayed and no spill failed.
\<close>

definition booked :: "'d agent \<Rightarrow> nat \<Rightarrow> 'd agent \<Rightarrow> bool" where
  "booked = (\<lambda>(b0, u0, w0) k (b, u, w).
     w_faults w = [] \<and> db_spill_path b = db_spill_path b0 \<and> st_schema u = st_schema u0 \<and>
     records_seen u = records_seen u0 + of_nat k \<and> db_flushed b = db_flushed b0 \<and> db_spill_dropped b = db_spill_dropped b0 \<and>
     (\<exists>new. file_content (db_spill_path b0) w = file_content (db_spill_path b0) w0 @ lines_of new \<and> list_all good_record new \<and>
        length new \<le> k \<and> records_spilled u = records_spilled u0 + of_nat (length new) \<and>
        db_spilled b = db_spilled b0 + of_nat (length new)))"

lemma booked_start: "w_faults w = [] \<Longrightarrow> booked (b, u, w) 0 (b, u, w)"
  by (simp add: booked_def exI[of _ "[]"])

lemma booked_same:
  assumes "booked s0 k (b, u, w)" "same_io w w1" "st_schema u1 = st_schema u" "records_spilled u1 = records_spilled u"
    and "records_seen u1 = records_seen u + of_nat n"
  shows "booked s0 (k + n) (b, u1, w1)"
  using assms by (cases s0) (force simp: booked_def same_io_def file_content_def)

lemma booked_append:
  assumes "booked s0 k (b, u, w)" "w_faults w1 = []" "db_spill_path b1 = db_spill_path b" "one_more b b1"
    and "file_content (db_spill_path b) w1 = file_content (db_spill_path b) w @ line @ [0x0a]" "good_record line"
    and "st_schema u1 = st_schema u" "records_spilled u1 = records_spilled u + 1" "records_seen u1 = records_seen u + 1"
  shows "booked s0 (Suc k) (b1, u1, w1)"
proof -
  obtain b0 u0 w0 where s0: "s0 = (b0, u0, w0)" by (cases s0)
  note bk = assms(1)[unfolded s0 booked_def prod.case]
  obtain new where new: "file_content (db_spill_path b0) w = file_content (db_spill_path b0) w0 @ lines_of new"
      "list_all good_record new" "length new \<le> k" "records_spilled u = records_spilled u0 + of_nat (length new)"
      "db_spilled b = db_spilled b0 + of_nat (length new)"
    using bk by auto
  have "file_content (db_spill_path b0) w1 = file_content (db_spill_path b0) w0 @ lines_of (new @ [line])"
    using bk assms(5) new(1) by simp
  with bk assms(2-4,6-9) new show ?thesis
    by (auto simp: s0 booked_def one_more_def intro!: exI[of _ "new @ [line]"])
qed

definition schema_ok :: "'d agent \<Rightarrow> bool" where
  "schema_ok = (\<lambda>(b, u, w). validate_identifier (st_schema u))"

lemma booked_schema: "booked s0 k (b, u, w) \<Longrightarrow> schema_ok s0 \<Longrightarrow> validate_identifier (st_schema u) \<and> w_faults w = []"
  by (cases s0) (auto simp: booked_def schema_ok_def)

text \<open>The record and its counters, as the three functions use them.\<close>

lemma store_record_books:
  fixes pq :: "'d libpq"
  assumes bk: "booked s0 k (b, u, w)" and "schema_ok s0"
    and ins: "\<And>cache conn w w1 rc w2. same_io w w1 \<Longrightarrow> ins cache conn w1 = (rc, w2) \<Longrightarrow> same_io w w2"
    and good: "\<And>schema. validate_identifier schema \<Longrightarrow> good_record (line schema)"
    and written: "\<And>u cache. st_schema (written (u\<lparr>st_labels := cache\<rparr>)) = st_schema u \<and>
      records_spilled (written (u\<lparr>st_labels := cache\<rparr>)) = records_spilled u \<and> records_seen (written (u\<lparr>st_labels := cache\<rparr>)) = records_seen u + 1"
    and spilled: "\<And>u cache. st_schema (spilled (u\<lparr>st_labels := cache\<rparr>)) = st_schema u \<and>
      records_spilled (spilled (u\<lparr>st_labels := cache\<rparr>)) = records_spilled u + 1 \<and> records_seen (spilled (u\<lparr>st_labels := cache\<rparr>)) = records_seen u + 1"
    and run: "store_record pq label ins line written spilled (b, u, w) = Inr (rc, s1)"
  shows "rc = 0 \<and> booked s0 (Suc k) s1"
proof -
  note ok = booked_schema[OF bk assms(2)]
  show ?thesis
  proof (rule store_recordE[OF ins run conjunct2[OF ok]])
    fix cache w1 assume "rc = 0" "s1 = (b, written (u\<lparr>st_labels := cache\<rparr>), w1)" "same_io w w1"
    then show ?thesis
      using booked_same[OF bk, of w1 _ 1] written[where u = u and cache = cache] by simp
  next
    fix b1 cache w1
    assume "rc = 0" "s1 = (b1, spilled (u\<lparr>st_labels := cache\<rparr>), w1)" "w_faults w1 = []" "db_spill_path b1 = db_spill_path b"
      "file_content (db_spill_path b) w1 = file_content (db_spill_path b) w @ line (st_schema u) @ [0x0a]" "one_more b b1"
    then show ?thesis
      using booked_append[OF bk _ _ _ _ good[OF conjunct1[OF ok]]] spilled[where u = u and cache = cache] by simp
  qed assumption
qed

lemmas counters = records_seen_def records_spilled_def

lemma writes_book:
  assumes "booked s0 k s" "schema_ok s0"
  shows "write_metric pq m s = Inr (rc, s1) \<Longrightarrow> rc = 0 \<and> booked s0 (Suc k) s1"
    and "write_otel_metric pq p s = Inr (rc, s1) \<Longrightarrow> rc = 0 \<and> booked s0 (Suc k) s1"
    and "write_span pq sp s = Inr (rc, s1) \<Longrightarrow> rc = 0 \<and> booked s0 (Suc k) s1"
proof -
  obtain b u w where s: "s = (b, u, w)" by (cases s)
  note bk = assms(1)[unfolded s] assms(2)
  show "write_metric pq m s = Inr (rc, s1) \<Longrightarrow> rc = 0 \<and> booked s0 (Suc k) s1"
    unfolding write_store s by (rule store_record_books[OF bk inserts_keep(2) lines_good(1)]) (simp_all add: counters)
  show "write_otel_metric pq p s = Inr (rc, s1) \<Longrightarrow> rc = 0 \<and> booked s0 (Suc k) s1"
    unfolding write_store s by (rule store_record_books[OF bk inserts_keep(3) lines_good(2)]) (simp_all add: counters)
  show "write_span pq sp s = Inr (rc, s1) \<Longrightarrow> rc = 0 \<and> booked s0 (Suc k) s1"
    unfolding write_store s by (rule store_record_books[OF bk inserts_keep(1) lines_good(3)]) (simp_all add: counters)
qed

lemma sinks_book:
  assumes "booked s0 k s" "schema_ok s0"
  shows "span_sink pq sp s = Inr (rc, s1) \<Longrightarrow> rc = 0 \<and> booked s0 (Suc k) s1"
    and "otel_metric_sink pq p s = Inr (rc, s1) \<Longrightarrow> rc = 0 \<and> booked s0 (Suc k) s1"
proof -
  obtain b u w where s: "s = (b, u, w)" by (cases s)
  note drop = booked_same[OF assms(1)[unfolded s] same_io_refl, where n = 1]
  show "span_sink pq sp s = Inr (rc, s1) \<Longrightarrow> rc = 0 \<and> booked s0 (Suc k) s1"
    using writes_book(3)[OF assms, of pq sp rc s1] drop
    by (auto simp: span_sink_def s counters split: if_splits)
  show "otel_metric_sink pq p s = Inr (rc, s1) \<Longrightarrow> rc = 0 \<and> booked s0 (Suc k) s1"
    using writes_book(2)[OF assms, of pq p rc s1] drop
    by (auto simp: otel_metric_sink_def s counters split: if_splits)
qed

text \<open>The daemon's sinks are consumers of the two decoders; they refuse only by an exit of the process.\<close>

definition books :: "'d agent \<Rightarrow> nat \<Rightarrow> 'd world + 'd agent \<Rightarrow> bool" where
  "books s0 k x = (case x of Inl e \<Rightarrow> False | Inr s \<Rightarrow> schema_ok s0 \<and> booked s0 k s)"

lemma lift_sink_books:
  assumes sink: "\<And>k s rc s1. booked s0 k s \<Longrightarrow> schema_ok s0 \<Longrightarrow> f x s = Inr (rc, s1) \<Longrightarrow> rc = 0 \<and> booked s0 (Suc k) s1"
  shows "books s0 k u \<Longrightarrow> lift_sink f x u = (0, u1) \<Longrightarrow> books s0 (Suc k) u1"
    and "books s0 k u \<Longrightarrow> lift_sink f x u = (rc, u1) \<Longrightarrow> rc \<noteq> 0 \<Longrightarrow> isl u1"
  using sink by (auto simp: books_def lift_sink_def split: sum.splits)

lemmas agent_sinks_book = lift_sink_books[OF sinks_book(1)] lift_sink_books[OF sinks_book(2)]

interpretation agent_spans: span_consumer "lift_sink (span_sink pq)" "books s0" "\<lambda>k x. isl x" for pq s0
  by unfold_locales (rule agent_sinks_book(1,2); assumption)+

interpretation agent_points: point_consumer "lift_sink (otel_metric_sink pq)" "books s0" "\<lambda>k x. isl x" for pq s0
  by unfold_locales (rule agent_sinks_book(3,4); assumption)+

text \<open>Offline, storing a record never asks the database, so it always comes back.\<close>

definition offline :: "'d world + 'd agent \<Rightarrow> bool" where
  "offline x = (case x of Inl e \<Rightarrow> False | Inr (b, u, w) \<Rightarrow> \<not> db_online b)"

lemma spill_online: "pw_db_buf_spill line b w = (rc, b1, w1) \<Longrightarrow> db_online b1 = db_online b"
  by (auto simp: pw_db_buf_spill_def split: prod.splits if_splits)

lemma store_offline_returns:
  assumes "\<not> db_online b"
  shows "\<exists>b1 u1 w1. store_record pq label ins line written spilled (b, u, w) = Inr (0, b1, u1, w1) \<and> \<not> db_online b1"
proof -
  obtain ok b1 u1 w1 where sp: "spill_offline (line (st_schema u)) (b, u, w) = (ok, b1, u1, w1)" by (metis prod_cases4)
  then have "\<not> db_online b1"
    by (auto simp: spill_offline_def mark_offline_def split: prod.splits dest: spill_online)
  then show ?thesis
    using assms by (simp add: store_record_def try_insert_def sp)
qed

lemma sinks_offline:
  assumes "offline x"
  shows "lift_sink (span_sink pq) sp x = (rc, y) \<Longrightarrow> rc = 0 \<and> offline y"
    and "lift_sink (otel_metric_sink pq) pt x = (rc, y) \<Longrightarrow> rc = 0 \<and> offline y"
proof -
  obtain b u w where x: "x = Inr (b, u, w)" "\<not> db_online b"
    using assms by (auto simp: offline_def split: sum.splits)
  note simps = lift_sink_def span_sink_def otel_metric_sink_def write_store offline_def x
  show "lift_sink (span_sink pq) sp x = (rc, y) \<Longrightarrow> rc = 0 \<and> offline y"
    using store_offline_returns[OF x(2), of pq "sp_label sp" "\<lambda>cache conn. db_insert_span pq cache conn sp" "\<lambda>schema. span_line schema sp"
        "\<lambda>u. u\<lparr>st_spans_written := st_spans_written u + 1\<rparr>" "\<lambda>u. u\<lparr>st_spans_spilled := st_spans_spilled u + 1\<rparr>" u w]
    by (auto simp: simps split: if_splits)
  show "lift_sink (otel_metric_sink pq) pt x = (rc, y) \<Longrightarrow> rc = 0 \<and> offline y"
    using store_offline_returns[OF x(2), of pq "mp_label pt" "\<lambda>cache conn. db_insert_otel_metric pq cache conn pt" "\<lambda>schema. otel_line schema pt"
        "\<lambda>u. u\<lparr>st_otel_metrics_written := st_otel_metrics_written u + 1\<rparr>" "\<lambda>u. u\<lparr>st_otel_metrics_spilled := st_otel_metrics_spilled u + 1\<rparr>" u w]
    by (auto simp: simps split: if_splits)
qed

interpretation offline_spans: span_consumer "lift_sink (span_sink pq)" "\<lambda>k. offline" "\<lambda>k x. False" for pq
  by unfold_locales (auto dest: sinks_offline)

interpretation offline_points: point_consumer "lift_sink (otel_metric_sink pq)" "\<lambda>k. offline" "\<lambda>k x. False" for pq
  by unfold_locales (auto dest: sinks_offline)

section \<open>Requests\<close>

lemma maybe_forward_io: "maybe_forward net url warned body w = (warned1, w1) \<Longrightarrow> same_io w w1"
  by (auto simp: maybe_forward_def otlp_forward_post_def same_io_def Let_def split: option.splits prod.splits if_splits)

text \<open>A request for one of the decoders, by the decoder's result.\<close>

definition after_decode ::
    "(bool \<Rightarrow> agent_state \<Rightarrow> agent_state) \<Rightarrow> (agent_state \<Rightarrow> 'd world \<Rightarrow> bool \<times> 'd world) \<Rightarrow> int \<times> ('d world + 'd agent) \<Rightarrow>
     'd world + int \<times> 'd agent" where
  "after_decode warn forward d =
     (case d of (_, Inl e) \<Rightarrow> Inl e
      | (n, Inr (b1, u1, w1)) \<Rightarrow>
          if n < 0 then Inr (- 1, b1, u1, w1)
          else case forward u1 w1 of (warned, w2) \<Rightarrow> Inr (0, b1, warn warned u1, w2))"

lemma on_request_decode:
  "req_signal req = PW_SIGNAL_TRACES \<Longrightarrow> on_request pq net req (b, u, w) =
     after_decode (\<lambda>warned u. u\<lparr>st_tempo_fwd_warned := warned\<rparr>)
       (\<lambda>u w. maybe_forward net (st_tempo_endpoint u) (st_tempo_fwd_warned u) (req_body req) w)
       (otlp_decode_traces (req_body req) (Some (lift_sink (span_sink pq))) (Inr (b, u\<lparr>st_payloads_traces := st_payloads_traces u + 1\<rparr>, w)))"
  "req_signal req = PW_SIGNAL_METRICS \<Longrightarrow> on_request pq net req (b, u, w) =
     after_decode (\<lambda>warned u. u\<lparr>st_prometheus_fwd_warned := warned\<rparr>)
       (\<lambda>u w. maybe_forward net (st_prometheus_endpoint u) (st_prometheus_fwd_warned u) (req_body req) w)
       (otlp_decode_metrics (req_body req) (Some (lift_sink (otel_metric_sink pq))) (Inr (b, u\<lparr>st_payloads_metrics := st_payloads_metrics u + 1\<rparr>, w)))"
  by (simp_all add: on_request_def after_decode_def)

lemma after_decode_books:
  assumes run: "after_decode warn forward (n, x) = Inr (rc, s1)" and x: "isl x \<or> books s0 k x" and n: "n = int k \<or> n = - 1 \<and> k = 0"
    and forward: "\<And>u w warned w1. forward u w = (warned, w1) \<Longrightarrow> same_io w w1"
    and warn: "\<And>u v. st_schema (warn v u) = st_schema u \<and> records_spilled (warn v u) = records_spilled u \<and> records_seen (warn v u) = records_seen u"
  shows "booked s0 k s1 \<and> (rc = 0 \<or> rc = - 1 \<and> k = 0)"
proof -
  obtain b1 u1 w1 where s: "x = Inr (b1, u1, w1)"
    using run by (cases x) (auto simp: after_decode_def)
  have bk: "booked s0 k (b1, u1, w1)" using x by (simp add: s books_def)
  obtain warned w2 where f: "forward u1 w1 = (warned, w2)" by fastforce
  show ?thesis
    using run n bk booked_same[OF bk forward[OF f], of "warn warned u1" 0] warn[of warned u1]
    by (auto simp: after_decode_def s f split: if_splits)
qed

lemma handle_books:
  assumes "booked s0 k s" "schema_ok s0" "handle_procmetrics pq body s = Inr (rc, s1)"
  shows "rc = 0 \<and> booked s0 (Suc k) s1 \<or> rc = - 1 \<and> s1 = s"
  using assms(3) writes_book(1)[OF assms(1,2)]
  by (auto simp: handle_procmetrics_def Let_def split: option.splits if_splits)

lemma request_books:
  assumes "on_request pq net req (b, u, w) = Inr (rc, s1)" "w_faults w = []" "validate_identifier (st_schema u)"
  shows "\<exists>k. booked (b, u, w) k s1 \<and> (rc = 0 \<or> rc = - 1 \<and> k = 0)"
proof -
  have ok: "schema_ok (b, u, w)" using assms(3) by (simp add: schema_ok_def)
  have start: "booked (b, u, w) 0 (b, u1, w)"
    if "st_schema u1 = st_schema u" "records_spilled u1 = records_spilled u" "records_seen u1 = records_seen u" for u1
    using that assms(2) by (simp add: booked_def exI[of _ "[]"])
  show ?thesis
  proof (cases "req_signal req")
    case PW_SIGNAL_TRACES
    note run = assms(1)[unfolded on_request_decode(1)[OF PW_SIGNAL_TRACES]]
    obtain n x where d: "otlp_decode_traces (req_body req) (Some (lift_sink (span_sink pq)))
        (Inr (b, u\<lparr>st_payloads_traces := st_payloads_traces u + 1\<rparr>, w)) = (n, x)" by fastforce
    have "books (b, u, w) 0 (Inr (b, u\<lparr>st_payloads_traces := st_payloads_traces u + 1\<rparr>, w))"
      using start ok by (simp add: books_def counters)
    from agent_spans.decode[OF this d] obtain k where "n = int k \<or> n = - 1 \<and> k = 0" "isl x \<or> books (b, u, w) k x" by blast
    then show ?thesis
      using after_decode_books[OF run[unfolded d]] maybe_forward_io by (simp add: counters) blast
  next
    case PW_SIGNAL_METRICS
    note run = assms(1)[unfolded on_request_decode(2)[OF PW_SIGNAL_METRICS]]
    obtain n x where d: "otlp_decode_metrics (req_body req) (Some (lift_sink (otel_metric_sink pq)))
        (Inr (b, u\<lparr>st_payloads_metrics := st_payloads_metrics u + 1\<rparr>, w)) = (n, x)" by fastforce
    have "books (b, u, w) 0 (Inr (b, u\<lparr>st_payloads_metrics := st_payloads_metrics u + 1\<rparr>, w))"
      using start ok by (simp add: books_def counters)
    from agent_points.decode[OF this d] obtain k where "n = int k \<or> n = - 1 \<and> k = 0" "isl x \<or> books (b, u, w) k x" by blast
    then show ?thesis
      using after_decode_books[OF run[unfolded d]] maybe_forward_io by (simp add: counters) blast
  next
    case PW_SIGNAL_PROCMETRICS
    let ?s = "(b, u\<lparr>st_payloads_procmetrics := st_payloads_procmetrics u + 1\<rparr>, w)"
    have bk: "booked (b, u, w) 0 ?s" using start by (simp add: counters)
    have "handle_procmetrics pq (req_body req) ?s = Inr (rc, s1)"
      using assms(1) PW_SIGNAL_PROCMETRICS by (simp add: on_request_def)
    with handle_books[OF bk ok this] bk show ?thesis by blast
  qed (use assms(1) start in \<open>auto simp: on_request_def counters intro!: exI[of _ 0]\<close>)
qed


lemma feed_books:
  "schema_ok s0 \<Longrightarrow> booked s0 k s \<Longrightarrow> feed (lift_sink (span_sink pq)) xs (Inr s) j = (rc, Inr s1, k1) \<Longrightarrow>
   rc = 0 \<and> k1 = j + length xs \<and> booked s0 (k + length xs) s1"
proof (induction xs arbitrary: k j s)
  case (Cons x xs)
  show ?case
  proof (cases "span_sink pq x s")
    case (Inl e)
    then show ?thesis using Cons.prems(3) by (simp add: lift_sink_def)
  next
    case (Inr r)
    obtain rc2 s2 where r: "r = (rc2, s2)" by (cases r)
    have "rc2 = 0 \<and> booked s0 (Suc k) s2"
      using sinks_book(1)[OF Cons.prems(2,1)] Inr r by simp
    then show ?thesis
      using Cons.IH[of "Suc k" s2 "j + 1"] Cons.prems(1,3) by (simp add: lift_sink_def Inr r)
  qed
qed simp


lemma after_decode_offline:
  assumes "offline x" "n = int k \<or> n = - 1 \<and> k = 0"
  shows "\<exists>rc b1 u1 w1. after_decode warn forward (n, x) = Inr (rc, b1, u1, w1) \<and> (rc = 0 \<or> rc = - 1) \<and> \<not> db_online b1"
proof -
  obtain b1 u1 w1 where x: "x = Inr (b1, u1, w1)" "\<not> db_online b1"
    using assms(1) by (auto simp: offline_def split: sum.splits)
  obtain warned w2 where "forward u1 w1 = (warned, w2)" by fastforce
  with x assms(2) show ?thesis by (auto simp: after_decode_def)
qed

lemma offline_returns:
  assumes "\<not> db_online b"
  shows "\<exists>rc b1 u1 w1. on_request pq net req (b, u, w) = Inr (rc, b1, u1, w1) \<and> (rc = 0 \<or> rc = - 1) \<and> \<not> db_online b1"
proof (cases "req_signal req")
  case PW_SIGNAL_TRACES
  obtain n x where d: "otlp_decode_traces (req_body req) (Some (lift_sink (span_sink pq)))
      (Inr (b, u\<lparr>st_payloads_traces := st_payloads_traces u + 1\<rparr>, w)) = (n, x)" by fastforce
  have "offline (Inr (b, u\<lparr>st_payloads_traces := st_payloads_traces u + 1\<rparr>, w))" using assms by (simp add: offline_def)
  from offline_spans.decode[OF this d] show ?thesis
    unfolding on_request_decode(1)[OF PW_SIGNAL_TRACES] d using after_decode_offline by blast
next
  case PW_SIGNAL_METRICS
  obtain n x where d: "otlp_decode_metrics (req_body req) (Some (lift_sink (otel_metric_sink pq)))
      (Inr (b, u\<lparr>st_payloads_metrics := st_payloads_metrics u + 1\<rparr>, w)) = (n, x)" by fastforce
  have "offline (Inr (b, u\<lparr>st_payloads_metrics := st_payloads_metrics u + 1\<rparr>, w))" using assms by (simp add: offline_def)
  from offline_points.decode[OF this d] show ?thesis
    unfolding on_request_decode(2)[OF PW_SIGNAL_METRICS] d using after_decode_offline by blast
next
  case PW_SIGNAL_PROCMETRICS
  have "\<exists>rc b1 u1 w1. handle_procmetrics pq (req_body req) (b, u, w) = Inr (rc, b1, u1, w1) \<and> (rc = 0 \<or> rc = - 1) \<and> \<not> db_online b1" for u
    unfolding handle_procmetrics_def Let_def write_store
    using store_offline_returns[OF assms] assms by (fastforce split: option.split)
  then show ?thesis using PW_SIGNAL_PROCMETRICS by (simp add: on_request_def)
qed (use assms in \<open>simp_all add: on_request_def\<close>)

section \<open>Concrete requests\<close>

definition labelled_request :: "otel_resource list" where
  "labelled_request = map (\<lambda>(attrs, scopes). (attrs @ [(lit ''procwatch.label'', AvString (lit ''web''))], scopes)) sample_request"

definition trace_post :: pw_http_request where
  "trace_post = \<lparr>req_signal = PW_SIGNAL_TRACES, req_path = lit ''/v1/traces'', req_body = enc_request labelled_request\<rparr>"

lemma offline_start:
  "w_faults mem_world = []"
  "validate_identifier (st_schema sample_state)"
  by (simp add: mem_world_def) code_simp



end
