(* ===== verification/HttpProps.thy ===== *)
theory HttpProps
  imports HttpServer
begin

text \<open>
  The receiver \<^verbatim>\<open>src/agent/http_server.c\<close> on requests that arrive in pieces: where the header block ends does not depend
  on the pieces, and the handler sees each body once, as it was sent.
\<close>

section \<open>The end of the header block\<close>

lemma strstr_first:
  "strstr (s @ butlast pat) pat = None \<Longrightarrow> pat \<noteq> [] \<Longrightarrow> strstr (s @ pat @ t) pat = Some (pat @ t)"
proof (induction s)
  case Nil
  then show ?case by (simp add: strstr_here)
next
  case (Cons a s)
  have "\<not> is_prefix pat (a # s @ butlast pat)" "strstr (s @ butlast pat) pat = None"
    using Cons.prems by (auto split: if_splits)
  moreover have "is_prefix pat (a # s @ pat @ t) \<Longrightarrow> is_prefix pat (a # s @ butlast pat)"
  proof -
    assume "is_prefix pat (a # s @ pat @ t)"
    moreover have "take (length pat) (a # s @ pat @ t) = take (length pat) (a # s @ butlast pat)"
    proof -
      define X where "X = a # s @ butlast pat"
      have "pat @ t = butlast pat @ last pat # t"
        using Cons.prems(2) by (metis append.assoc append_Cons append_Nil append_butlast_last_id)
      then have eq: "a # s @ pat @ t = X @ last pat # t" by (simp add: X_def)
      have "length pat \<le> length X" using Cons.prems(2) by (cases pat) (auto simp: X_def)
      then have "take (length pat) (a # s @ pat @ t) = take (length pat) X" unfolding eq by (simp del: append_Cons)
      then show ?thesis by (simp add: X_def)
    qed
    ultimately show ?thesis by (simp add: is_prefix_def)
  qed
  ultimately show ?case using Cons by auto
qed

lemma strstr_prefix_None: "strstr (s @ t) pat = None \<Longrightarrow> strstr s pat = None"
proof (induction s)
  case (Cons a s)
  then have "\<not> is_prefix pat (a # s)"
    by (auto simp: is_prefix_iff split: if_splits) (metis append_Cons append_assoc)
  with Cons show ?case by (auto split: if_splits)
qed (cases t; auto split: if_splits simp: is_prefix_def)

definition blank_line :: "byte list" where
  "blank_line = [0x0d, 0x0a, 0x0d, 0x0a]"

text \<open>A header block without a blank line in it, also not across its end.\<close>

definition head_ok :: "byte list \<Rightarrow> bool" where
  "head_ok hb \<longleftrightarrow> strstr (hb @ butlast blank_line) blank_line = None \<and> strstr (hb @ butlast blank_line) [0x0a, 0x0a] = None \<and>
     length hb + 3 \<le> HEADER_MAX"

lemma blank_found: "head_ok hb \<Longrightarrow> find_blank (hb @ blank_line @ t) = Some (length hb, 4)"
  using strstr_first[of hb blank_line t]
  by (simp add: head_ok_def find_blank_def memmem_def) (simp add: blank_line_def)

lemma blank_wait:
  assumes "head_ok hb" "hb @ blank_line = p @ q" "q \<noteq> []"
  shows "find_blank p = None" "length p \<le> HEADER_MAX"
proof -
  have eq: "hb @ butlast blank_line = p @ butlast q"
    using assms(2,3) by (metis butlast_append append_is_Nil_conv blank_line_def list.distinct(1))
  with assms(1) have "strstr p blank_line = None" "strstr p [0x0a, 0x0a] = None"
    using strstr_prefix_None by (metis head_ok_def)+
  then show "find_blank p = None" by (simp add: find_blank_def memmem_def blank_line_def)
  have "length p + length (butlast q) = length hb + 3"
    using arg_cong[OF eq, of length] by (simp add: blank_line_def)
  then show "length p \<le> HEADER_MAX" using assms(1) by (simp add: head_ok_def)
qed

section \<open>Parsing depends on the header block only\<close>

definition onto :: "pw_conn \<Rightarrow> pw_conn \<Rightarrow> pw_conn" where
  "onto c p = p\<lparr>c_fd := c_fd c, c_buf := c_buf c, c_cap := c_cap c, c_last_active := c_last_active c\<rparr>"

text \<open>A connection between two requests.\<close>

definition fresh :: "pw_conn \<Rightarrow> bool" where
  "fresh c \<longleftrightarrow> \<not> c_headers_done c \<and> c_body_offset c = 0 \<and> c_content_length c = 0 \<and> \<not> c_gzip c"

lemma onto_simps [simp]: "c_buf (onto c p) = c_buf c" "c_cap (onto c p) = c_cap c"
  by (simp_all add: onto_def)

lemma header_field_onto: "header_field s (onto c p) = onto c (header_field s p)"
  by (simp add: header_field_def onto_def Let_def)

lemma header_lines_onto: "header_lines s (onto c p) = onto c (header_lines s p)"
proof (induction s p rule: header_lines.induct)
  case (1 s p)
  show ?case
  proof (cases "find_eol s")
    case (Some eol)
    then show ?thesis
      using 1 by (simp add: header_lines.simps[of s] header_field_onto)
  qed (simp add: header_lines.simps[of s] header_field_onto)
qed

lemma parse_full:
  assumes "head_ok hb" "fresh c" "c_buf c = hb @ blank_line @ t"
    and "parse_headers (conn_reset\<lparr>c_buf := hb @ blank_line\<rparr>) = (1, p)"
  shows "parse_headers c = (1, onto c p)"
proof -
  have blank: "find_blank (c_buf c) = Some (length hb, 4)" "find_blank (hb @ blank_line) = Some (length hb, 4)"
    using blank_found[OF assms(1)] assms(3) blank_found[OF assms(1), of "[]"] by simp_all
  have block: "take (length hb) (c_buf c) = hb" using assms(3) by simp
  have start: "c\<lparr>c_path := path, c_content_length := 0, c_gzip := False, c_keep_alive := True\<rparr> =
      onto c ((conn_reset\<lparr>c_buf := b\<rparr>)\<lparr>c_path := path, c_content_length := 0, c_gzip := False, c_keep_alive := True\<rparr>)" for path b
    using assms(2) by (simp add: onto_def conn_reset_def fresh_def)
  have other: "c\<lparr>c_path := path, c_body_offset := n, c_content_length := 0, c_headers_done := True, c_keep_alive := False\<rparr> =
      onto c ((conn_reset\<lparr>c_buf := b\<rparr>)\<lparr>c_path := path, c_body_offset := n, c_content_length := 0, c_headers_done := True, c_keep_alive := False\<rparr>)"
    for path n b
    using assms(2) by (simp add: onto_def conn_reset_def fresh_def)
  have finish: "(onto c q)\<lparr>c_body_offset := n, c_headers_done := True\<rparr> = onto c (q\<lparr>c_body_offset := n, c_headers_done := True\<rparr>)" for q n
    by (simp add: onto_def)
  show ?thesis
    using assms(4) unfolding parse_headers_def blank
    by (auto simp: blank block start[of _ "hb @ blank_line"] other[of _ _ "hb @ blank_line"] finish header_lines_onto Let_def
        simp del: pw_conn.update_convs split: option.splits prod.splits if_splits)
qed

section \<open>Receiving in pieces\<close>

lemma grow_cap_enough: "0 < cap \<Longrightarrow> needed \<le> grow_cap cap needed"
  by (induction cap needed rule: grow_cap.induct) (auto simp: grow_cap.simps)

lemma ensure_capE:
  obtains cap where "conn_ensure_cap c n = c\<lparr>c_cap := cap\<rparr>" "n \<le> cap"
  using grow_cap_enough[of "if c_cap c \<noteq> 0 then c_cap c else CONN_INITIAL_CAP" n]
  by (cases "n \<le> c_cap c") (auto simp: conn_ensure_cap_def CONN_INITIAL_CAP_def intro: that[of "c_cap c"])

text \<open>Pieces as the calls of \<^verbatim>\<open>recv\<close> deliver them, with the time of each.\<close>

fun serve_pieces ::
    "'z zlib \<Rightarrow> ('x, 'u) pw_http_handler \<Rightarrow> (int \<times> byte list) list \<Rightarrow> pw_http_server \<Rightarrow> pw_conn \<Rightarrow> 'u \<Rightarrow>
     'x + nat \<times> pw_http_server \<times> pw_conn \<times> outputs \<times> 'u" where
  "serve_pieces zl handler [] srv c u = Inr (0, srv, c, [], u)"
| "serve_pieces zl handler ((now, bs) # rest) srv c u =
     (case conn_service zl handler now (RecvBytes bs) srv c u of
        Inl x \<Rightarrow> Inl x
      | Inr (n, srv1, c1, out, u1) \<Rightarrow>
          (case serve_pieces zl handler rest srv1 c1 u1 of
             Inl x \<Rightarrow> Inl x
           | Inr (m, srv2, c2, out2, u2) \<Rightarrow> Inr (n + m, srv2, c2, out @ out2, u2)))"

lemma serve_last: "serve_pieces zl handler [(now, bs)] srv c u = conn_service zl handler now (RecvBytes bs) srv c u"
  by (auto split: sum.split)

lemma serve_quiet:
  "conn_service zl handler now (RecvBytes bs) srv c u = Inr (0, srv, c1, [], u) \<Longrightarrow>
   serve_pieces zl handler ((now, bs) # rest) srv c u = serve_pieces zl handler rest srv c1 u"
  by (auto split: sum.split)

definition piece_ok :: "int \<times> byte list \<Rightarrow> bool" where
  "piece_ok pc \<longleftrightarrow> snd pc \<noteq> [] \<and> length (snd pc) \<le> 4096"

text \<open>The connection \<open>c0\<close> after it has received \<open>got\<close>, in front of or past the end of the header block.\<close>

definition with_input :: "pw_conn \<Rightarrow> byte list \<Rightarrow> nat \<Rightarrow> int \<Rightarrow> pw_conn" where
  "with_input c0 got cap now = c0\<lparr>c_buf := got, c_cap := cap, c_last_active := now\<rparr>"

definition received :: "byte list \<Rightarrow> pw_conn \<Rightarrow> pw_conn \<Rightarrow> byte list \<Rightarrow> nat \<Rightarrow> int \<Rightarrow> pw_conn" where
  "received hb p c0 got cap now =
     (if length got < length (hb @ blank_line) then with_input c0 got cap now else onto (with_input c0 got cap now) p)"

lemma received_simps [simp]:
  "c_buf (received hb p c0 got cap now) = got" "c_cap (received hb p c0 got cap now) = cap"
  by (simp_all add: received_def with_input_def onto_def)

lemma received_update:
  "(length got < length (hb @ blank_line)) = (length got1 < length (hb @ blank_line)) \<Longrightarrow>
   (received hb p c0 got cap now)\<lparr>c_cap := cap1, c_buf := got1, c_last_active := now1\<rparr> = received hb p c0 got1 cap1 now1"
  by (auto simp: received_def with_input_def onto_def)

lemma longer_prefix: "a @ r = b @ t \<Longrightarrow> length b \<le> length a \<Longrightarrow> \<exists>us. a = b @ us"
  by (metis append_eq_append_conv_if append_take_drop_id)

text \<open>One call of \<^verbatim>\<open>recv\<close>.\<close>

lemma service_step:
  assumes head: "head_ok hb" "fresh c0" "parse_headers (conn_reset\<lparr>c_buf := hb @ blank_line\<rparr>) = (1, p)" "c_headers_done p"
    and len: "c_content_length p \<le> srv_max_body srv"
    and bs: "piece_ok (now, bs)" and inp: "got @ bs @ rest = hb @ blank_line @ after"
  obtains cap1 where "conn_service zl handler now (RecvBytes bs) srv (received hb p c0 got cap la) u =
    (if length (got @ bs) < length (hb @ blank_line) then Inr (0, srv, received hb p c0 (got @ bs) cap1 now, [], u)
     else serve_request zl handler srv (received hb p c0 (got @ bs) cap1 now) u)"
proof -
  let ?c = "received hb p c0 got cap la" and ?h = "length (hb @ blank_line)"
  obtain cap1 where cap1: "conn_ensure_cap ?c (length got + 4096) = ?c\<lparr>c_cap := cap1\<rparr>" "length got + 4096 \<le> cap1"
    by (rule ensure_capE)
  have bs: "bs \<noteq> []" "take (cap1 - length got) bs = bs"
    using bs cap1(2) by (auto simp: piece_ok_def)
  let ?c1 = "?c\<lparr>c_cap := cap1, c_buf := got @ bs, c_last_active := now\<rparr>"
  have serve: "conn_service zl handler now (RecvBytes bs) srv ?c u =
      (if c_headers_done ?c1 then serve_request zl handler srv ?c1 u
       else case parse_headers ?c1 of (rc, c2) \<Rightarrow>
         if rc < 0 then Inr (0, srv, conn_reset, [], u)
         else if rc = 0 then Inr (0, srv, c2, [], u)
         else if c_content_length c2 > srv_max_body srv then
           Inr (0, count_rejected srv, conn_reset, respond (c2\<lparr>c_keep_alive := False\<rparr>) 413 ''Payload Too Large'', u)
         else serve_request zl handler srv c2 u)"
    using bs cap1(2) by (simp add: conn_service_def cap1(1) Let_def)
  consider (before) "length (got @ bs) < ?h" | (ends) "length got < ?h" "\<not> length (got @ bs) < ?h" | (past) "\<not> length got < ?h"
    by fastforce
  then show ?thesis
  proof cases
    case before
    obtain q where q: "hb @ blank_line = (got @ bs) @ q" "q \<noteq> []"
    proof -
      have "take ?h (got @ bs @ rest) = hb @ blank_line" using inp by simp
      then have "hb @ blank_line = (got @ bs) @ take (?h - length (got @ bs)) rest"
        using before by (simp add: take_append)
      moreover from this have "take (?h - length (got @ bs)) rest \<noteq> []" using before by (metis append_Nil2 less_irrefl)
      ultimately show ?thesis using that by blast
    qed
    have c1: "?c1 = received hb p c0 (got @ bs) cap1 now" "\<not> c_headers_done ?c1"
      using before head(2) by (auto simp: received_update) (auto simp: received_def with_input_def fresh_def)
    have "parse_headers ?c1 = (0, ?c1)"
      using blank_wait[OF head(1) q] by (simp add: parse_headers_def)
    then show ?thesis
      using before c1 by (intro that[of cap1]) (simp add: serve)
  next
    case ends
    obtain t where t: "got @ bs = hb @ blank_line @ t"
      using longer_prefix[of "got @ bs" rest "hb @ blank_line" after] inp ends(2) by auto
    have w: "?c1 = with_input c0 (got @ bs) cap1 now"
      using ends(1) by (simp add: received_def with_input_def)
    have f: "fresh (with_input c0 (got @ bs) cap1 now)"
      using head(2) by (simp add: fresh_def with_input_def)
    have "parse_headers ?c1 = (1, onto ?c1 p)"
      unfolding w by (rule parse_full[OF head(1) f _ head(3), of t]) (simp add: with_input_def t)
    moreover have "onto ?c1 p = received hb p c0 (got @ bs) cap1 now"
      using ends(2) unfolding w by (simp add: received_def)
    moreover have "\<not> c_headers_done ?c1"
      using f by (simp add: w fresh_def)
    moreover have "c_content_length (received hb p c0 (got @ bs) cap1 now) = c_content_length p"
      using ends(2) by (simp add: received_def onto_def)
    ultimately show ?thesis
      using ends(2) len by (intro that[of cap1]) (simp add: serve)
  next
    case past
    have "?c1 = received hb p c0 (got @ bs) cap1 now"
      using past by (intro received_update) auto
    moreover have "c_headers_done (received hb p c0 (got @ bs) cap1 now)"
      using past head(4) by (auto simp: received_def onto_def)
    ultimately show ?thesis
      using past by (intro that[of cap1]) (simp add: serve)
  qed
qed

text \<open>While the body is incomplete nothing happens.\<close>

lemma serve_waits:
  assumes "length (c_buf c) < c_body_offset c + c_content_length c" "c_body_offset c \<le> length (c_buf c)"
  obtains cap where "serve_request zl handler srv c u = Inr (0, srv, c\<lparr>c_cap := cap\<rparr>, [], u)"
proof -
  obtain cap where "conn_ensure_cap c (c_body_offset c + c_content_length c) = c\<lparr>c_cap := cap\<rparr>"
    by (rule ensure_capE)
  with assms show ?thesis by (intro that[of cap]) (auto simp: serve_request_def)
qed

lemma parsed_offset:
  assumes "head_ok hb" "parse_headers (conn_reset\<lparr>c_buf := hb @ blank_line\<rparr>) = (1, p)"
  shows "c_body_offset p = length (hb @ blank_line) \<and> c_headers_done p"
  using assms(2) blank_found[OF assms(1), of "[]"]
  by (auto simp: parse_headers_def Let_def blank_line_def split: if_splits option.splits prod.splits)

lemma pieces_served:
  assumes head: "head_ok hb" "fresh c0" "parse_headers (conn_reset\<lparr>c_buf := hb @ blank_line\<rparr>) = (1, p)"
    and body: "c_content_length p = length body" "length body \<le> srv_max_body srv"
  shows "pieces \<noteq> [] \<Longrightarrow> list_all piece_ok pieces \<Longrightarrow> got @ concat (map snd pieces) = hb @ blank_line @ body @ after \<Longrightarrow>
    length (got @ concat (map snd (butlast pieces))) < length (hb @ blank_line @ body) \<Longrightarrow>
    \<exists>cap1. serve_pieces zl handler pieces srv (received hb p c0 got cap la) u =
      serve_request zl handler srv (received hb p c0 (hb @ blank_line @ body @ after) cap1 (fst (last pieces))) u"
proof (induction pieces arbitrary: got cap la)
  case (Cons pc pieces)
  obtain now bs where pc: "pc = (now, bs)" by (cases pc)
  note off = parsed_offset[OF head(1,3)]
  have inp: "got @ bs @ concat (map snd pieces) = hb @ blank_line @ body @ after"
    using Cons.prems(3) by (simp add: pc)
  have "c_content_length p \<le> srv_max_body srv" using body by simp
  then obtain cap1 where step: "conn_service zl handler now (RecvBytes bs) srv (received hb p c0 got cap la) u =
      (if length (got @ bs) < length (hb @ blank_line) then Inr (0, srv, received hb p c0 (got @ bs) cap1 now, [], u)
       else serve_request zl handler srv (received hb p c0 (got @ bs) cap1 now) u)"
    using service_step[OF head conjunct2[OF off] _ _ inp, where srv = srv and now = now and cap = cap and la = la and
        zl = zl and handler = handler and u = u] Cons.prems(2) by (auto simp: pc)
  show ?case
  proof (cases "pieces = []")
    case True
    have "\<not> length (got @ bs) < length (hb @ blank_line)"
      using arg_cong[OF inp, of length] True by simp
    then show ?thesis
      using step inp True unfolding pc by (auto simp: serve_last simp del: serve_pieces.simps(2))
  next
    case False
    have less: "length ((got @ bs) @ concat (map snd (butlast pieces))) < length (hb @ blank_line @ body)"
      using Cons.prems(4) False by (simp add: pc)
    have IH: "\<exists>cap1. serve_pieces zl handler pieces srv (received hb p c0 (got @ bs) cap2 now) u =
        serve_request zl handler srv (received hb p c0 (hb @ blank_line @ body @ after) cap1 (fst (last pieces))) u" for cap2
      using Cons.prems(2) False inp less by (intro Cons.IH) simp_all
    have "\<exists>cap2. conn_service zl handler now (RecvBytes bs) srv (received hb p c0 got cap la) u =
        Inr (0, srv, received hb p c0 (got @ bs) cap2 now, [], u)"
    proof (cases "length (got @ bs) < length (hb @ blank_line)")
      case True
      then show ?thesis using step by auto
    next
      case past: False
      let ?c = "received hb p c0 (got @ bs) cap1 now"
      have c: "c_body_offset ?c = length (hb @ blank_line)" "c_content_length ?c = length body"
        using past off body(1) by (simp_all add: received_def onto_def)
      have "length (got @ bs) < length (hb @ blank_line @ body)" using less by simp
      then obtain cap2 where "serve_request zl handler srv ?c u = Inr (0, srv, ?c\<lparr>c_cap := cap2\<rparr>, [], u)"
        using serve_waits[where c = ?c and zl = zl and handler = handler and srv = srv and u = u] c past by auto
      moreover have "?c\<lparr>c_cap := cap2\<rparr> = received hb p c0 (got @ bs) cap2 now"
        by (simp add: received_def with_input_def onto_def)
      ultimately show ?thesis using step past by auto
    qed
    then obtain cap2 where "conn_service zl handler now (RecvBytes bs) srv (received hb p c0 got cap la) u =
        Inr (0, srv, received hb p c0 (got @ bs) cap2 now, [], u)" by blast
    then show ?thesis
      using IH[of cap2] False by (simp add: pc serve_quiet del: serve_pieces.simps)
  qed
qed simp

text \<open>The request served at the end, with the connection it leaves.\<close>

lemma request_served:
  assumes head: "head_ok hb" "fresh c0" "c_buf c0 = []" "parse_headers (conn_reset\<lparr>c_buf := hb @ blank_line\<rparr>) = (1, p)"
    and body: "c_content_length p = length body" "length body \<le> srv_max_body srv" "\<not> c_gzip p"
    and path: "signal_for_path (c_path p) \<noteq> PW_SIGNAL_UNKNOWN"
    and pieces: "pieces \<noteq> []" "list_all piece_ok pieces" "concat (map snd pieces) = hb @ blank_line @ body @ after"
      "length (concat (map snd (butlast pieces))) < length (hb @ blank_line @ body)"
  shows "\<exists>c1. serve_pieces zl handler pieces srv c0 u =
      (case handler \<lparr>req_signal = signal_for_path (c_path p), req_path = c_path p, req_body = body\<rparr> u of
         Inl x \<Rightarrow> Inl x
       | Inr (hrc, u1) \<Rightarrow> Inr (1, srv\<lparr>srv_requests := srv_requests srv + 1\<rparr>, c1,
           if hrc = 0 then respond (p\<lparr>c_fd := c_fd c0\<rparr>) 200 ''OK'' else respond (p\<lparr>c_fd := c_fd c0\<rparr>) 400 ''Bad Request'', u1)) \<and>
    fresh c1 \<and> c_buf c1 = (if c_keep_alive p then after else [])"
proof -
  have start: "c0 = received hb p c0 [] (c_cap c0) (c_last_active c0)"
    using head(3) by (simp add: received_def with_input_def blank_line_def)
  obtain cap1 where run: "serve_pieces zl handler pieces srv c0 u =
      serve_request zl handler srv (received hb p c0 (hb @ blank_line @ body @ after) cap1 (fst (last pieces))) u"
    using pieces_served[OF head(1,2,4) body(1,2) pieces(1,2), where got = "[]" and after = after and cap = "c_cap c0" and
        la = "c_last_active c0" and zl = zl and handler = handler and u = u] pieces(3,4) unfolding start[symmetric] by auto
  let ?c = "received hb p c0 (hb @ blank_line @ body @ after) cap1 (fst (last pieces))"
  have c: "c_body_offset ?c = length (hb @ blank_line)" "c_content_length ?c = length body" "c_path ?c = c_path p"
      "c_gzip ?c = c_gzip p" "c_keep_alive ?c = c_keep_alive p" "c_fd ?c = c_fd c0"
    using parsed_offset[OF head(1,4)] body(1) by (simp_all add: received_def onto_def with_input_def)
  have resp: "respond ?c n r = respond (p\<lparr>c_fd := c_fd c0\<rparr>) n r" for n r
    using c by (simp add: respond_def)
  have "serve_request zl handler srv ?c u =
      (case handler \<lparr>req_signal = signal_for_path (c_path p), req_path = c_path p, req_body = body\<rparr> u of
         Inl x \<Rightarrow> Inl x
       | Inr (hrc, u1) \<Rightarrow> Inr (1, srv\<lparr>srv_requests := srv_requests srv + 1\<rparr>, after_dispatch ?c,
           if hrc = 0 then respond (p\<lparr>c_fd := c_fd c0\<rparr>) 200 ''OK'' else respond (p\<lparr>c_fd := c_fd c0\<rparr>) 400 ''Bad Request'', u1))"
    using path body(3) by (simp add: serve_request_def c resp Let_def split: sum.split)
  moreover have "fresh (after_dispatch ?c)" "c_buf (after_dispatch ?c) = (if c_keep_alive p then after else [])"
    using c by (simp_all add: after_dispatch_def fresh_def conn_reset_def)
  ultimately show ?thesis
    by (intro exI[of _ "after_dispatch ?c"]) (simp add: run)
qed



section \<open>A concrete request\<close>

definition sample_head :: "byte list" where
  "sample_head = lit ''POST /v1/procmetrics HTTP/1.1'' @ http_crlf @ lit ''Host: agent'' @ http_crlf @ lit ''Content-Length: 2''"

definition sample_parsed :: pw_conn where
  "sample_parsed = snd (parse_headers (conn_reset\<lparr>c_buf := sample_head @ blank_line\<rparr>))"

definition null_zlib :: "unit zlib" where
  "null_zlib = \<lparr>z_init = (\<lambda>b. None), z_inflate = (\<lambda>z n. (Z_FAIL, [], z))\<rparr>"

lemma sample_head_facts:
  "head_ok sample_head" "fresh conn_reset" "c_buf conn_reset = []"
  "parse_headers (conn_reset\<lparr>c_buf := sample_head @ blank_line\<rparr>) = (1, sample_parsed)"
  "c_content_length sample_parsed = length (lit ''{}'')" "length (lit ''{}'') \<le> srv_max_body http_server_init"
  "\<not> c_gzip sample_parsed" "c_keep_alive sample_parsed" "c_path sample_parsed = lit ''/v1/procmetrics''"
proof -
  have "case parse_headers (conn_reset\<lparr>c_buf := sample_head @ blank_line\<rparr>) of (rc, q) \<Rightarrow>
      rc = 1 \<and> c_content_length q = 2 \<and> \<not> c_gzip q \<and> c_keep_alive q \<and> c_path q = lit ''/v1/procmetrics''"
    by code_simp
  then show "parse_headers (conn_reset\<lparr>c_buf := sample_head @ blank_line\<rparr>) = (1, sample_parsed)"
    "c_content_length sample_parsed = length (lit ''{}'')" "\<not> c_gzip sample_parsed" "c_keep_alive sample_parsed"
    "c_path sample_parsed = lit ''/v1/procmetrics''"
    by (auto simp: sample_parsed_def lit_def split: prod.splits)
  show "head_ok sample_head" by code_simp
qed (simp_all add: fresh_def conn_reset_def http_server_init_def lit_def)

lemma sample_signal: "signal_for_path (c_path sample_parsed) \<noteq> PW_SIGNAL_UNKNOWN"
  unfolding sample_head_facts(9) by code_simp



end
