(* ===== verification/HttpInv.thy ===== *)
theory HttpInv
  imports HttpProps
begin

text \<open>
  The invariant of the receiver \<^verbatim>\<open>src/agent/http_server.c\<close>, for every input of its loop: the table keeps its 128 slots, no
  connection holds more than its buffer, and a parsed request fits the limits.
\<close>

section \<open>The invariant\<close>

definition slot_ok :: "nat \<Rightarrow> pw_conn \<Rightarrow> bool" where
  "slot_ok max_body c \<longleftrightarrow>
     length (c_buf c) \<le> c_cap c \<and>
     (if c_headers_done c then c_content_length c \<le> max_body \<and> c_body_offset c \<le> length (c_buf c) \<and> c_body_offset c \<le> HEADER_MAX + 4
      else fresh c)"

definition server_ok :: "pw_http_server \<Rightarrow> bool" where
  "server_ok srv \<longleftrightarrow> length (srv_conns srv) = PW_HTTP_MAX_CONNS \<and> (\<forall>c\<in>set (srv_conns srv). slot_ok (srv_max_body srv) c)"

lemma slot_ok_reset [simp]: "slot_ok m conn_reset"
  by (simp add: slot_ok_def conn_reset_def fresh_def)

lemma slot_ok_new [simp]: "slot_ok m (conn_reset\<lparr>c_fd := fd, c_keep_alive := True, c_last_active := now\<rparr>)"
  by (simp add: slot_ok_def conn_reset_def fresh_def)

lemma strstr_bound: "strstr s pat = Some t \<Longrightarrow> length s - length t + length pat \<le> length s"
  by (auto dest!: strstr_Some simp: is_prefix_iff)

lemma find_blank_bound: "find_blank b = Some (n, sep) \<Longrightarrow> n + sep \<le> length b \<and> sep \<le> 4"
  by (auto simp: find_blank_def memmem_def split: option.splits dest!: strstr_bound)

lemma header_lines_keeps:
  "c_buf (header_lines s c) = c_buf c \<and> c_cap (header_lines s c) = c_cap c"
proof -
  have "header_lines s (onto c c) = onto c (header_lines s c)" by (rule header_lines_onto)
  moreover have "onto c c = c" by (simp add: onto_def)
  ultimately have "header_lines s c = onto c (header_lines s c)" by simp
  then show ?thesis by (metis onto_simps)
qed

section \<open>A connection\<close>

text \<open>What parsing yields, on any bytes.\<close>

lemma parse_headers_ok:
  assumes "parse_headers c = (rc, c1)"
  shows "rc \<in> {- 1, 0, 1} \<and> c_buf c1 = c_buf c \<and> c_cap c1 = c_cap c \<and> (rc \<noteq> 1 \<longrightarrow> c1 = c) \<and>
    (rc = 1 \<longrightarrow> c_headers_done c1 \<and> c_body_offset c1 \<le> length (c_buf c) \<and> c_body_offset c1 \<le> HEADER_MAX + 4)"
proof (cases "find_blank (c_buf c)")
  case None
  then show ?thesis using assms by (auto simp: parse_headers_def split: if_splits)
next
  case (Some hs)
  obtain n sep where hs: "hs = (n, sep)" by (cases hs)
  have bound: "n + sep \<le> length (c_buf c)" "sep \<le> 4"
    using find_blank_bound[OF Some[unfolded hs]] by auto
  show ?thesis
    using assms bound
    by (auto simp: parse_headers_def Some hs Let_def header_lines_keeps split: if_splits option.splits prod.splits)
qed

lemma serve_request_ok:
  assumes "slot_ok (srv_max_body srv) c" "c_headers_done c" "serve_request zl handler srv c u = Inr (n, srv1, c1, out, u1)"
  shows "slot_ok (srv_max_body srv) c1 \<and> srv_conns srv1 = srv_conns srv \<and> srv_max_body srv1 = srv_max_body srv"
proof -
  have after: "slot_ok (srv_max_body srv) (after_dispatch c)"
    using assms(1) by (cases "c_keep_alive c") (simp_all add: after_dispatch_def, auto simp: slot_ok_def fresh_def)
  show ?thesis
  proof (cases "length (c_buf c) - c_body_offset c < c_content_length c")
    case True
    obtain cap where cap: "conn_ensure_cap c (c_body_offset c + c_content_length c) = c\<lparr>c_cap := cap\<rparr>"
        "c_body_offset c + c_content_length c \<le> cap"
      by (rule ensure_capE)
    have "c1 = c\<lparr>c_cap := cap\<rparr>" "srv1 = srv"
      using assms(3) True by (simp_all add: serve_request_def cap(1))
    then show ?thesis
      using assms(1,2) True cap(2) by (simp add: slot_ok_def)
  next
    case False
    then show ?thesis
      using assms(3) after
      by (auto simp: serve_request_def Let_def count_rejected_def split: if_splits option.splits sum.splits prod.splits)
  qed
qed

lemma conn_service_ok:
  assumes ok: "slot_ok (srv_max_body srv) c" and run: "conn_service zl handler now rr srv c u = Inr (n, srv1, c1, out, u1)"
  shows "slot_ok (srv_max_body srv) c1 \<and> srv_conns srv1 = srv_conns srv \<and> srv_max_body srv1 = srv_max_body srv"
proof -
  obtain cap where c0: "conn_ensure_cap c (length (c_buf c) + 4096) = c\<lparr>c_cap := cap\<rparr>" "length (c_buf c) + 4096 \<le> cap"
    by (rule ensure_capE)
  have kept: "slot_ok (srv_max_body srv) (c\<lparr>c_cap := cap\<rparr>)"
    using ok c0(2) by (auto simp: slot_ok_def fresh_def)
  show ?thesis
  proof (cases rr)
    case (RecvBytes bs)
    let ?got = "take (cap - length (c_buf c)) bs"
    let ?c1 = "c\<lparr>c_cap := cap, c_buf := c_buf c @ ?got, c_last_active := now\<rparr>"
    have c1: "slot_ok (srv_max_body srv) ?c1"
      using ok c0(2) by (auto simp: slot_ok_def fresh_def)
    obtain rc c2 where p: "parse_headers ?c1 = (rc, c2)" by fastforce
    note ph = parse_headers_ok[OF p]
    have c2: "slot_ok (srv_max_body srv) c2" "c_headers_done c2"
      if "rc = 1" "c_content_length c2 \<le> srv_max_body srv"
      using ph that c1 by (auto simp: slot_ok_def)
    show ?thesis
      using run kept c1 ph c2 serve_request_ok[of srv ?c1 zl handler u n srv1 c1 out u1] serve_request_ok[of srv c2 zl handler u n srv1 c1 out u1]
      by (auto simp: conn_service_def RecvBytes c0(1) Let_def p count_rejected_def split: if_splits)
  qed (use run kept in \<open>auto simp: conn_service_def c0(1) Let_def\<close>)
qed

section \<open>The loop\<close>

lemma server_ok_update:
  "server_ok srv \<Longrightarrow> slot_ok (srv_max_body srv) c \<Longrightarrow> server_ok (srv\<lparr>srv_conns := (srv_conns srv)[i := c]\<rparr>)"
  by (auto simp: server_ok_def dest!: set_update_subset_insert[THEN subsetD])

lemma accept_new_ok:
  "server_ok srv \<Longrightarrow> server_ok (accept_new now acc srv) \<and> srv_max_body (accept_new now acc srv) = srv_max_body srv"
proof (induction now acc srv rule: accept_new.induct)
  case (2 now fd nonblock rest srv)
  have "server_ok (count_rejected srv)"
    using "2.prems" by (simp add: server_ok_def count_rejected_def)
  then show ?case
    using 2 server_ok_update[OF "2.prems" slot_ok_new] by (auto simp: count_rejected_def split: option.split)
qed simp

lemma service_slots_ok:
  "server_ok srv \<Longrightarrow> list_all (\<lambda>i. i < PW_HTTP_MAX_CONNS) slots \<Longrightarrow>
   service_slots zl handler ti slots srv u = Inr (n, srv1, out, u1) \<Longrightarrow> server_ok srv1 \<and> srv_max_body srv1 = srv_max_body srv"
proof (induction slots arbitrary: srv u n out)
  case (Cons i slots)
  let ?c = "srv_conns srv ! i"
  have ok: "slot_ok (srv_max_body srv) ?c"
    using Cons.prems(1,2) by (auto simp: server_ok_def)
  consider (free) "c_fd ?c < 0" | (hup) "\<not> c_fd ?c < 0" "ti_hup ti (c_fd ?c)"
    | (quiet) "\<not> c_fd ?c < 0" "\<not> ti_hup ti (c_fd ?c)" "\<not> ti_readable ti (c_fd ?c)"
    | (ready) "\<not> c_fd ?c < 0" "\<not> ti_hup ti (c_fd ?c)" "ti_readable ti (c_fd ?c)" by blast
  then show ?case
  proof cases
    case hup
    then show ?thesis
      using Cons.IH[OF server_ok_update[OF Cons.prems(1) slot_ok_reset, of i]] Cons.prems by (auto simp: Let_def)
  next
    case ready
    obtain m srv2 c2 out2 u2 where s: "conn_service zl handler (ti_now ti) (ti_recv ti (c_fd ?c)) srv ?c u = Inr (m, srv2, c2, out2, u2)"
      using Cons.prems(3) ready by (auto simp: Let_def split: sum.splits)
    note sv = conn_service_ok[OF ok s]
    have "server_ok (srv2\<lparr>srv_conns := (srv_conns srv2)[i := c2]\<rparr>)"
      using sv Cons.prems(1) by (intro server_ok_update) (auto simp: server_ok_def)
    then show ?thesis
      using Cons.prems(2,3) ready sv Cons.IH[of "srv2\<lparr>srv_conns := (srv_conns srv2)[i := c2]\<rparr>" u2]
      by (auto simp: Let_def s split: sum.splits)
  qed (use Cons in \<open>auto simp: Let_def\<close>)
qed simp

lemma reap_ok: "server_ok srv \<Longrightarrow> server_ok (reap_idle now srv)"
  by (auto simp: server_ok_def reap_idle_def)

section \<open>What the handler keeps\<close>

text \<open>The handler is only reached through the loop: what it keeps of its own state, every turn keeps.\<close>

locale request_handler =
  fixes handler :: "('x, 'u) pw_http_handler" and inv :: "'u \<Rightarrow> bool"
  assumes handler_keeps: "inv u \<Longrightarrow> handler req u = Inr (rc, u1) \<Longrightarrow> inv u1"
begin

lemma serve_keeps:
  assumes "inv u" "serve_request zl handler srv c u = Inr (n, srv1, c1, out, u1)"
  shows "inv u1"
proof (cases "length (c_buf c) - c_body_offset c < c_content_length c \<or> signal_for_path (c_path c) = PW_SIGNAL_UNKNOWN")
  case True
  with assms show ?thesis by (auto simp: serve_request_def Let_def split: if_splits)
next
  case False
  with assms show ?thesis
    by (auto simp: serve_request_def Let_def split: if_splits option.splits sum.splits prod.splits dest: handler_keeps)
qed

lemma service_keeps:
  assumes "inv u" "conn_service zl handler now rr srv c u = Inr (n, srv1, c1, out, u1)"
  shows "inv u1"
proof (cases rr)
  case (RecvBytes bs)
  with assms show ?thesis
    by (auto simp: conn_service_def Let_def split: if_splits prod.splits dest: serve_keeps[OF assms(1)])
qed (use assms in \<open>simp_all add: conn_service_def Let_def\<close>)

lemma slots_keep: "inv u \<Longrightarrow> service_slots zl handler ti slots srv u = Inr (n, srv1, out, u1) \<Longrightarrow> inv u1"
proof (induction slots arbitrary: srv u n out)
  case (Cons i slots)
  let ?c = "srv_conns srv ! i"
  show ?case
  proof (cases "c_fd ?c < 0 \<or> ti_hup ti (c_fd ?c) \<or> \<not> ti_readable ti (c_fd ?c)")
    case True
    with Cons show ?thesis by (auto simp: Let_def split: if_splits)
  next
    case False
    then obtain m srv2 c2 out2 u2 where s: "conn_service zl handler (ti_now ti) (ti_recv ti (c_fd ?c)) srv ?c u = Inr (m, srv2, c2, out2, u2)"
      using Cons.prems(2) by (auto simp: Let_def split: sum.splits)
    show ?thesis
      using Cons.prems(2) False Cons.IH[OF service_keeps[OF Cons.prems(1) s], of "srv2\<lparr>srv_conns := (srv_conns srv2)[i := c2]\<rparr>"]
      by (auto simp: Let_def s split: sum.splits)
  qed
qed simp

lemma tick_keeps:
  assumes "inv u" "http_server_tick zl handler ti srv u = Inr (n, srv1, out, u1)"
  shows "inv u1"
  using assms(2) slots_keep[OF assms(1)] assms(1) by (auto simp: http_server_tick_def Let_def split: if_splits sum.splits)

end

text \<open>A handler that always returns; then so does every turn.\<close>

locale answering_handler = request_handler handler inv
  for handler :: "('x, 'u) pw_http_handler" and inv :: "'u \<Rightarrow> bool" +
  assumes handler_answers: "inv u \<Longrightarrow> \<exists>rc u1. handler req u = Inr (rc, u1)"
begin

lemma serve_answers: "inv u \<Longrightarrow> \<exists>n srv1 c1 out u1. serve_request zl handler srv c u = Inr (n, srv1, c1, out, u1)"
proof -
  assume "inv u"
  then have "\<exists>x. handler req u = Inr x" for req using handler_answers by blast
  then show ?thesis by (auto simp: serve_request_def Let_def split: option.split prod.split sum.split) (metis sum.distinct(1))+
qed

lemma service_answers: "inv u \<Longrightarrow> \<exists>n srv1 c1 out u1. conn_service zl handler now rr srv c u = Inr (n, srv1, c1, out, u1)"
proof -
  assume "inv u"
  note sv = serve_answers[OF this]
  show ?thesis by (cases rr) (simp_all add: conn_service_def Let_def sv split: prod.split)
qed

lemma slots_answer: "inv u \<Longrightarrow> \<exists>n srv1 out u1. service_slots zl handler ti slots srv u = Inr (n, srv1, out, u1)"
proof (induction slots arbitrary: srv u)
  case (Cons i slots)
  let ?c = "srv_conns srv ! i"
  obtain n srv1 c1 out u1 where s: "conn_service zl handler (ti_now ti) (ti_recv ti (c_fd ?c)) srv ?c u = Inr (n, srv1, c1, out, u1)"
    using service_answers[OF Cons.prems] by blast
  obtain m srv2 out2 u2 where "service_slots zl handler ti slots (srv1\<lparr>srv_conns := (srv_conns srv1)[i := c1]\<rparr>) u1 = Inr (m, srv2, out2, u2)"
    using Cons.IH[OF service_keeps[OF Cons.prems s]] by blast
  then show ?case
    using Cons by (simp add: Let_def s)
qed simp

lemma tick_answers: "inv u \<Longrightarrow> \<exists>n srv1 out u1. http_server_tick zl handler ti srv u = Inr (n, srv1, out, u1)"
proof -
  assume u: "inv u"
  define slots where "slots = filter (\<lambda>i. c_fd (srv_conns srv ! i) \<ge> 0) [0..<length (srv_conns srv)]"
  obtain n srv1 out u1 where
    "service_slots zl handler ti slots (if ti_listen_ready ti then accept_new (ti_now ti) (ti_accepted ti) srv else srv) u = Inr (n, srv1, out, u1)"
    using slots_answer[OF u] by blast
  then show ?thesis by (simp add: http_server_tick_def Let_def flip: slots_def)
qed

end

section \<open>A turn of the loop\<close>

text \<open>C37. The receiver's invariant: from the state after its set-up, and whatever the kernel reports and the clients send, a
  turn of its loop keeps 128 slots, every connection within its buffer, and every parsed request within the limits (a
  header block of at most 16 KiB, a body of at most \<open>srv_max_body\<close>), so the body it hands on is a part of the buffer.\<close>

theorem tick_keeps_server_ok:
  assumes "server_ok srv" "http_server_tick zl handler ti srv u = Inr (n, srv1, out, u1)"
  shows "server_ok http_server_init \<and> server_ok srv1 \<and> srv_max_body srv1 = srv_max_body srv"
proof -
  let ?owners = "filter (\<lambda>i. c_fd (srv_conns srv ! i) \<ge> 0) [0..<length (srv_conns srv)]"
  have slots: "list_all (\<lambda>i. i < PW_HTTP_MAX_CONNS) ?owners"
    using assms(1) by (auto simp: server_ok_def list_all_iff)
  have init: "server_ok http_server_init"
    by (simp add: server_ok_def http_server_init_def)
  define srv0 where "srv0 = (if ti_listen_ready ti then accept_new (ti_now ti) (ti_accepted ti) srv else srv)"
  have ok0: "server_ok srv0" "srv_max_body srv0 = srv_max_body srv"
    using accept_new_ok[OF assms(1)] assms(1) by (simp_all add: srv0_def)
  have keep: "srv_max_body (reap_idle now s) = srv_max_body s" for now s
    by (simp add: reap_idle_def)
  show ?thesis
    using assms(2) ok0 init assms(1) reap_ok keep
    by (auto simp: http_server_tick_def Let_def srv0_def[symmetric] split: if_splits sum.splits
        dest: service_slots_ok[OF ok0(1) slots])
qed


text \<open>A turn in which a client connects.\<close>

definition accept_input :: tick_input where
  "accept_input = \<lparr>ti_poll_rc = 1, ti_listen_ready = True, ti_accepted = [(5, True)], ti_hup = (\<lambda>fd. False),
     ti_readable = (\<lambda>fd. False), ti_recv = (\<lambda>fd. RecvAgain), ti_now = 100\<rparr>"

theorem tick_keeps_server_ok_witness:
  "\<exists>srv1. http_server_tick null_zlib (\<lambda>req u. Inr (0, u) :: unit + int \<times> unit) accept_input http_server_init () = Inr (0, srv1, [], ()) \<and>
     server_ok srv1 \<and> c_fd (hd (srv_conns srv1)) = 5"
proof -
  have ok: "server_ok http_server_init"
    by (simp add: server_ok_def http_server_init_def)
  have no: "filter (\<lambda>i. c_fd (srv_conns http_server_init ! i) \<ge> 0) [0..<length (srv_conns http_server_init)] = []"
    by (auto simp: http_server_init_def conn_reset_def filter_empty_conv)
  let ?srv1 = "reap_idle 100 (accept_new 100 [(5, True)] http_server_init)"
  have run: "http_server_tick null_zlib (\<lambda>req u. Inr (0, u) :: unit + int \<times> unit) accept_input http_server_init () = Inr (0, ?srv1, [], ())"
    by (simp add: http_server_tick_def no accept_input_def)
  have conns: "srv_conns http_server_init = conn_reset # replicate 127 conn_reset"
    using replicate_Suc[of 127 conn_reset] by (simp add: http_server_init_def PW_HTTP_MAX_CONNS_def)
  have fd: "c_fd conn_reset = - 1" by (simp add: conn_reset_def)
  have timeout: "srv_idle_timeout_sec http_server_init = 30" by (simp add: http_server_init_def)
  have "c_fd (hd (srv_conns ?srv1)) = 5"
    by (simp add: conns fd timeout reap_idle_def)
  with run tick_keeps_server_ok[OF ok run] show ?thesis by blast
qed

end
