(* ===== verification/SpillCount.thy ===== *)
theory SpillCount
  imports SpillSpec
begin

text \<open>
  The spill buffer's own counters, for a user whose callback keeps the buffer: records there at the start and records
  spilled are together the records replayed and the records still in the file.
\<close>

section \<open>The books of the buffer\<close>

definition ledger :: "64 word \<Rightarrow> pw_db_buf \<Rightarrow> 'd world \<Rightarrow> bool" where
  "ledger old b w \<longleftrightarrow>
     w_faults w = [] \<and> length (db_spill_path b) < 512 \<and>
     nl_ok (file_content (db_spill_path b) w) \<and> 0 \<notin> set (file_content (db_spill_path b) w) \<and>
     old + db_spilled b = db_flushed b + of_nat (length (records (file_content (db_spill_path b) w)))"

lemma ledger_cong:
  assumes "ledger old b w" "w_files w1 = w_files w" "w_faults w1 = w_faults w" "db_spill_path b1 = db_spill_path b"
    and "db_spilled b1 = db_spilled b" "db_flushed b1 = db_flushed b"
  shows "ledger old b1 w1"
  using assms by (simp add: ledger_def file_content_def)

text \<open>Lines appended and counted.\<close>

lemma ledger_lines:
  assumes "ledger old b w" "list_all good_record new" "w_faults w1 = []" "db_spill_path b1 = db_spill_path b"
    and "file_content (db_spill_path b) w1 = file_content (db_spill_path b) w @ lines_of new"
    and "db_spilled b1 = db_spilled b + of_nat (length new)" "db_flushed b1 = db_flushed b"
  shows "ledger old b1 w1"
proof -
  let ?c = "file_content (db_spill_path b) w"
  have "length (records (?c @ lines_of new)) = length (records ?c) + length new"
    using assms(1,2) by (simp add: ledger_def records_lines)
  then have "old + db_spilled b1 = db_flushed b1 + of_nat (length (records (?c @ lines_of new)))"
    using assms(1,6,7) by (simp add: ledger_def add.assoc flip: of_nat_add) (simp add: add.assoc flip: add.assoc)
  with assms nl_ok_lines[of ?c new] nul_lines[of ?c new] show ?thesis
    by (simp add: ledger_def)
qed

lemma ensure_counts:
  "pw_db_buf_ensure pq b w = (ok, b1, w1) \<Longrightarrow> db_spilled b1 = db_spilled b \<and> db_flushed b1 = db_flushed b \<and> db_spill_dropped b1 = db_spill_dropped b"
  by (auto simp: pw_db_buf_ensure_def Let_def split: if_splits prod.splits)

section \<open>Replay\<close>

text \<open>The log of a callback is a ghost: the code's own run is the logged one without it.\<close>

definition unlogged :: "int \<times> ('d, 'u \<times> byte list list) spill_st \<Rightarrow> int \<times> ('d, 'u) spill_st" where
  "unlogged = (\<lambda>(rc, b, (u, lg), w). (rc, b, u, w))"

lemma flush_loop_unlogged:
  "flush_loop fn c (b, u, w) n =
     map_sum (\<lambda>w. w) (\<lambda>(res, m, b, (u, lg), w). (res, m, b, u, w)) (flush_loop (logged fn) c (b, (u, lg), w) n)"
proof (induction c arbitrary: b u lg w n rule: length_induct)
  case (1 c)
  show ?case
  proof (cases "c = []")
    case False
    obtain raw after where g: "getline_split c = (raw, after)" by fastforce
    note IH = "1.IH"[rule_format, OF getline_split_shrinks[OF False g[symmetric]]]
    have logged: "logged fn line (b, (u, lg), w) = (case fn line (b, u, w) of Inl w1 \<Rightarrow> Inl w1
        | Inr (rc, b1, u1, w1) \<Rightarrow> Inr (rc, b1, (u1, if rc = 0 then lg @ [line] else lg), w1))" for line
      by (simp add: logged_def)
    show ?thesis
    proof (cases "fn (strip_eol raw) (b, u, w)")
      case (Inl w1)
      then show ?thesis
        using False IH[of b u w "n + 1" lg] by (simp add: flush_loop.simps[of _ c] g logged Let_def)
    next
      case (Inr x)
      obtain rc b1 u1 w1 where x: "x = (rc, b1, u1, w1)" by (cases x)
      show ?thesis
        using False IH[of b u w "n + 1" lg] IH[of "b1\<lparr>db_flushed := db_flushed b1 + 1\<rparr>" u1 w1 "n + 1" "lg @ [strip_eol raw]"]
        by (simp add: flush_loop.simps[of _ c] g logged Let_def count_flushed_def Inr x)
    qed
  qed (simp add: flush_loop.simps)
qed

lemma flush_unlogged:
  "pw_db_buf_flush pq fn (b, u, w) = map_sum (\<lambda>w. w) unlogged (pw_db_buf_flush pq (logged fn) (b, (u, lg), w))"
proof -
  let ?p = "db_spill_path b"
  let ?fl = "spill_companion 576 ?p (lit ''.flushing'')"
  obtain r w1 where r: "fs_rename ?p ?fl w = (r, w1)" by fastforce
  obtain opened w2 where o: "fs_open_read ?fl w1 = (opened, w2)" by fastforce
  obtain c w3 where c: "fs_read_all ?fl w2 = (c, w3)" by fastforce
  note simps = pw_db_buf_flush_def Let_def unlogged_def r o c
  show ?thesis
  proof (cases "flush_loop (logged fn) c (b, (u, lg), w3) 0")
    case (Inl w4)
    then show ?thesis by (cases r) (simp_all add: simps flush_loop_unlogged[of fn c b u w3 0 lg])
  next
    case (Inr x)
    obtain res m b1 u1 lg1 w4 where x: "x = (res, m, b1, (u1, lg1), w4)" by (cases x) auto
    show ?thesis
      by (cases r; cases res) (auto simp: simps flush_loop_unlogged[of fn c b u w3 0 lg] Inr x split: prod.split)
  qed
qed

locale replay_callback =
  fixes fn :: "('d, 'u) replay_fn" and inv :: "'u \<Rightarrow> bool"
  assumes callback_quiet: "quiet fn"
    and callback_keeps: "inv u \<Longrightarrow> fn line (b, u, w) = Inr (rc, b1, u1, w1) \<Longrightarrow> b1 = b \<and> inv u1"
begin

text \<open>The loop counts what it hands over, and changes nothing else of the buffer.\<close>

lemma loop_counts:
  "inv u \<Longrightarrow> flush_loop (logged fn) c (b, (u, lg), w) n = Inr (res, m, b1, (u1, lg1), w1) \<Longrightarrow>
   inv u1 \<and> (\<exists>ds. lg1 = lg @ ds \<and> b1 = b\<lparr>db_flushed := db_flushed b + of_nat (length ds)\<rparr>)"
proof (induction c arbitrary: b u lg w n rule: length_induct)
  case (1 c)
  show ?case
  proof (cases "c = []")
    case True
    with "1.prems" show ?thesis by (simp add: flush_loop.simps exI[of _ "[]"])
  next
    case False
    obtain raw after where g: "getline_split c = (raw, after)" by fastforce
    note IH = "1.IH"[rule_format, OF getline_split_shrinks[OF False g[symmetric]]]
    show ?thesis
    proof (cases "strip_eol raw = []")
      case True
      with "1.prems" IH False show ?thesis by (simp add: flush_loop.simps[of _ c] g)
    next
      case line: False
      obtain rc b2 u2 w2 where f: "fn (strip_eol raw) (b, u, w) = Inr (rc, b2, u2, w2)"
        using "1.prems"(2) False line by (cases "fn (strip_eol raw) (b, u, w)") (auto simp: flush_loop.simps[of _ c] g logged_def)
      note keep = callback_keeps[OF "1.prems"(1) f]
      show ?thesis
      proof (cases "rc = 0")
        case True
        then have "flush_loop (logged fn) after (b\<lparr>db_flushed := db_flushed b + 1\<rparr>, (u2, lg @ [strip_eol raw]), w2) (n + 1) =
            Inr (res, m, b1, (u1, lg1), w1)"
          using "1.prems"(2) False line f keep by (simp add: flush_loop.simps[of _ c] g logged_def count_flushed_def)
        from IH[OF _ this] keep obtain ds where "inv u1" "lg1 = lg @ strip_eol raw # ds"
            "b1 = b\<lparr>db_flushed := db_flushed b + 1 + of_nat (length ds)\<rparr>" by auto
        then show ?thesis by (auto intro!: exI[of _ "strip_eol raw # ds"])
      next
        case rc: False
        with "1.prems"(2) False line f keep show ?thesis
          by (auto simp: flush_loop.simps[of _ c] g logged_def exI[of _ "[]"])
      qed
    qed
  qed
qed

lemma flush_counts:
  assumes "inv u" and "pw_db_buf_flush pq (logged fn) (b, (u, []), w) = Inr (rc, b1, (u1, lg1), w1)"
  shows "inv u1 \<and> db_flushed b1 = db_flushed b + of_nat (length lg1) \<and> db_spilled b1 = db_spilled b \<and>
    db_spill_dropped b1 = db_spill_dropped b"
proof -
  let ?p = "db_spill_path b"
  let ?fl = "spill_companion 576 ?p (lit ''.flushing'')"
  obtain r w2 where r: "fs_rename ?p ?fl w = (r, w2)" by fastforce
  obtain opened w3 where o: "fs_open_read ?fl w2 = (opened, w3)" by fastforce
  obtain c w4 where c: "fs_read_all ?fl w3 = (c, w4)" by fastforce
  note simps = pw_db_buf_flush_def Let_def r o c
  show ?thesis
  proof (cases "db_online b \<and> db_conn b \<noteq> None \<and> conn_ok pq (db_conn b) w \<and> r = IoOk \<and> opened")
    case False
    then have "u1 = u \<and> lg1 = [] \<and> (b1 = b \<or> b1 = b\<lparr>db_online := False\<rparr>)"
      using assms(2) by (cases r) (auto simp: simps split: if_splits)
    then show ?thesis using assms(1) by auto
  next
    case True
    then have flush: "pw_db_buf_flush pq (logged fn) (b, (u, []), w) =
        (case flush_loop (logged fn) c (b, (u, []), w4) 0 of
           Inl w5 \<Rightarrow> Inl w5
         | Inr (Some (line, after), consumed, b1, u1, w5) \<Rightarrow>
             (case flush_stop ?p ?fl (spill_companion 576 ?p (lit ''.rest'')) line after w5 of (rc, w6) \<Rightarrow> Inr (rc, b1, u1, w6))
         | Inr (None, consumed, b1, u1, w5) \<Rightarrow>
             Inr (0, b1, u1, snd (fs_unlink (spill_companion 576 ?p (lit ''.rest'')) (snd (fs_unlink ?fl w5)))))"
      by (auto simp: simps)
    obtain res m b2 u2 lg2 w5 where l: "flush_loop (logged fn) c (b, (u, []), w4) 0 = Inr (res, m, b2, (u2, lg2), w5)"
      using assms(2) unfolding flush by (cases "flush_loop (logged fn) c (b, (u, []), w4) 0") auto
    have "b1 = b2 \<and> u1 = u2 \<and> lg1 = lg2"
      using assms(2) unfolding flush l by (cases res) (auto split: prod.splits)
    with loop_counts[OF assms(1) l] show ?thesis by auto
  qed
qed

lemma flush_ledger:
  assumes "inv u" "ledger old b w" and run: "pw_db_buf_flush pq fn (b, u, w) = Inr (rc, b1, u1, w1)"
  shows "inv u1 \<and> ledger old b1 w1 \<and> db_spill_path b1 = db_spill_path b \<and> db_spilled b1 = db_spilled b \<and>
    db_spill_dropped b1 = db_spill_dropped b"
proof -
  have "map_sum (\<lambda>w. w) unlogged (pw_db_buf_flush pq (logged fn) (b, (u, []), w)) = Inr (rc, b1, u1, w1)"
    using run unfolding flush_unlogged[of pq fn b u w "[]"] .
  then obtain lg where l: "pw_db_buf_flush pq (logged fn) (b, (u, []), w) = Inr (rc, b1, (u1, lg), w1)"
    by (cases "pw_db_buf_flush pq (logged fn) (b, (u, []), w)") (auto simp: unlogged_def)
  note c = flush_counts[OF assms(1) l]
  obtain ds where ds: "lg = [] @ ds" "db_spill_path b1 = db_spill_path b" "w_faults w1 = []"
      "nl_ok (file_content (db_spill_path b) w1)" "0 \<notin> set (file_content (db_spill_path b) w1)"
      "records (file_content (db_spill_path b) w) = ds @ records (file_content (db_spill_path b) w1)"
    using flush_none[OF callback_quiet _ _ _ _ l] assms(2) unfolding ledger_def by blast
  have "old + db_spilled b = db_flushed b + of_nat (length ds + length (records (file_content (db_spill_path b) w1)))"
    using assms(2) ds(6) by (simp add: ledger_def)
  then have "ledger old b1 w1"
    using assms(2) ds c by (simp add: ledger_def add.assoc)
  with c ds show ?thesis by blast
qed

lemma maintain_ledger:
  assumes "inv u" "ledger old b w" and run: "pw_db_buf_maintain pq fn (b, u, w) = Inr (rc, b1, u1, w1)"
  shows "inv u1 \<and> ledger old b1 w1 \<and> db_spill_path b1 = db_spill_path b \<and> db_spilled b1 = db_spilled b \<and>
    db_spill_dropped b1 = db_spill_dropped b"
proof -
  obtain ok b2 w2 where e: "pw_db_buf_ensure pq b w = (ok, b2, w2)" by (cases "pw_db_buf_ensure pq b w") auto
  note fr = ensure_frame[OF e] ensure_counts[OF e]
  have l: "ledger old b2 w2" by (rule ledger_cong[OF assms(2)]) (use fr in auto)
  show ?thesis
    using run flush_ledger[OF assms(1) l] fr l assms(1) by (auto simp: pw_db_buf_maintain_def e split: if_splits)
qed

end

end
