(* ===== verification/AgentRun.thy ===== *)
theory AgentRun
  imports AgentProps HttpInv SpillCount
begin

text \<open>
  The daemon from start to exit: whatever the clients send and the server of the database does, the spill file and the
  counters agree at the end of every run, so no record leaves the file but through the replay.
\<close>

section \<open>The books of the daemon\<close>

definition schema_spilled :: "cstring \<Rightarrow> 64 word \<Rightarrow> agent_state \<Rightarrow> bool" where
  "schema_spilled schema n u \<longleftrightarrow> st_schema u = schema \<and> records_spilled u = n"

text \<open>\<open>old\<close> is the number of records an earlier run left in the file.\<close>

definition balanced :: "64 word \<Rightarrow> cstring \<Rightarrow> 'd agent \<Rightarrow> bool" where
  "balanced old path = (\<lambda>(b, u, w).
     ledger old b w \<and> db_spill_path b = path \<and> validate_identifier (st_schema u) \<and>
     db_spilled b = records_spilled u \<and> db_spill_dropped b = 0)"

lemma balanced_cong:
  assumes "balanced old path (b, u, w)" "same_io w w1" "st_schema u1 = st_schema u" "records_spilled u1 = records_spilled u"
  shows "balanced old path (b, u1, w1)"
  using assms ledger_cong[of old b w w1 b] by (simp add: balanced_def same_io_def)

lemma balanced_booked:
  assumes "balanced old path (b, u, w)" "booked (b, u, w) k s1"
  shows "balanced old path s1"
proof -
  obtain b1 u1 w1 where s1: "s1 = (b1, u1, w1)" by (cases s1)
  obtain new where new: "list_all good_record new" "w_faults w1 = []" "db_spill_path b1 = db_spill_path b"
      "file_content (db_spill_path b) w1 = file_content (db_spill_path b) w @ lines_of new"
      "db_spilled b1 = db_spilled b + of_nat (length new)" "db_flushed b1 = db_flushed b"
    using assms(2) by (auto simp: s1 booked_def)
  from assms(1) have "ledger old b w" by (simp add: balanced_def)
  from ledger_lines[OF this new] show ?thesis
    using assms by (auto simp: s1 booked_def balanced_def)
qed

section \<open>Replay and maintenance\<close>

lemma replay_insert_steady:
  assumes "\<And>u cache. schema_spilled schema n u \<Longrightarrow> schema_spilled schema n (written (u\<lparr>st_labels := cache\<rparr>))"
    and "schema_spilled schema n u" "replay_insert pq label ins written (b, u, w) = Inr (rc, b1, u1, w1)"
  shows "b1 = b \<and> schema_spilled schema n u1"
  using assms
  by (auto simp: replay_insert_def agent_ensure_label_def and_then_Inr schema_spilled_def counters split: if_splits prod.splits)

lemma replay_line_steady:
  assumes "schema_spilled schema n u" "replay_line pq line (b, u, w) = Inr (rc, b1, u1, w1)"
  shows "b1 = b \<and> schema_spilled schema n u1"
  using assms(2) assms(1)
  by (auto simp: replay_line_def Let_def split: if_splits option.splits
      dest!: replay_insert_steady[where schema = schema and n = n, rotated 2]) (simp_all add: schema_spilled_def counters)

interpretation agent_replay: replay_callback "replay_line pq" "schema_spilled schema n" for pq schema n
  by unfold_locales (rule replay_line_quiet, rule replay_line_steady)

lemma steady_balanced:
  assumes "schema_spilled (st_schema u) (records_spilled u) u1 \<and> ledger old b1 w1 \<and> db_spill_path b1 = db_spill_path b \<and>
      db_spilled b1 = db_spilled b \<and> db_spill_dropped b1 = db_spill_dropped b"
    and "balanced old path (b, u, w)"
  shows "balanced old path (b1, u1, w1)"
  using assms by (simp add: balanced_def schema_spilled_def)

lemma flush_balanced:
  assumes "balanced old path (b, u, w)" "pw_db_buf_flush pq (replay_line pq) (b, u, w) = Inr (rc, b1, u1, w1)"
  shows "balanced old path (b1, u1, w1)"
  using agent_replay.flush_ledger[OF _ _ assms(2), of "st_schema u" "records_spilled u" old] assms(1)
  by (intro steady_balanced[OF _ assms(1)]) (simp add: schema_spilled_def balanced_def)

lemma maintain_balanced:
  assumes "balanced old path (b, u, w)" "pw_db_buf_maintain pq (replay_line pq) (b, u, w) = Inr (rc, b1, u1, w1)"
  shows "balanced old path (b1, u1, w1)"
  using agent_replay.maintain_ledger[OF _ _ assms(2), of "st_schema u" "records_spilled u" old] assms(1)
  by (intro steady_balanced[OF _ assms(1)]) (simp add: schema_spilled_def balanced_def)

lemma online_balanced:
  assumes "balanced old path (b, u, w)" "agent_online pq (b, u, w) = Inr s1"
  shows "balanced old path s1"
proof (cases "db_conn b")
  case None
  then show ?thesis using assms by (simp add: agent_online_def)
next
  case (Some c)
  obtain w1 w2 rc where steps: "db_ensure_schema pq c (st_schema u) w = Inr w1"
      "db_ensure_drop_inactive_job pq c (st_schema u) (db_try_enable_timescaledb pq c w1) = Inr w2"
      "pw_db_buf_flush pq (replay_line pq) (b, u, w2) = Inr (rc, s1)"
    using assms(2) by (auto simp: agent_online_def Some and_then_Inr)
  have "same_io w w1"
    using ensure_schema_keep[OF same_io_refl, of w pq c "st_schema u"] by (simp add: steps)
  then have "same_io w (db_try_enable_timescaledb pq c w1)" by (rule try_enable_keep)
  from drop_job_keep[OF this, of pq c "st_schema u"] have "same_io w w2" by (simp add: steps)
  from balanced_cong[OF assms(1) this refl refl] steps(3) show ?thesis
    by (cases s1) (auto intro: flush_balanced)
qed

lemma agent_maintain_balanced:
  assumes "balanced old path s" "agent_maintain pq s = Inr s1"
  shows "balanced old path s1"
proof -
  obtain b u w where s: "s = (b, u, w)" by (cases s)
  obtain rc b2 u2 w2 where m: "pw_db_buf_maintain pq (replay_line pq) (b, u, w) = Inr (rc, b2, u2, w2)"
      and after: "(if db_online b2 \<and> \<not> db_online b then agent_online pq (b2, u2\<lparr>st_labels := db_label_cache_reset\<rparr>, w2)
        else Inr (b2, u2, w2)) = Inr s1"
    using assms(2) by (auto simp: s agent_maintain_def and_then_Inr)
  note bal = maintain_balanced[OF assms(1)[unfolded s] m]
  have reset: "balanced old path (b2, u2\<lparr>st_labels := db_label_cache_reset\<rparr>, w2)"
    using balanced_cong[OF bal same_io_refl, of "u2\<lparr>st_labels := db_label_cache_reset\<rparr>"] by (simp add: counters)
  show ?thesis
    using after bal online_balanced[OF reset] by (cases "db_online b2 \<and> \<not> db_online b") auto
qed

section \<open>Turns\<close>

lemma on_request_balanced:
  assumes "balanced old path s" "on_request pq net req s = Inr (rc, s1)"
  shows "balanced old path s1"
proof -
  obtain b u w where s: "s = (b, u, w)" by (cases s)
  have "w_faults w = []" "validate_identifier (st_schema u)"
    using assms(1) by (simp_all add: s balanced_def ledger_def)
  from request_books[OF assms(2)[unfolded s] this] balanced_booked assms(1)[unfolded s] show ?thesis by blast
qed

interpretation agent_handler: request_handler "on_request pq net" "balanced old path" for pq net old path
  by unfold_locales (rule on_request_balanced)

lemma agent_turn_balanced:
  assumes "balanced old path (b, u, w)" "agent_turn pq net zl ti (srv, nm, b, u, w) = Inr (out, srv1, nm1, s1)"
  shows "balanced old path s1"
proof -
  have "balanced old path (b, u, w\<lparr>w_now := ti_now ti\<rparr>)"
    using assms(1) ledger_cong[of old b w "w\<lparr>w_now := ti_now ti\<rparr>" b] by (simp add: balanced_def)
  note tick = agent_handler.tick_keeps[OF this]
  show ?thesis
    using assms(2)
    by (auto simp: agent_turn_def Let_def and_then_Inr split: if_splits dest!: tick dest: agent_maintain_balanced)
qed

lemma agent_loop_balanced:
  "balanced old path s \<Longrightarrow> agent_loop pq net zl turns (srv, nm, s) = Inr (out, srv1, nm1, s1) \<Longrightarrow> balanced old path s1"
proof (induction turns arbitrary: srv nm s out)
  case (Cons ti turns)
  obtain o1 srv2 nm2 s2 o2 where "agent_turn pq net zl ti (srv, nm, s) = Inr (o1, srv2, nm2, s2)"
      "agent_loop pq net zl turns (srv2, nm2, s2) = Inr (o2, srv1, nm1, s1)"
    using Cons.prems(2) by (auto simp: and_then_Inr)
  with Cons agent_turn_balanced show ?case by (cases s) blast
qed simp

section \<open>Whole runs\<close>

lemma start_balanced:
  assumes w: "w_faults w = []" and content: "nl_ok (file_content path w)" "0 \<notin> set (file_content path w)"
    and path: "path = spill_path_of None (Some (lit ''agentd.ndjson'')) w" and schema: "validate_identifier schema"
    and run: "agent_start pq conninfo schema tempo prometheus hk w = Inr s1"
  shows "balanced (of_nat (length (records (file_content path w)))) path s1"
proof -
  obtain b w1 where init: "pw_db_buf_init pq (Some conninfo) None (Some (lit ''agentd.ndjson'')) w = (b, w1)"
    by (cases "pw_db_buf_init pq (Some conninfo) None (Some (lit ''agentd.ndjson'')) w") auto
  then have b: "db_spill_path b = path" "db_spilled b = 0" "db_flushed b = 0" "db_spill_dropped b = 0"
      "w_files w1 = w_files w" "w_faults w1 = w_faults w"
    by (auto simp: pw_db_buf_init_def Let_def path split: prod.splits if_splits option.splits dest!: db_connect_frame)
  have "length path < 512"
    by (simp add: path spill_path_of_def Let_def length_snprintf_s split: option.split)
  with b w content have "ledger (of_nat (length (records (file_content path w)))) b w1"
    by (simp add: ledger_def file_content_def)
  moreover have "length schema < 100" using schema by (simp add: validate_identifier_def split: if_splits)
  ultimately have "balanced (of_nat (length (records (file_content path w)))) path (b, agent_state_init schema tempo prometheus hk, w1)"
    using b schema by (simp add: balanced_def agent_state_init_def counters)
  with run online_balanced show ?thesis
    by (cases s1) (auto simp: agent_start_def init Let_def split: if_splits)
qed

lemma close_balanced: "balanced old path (b, u, w) \<Longrightarrow> pw_db_buf_close pq b w = (b1, w1) \<Longrightarrow> balanced old path (b1, u, w1)"
  by (auto simp: pw_db_buf_close_def balanced_def ledger_def file_content_def split: option.splits)

text \<open>C3. No record is lost between start and exit: for every run of the daemon that reaches its end -- any options it accepts,
  any requests in any pieces, any behaviour of the database, but no failing file operation -- the records found in the spill file
  at the start and those spilled meanwhile are, in number, those replayed and those left in the file; the daemon's
  counters of spilled records agree with the buffer's, and no spill was dropped.\<close>

theorem run_conserves_records:
  assumes "agent_config_of env opts = Inr cf"
    and "agent_run pq net zl cf listening turns w = Inr (rc, out, srv, b, u, w1)" "w_faults w = []"
    and "path = spill_path_of None (Some (lit ''agentd.ndjson'')) w"
    and "nl_ok (file_content path w)" "0 \<notin> set (file_content path w)"
  shows "of_nat (length (records (file_content path w))) + db_spilled b =
      db_flushed b + of_nat (length (records (file_content path w1))) \<and>
    db_spilled b = records_spilled u \<and> db_spill_dropped b = 0 \<and> nl_ok (file_content path w1)"
proof -
  let ?old = "of_nat (length (records (file_content path w)))"
  have schema: "validate_identifier (cf_schema cf)"
    using assms(1) by (auto simp: agent_config_of_def split: sum.splits if_splits)
  note start = start_balanced[OF assms(3,5,6,4) schema]
  obtain s1 where s1: "balanced ?old path s1" and after: "(case s1 of (b, u, w1) \<Rightarrow>
       if \<not> listening then case pw_db_buf_close pq b w1 of (b1, w2) \<Rightarrow> Inr (1, [], http_server_init, b1, u, w2)
       else
         and_then (agent_loop pq net zl turns (http_server_init, w_now w1 + 1, b, u, w1)) (\<lambda>(out, srv, next_maintain, s).
         and_then (pw_db_buf_maintain pq (replay_line pq) s) (\<lambda>(rc, b, u, w).
           case pw_db_buf_close pq b w of (b1, w1) \<Rightarrow> Inr (0, out, http_server_close srv, b1, u, w1)))) =
      Inr (rc, out, srv, b, u, w1)"
    using assms(2) start unfolding agent_run_def and_then_Inr by blast
  obtain b2 u2 w2 where s2: "s1 = (b2, u2, w2)" by (cases s1)
  have "balanced ?old path (b, u, w1)"
  proof (cases listening)
    case False
    then show ?thesis using after s1 by (auto simp: s2 split: prod.splits intro: close_balanced)
  next
    case True
    then obtain o3 srv3 nm3 s3 where l: "agent_loop pq net zl turns (http_server_init, w_now w2 + 1, b2, u2, w2) = Inr (o3, srv3, nm3, s3)"
        and k: "and_then (pw_db_buf_maintain pq (replay_line pq) s3) (\<lambda>(rc, b, u, w).
          case pw_db_buf_close pq b w of (b1, w1) \<Rightarrow> Inr (0, o3, http_server_close srv3, b1, u, w1)) = Inr (rc, out, srv, b, u, w1)"
      using after by (cases "agent_loop pq net zl turns (http_server_init, w_now w2 + 1, b2, u2, w2)") (auto simp: s2)
    obtain rc4 b4 u4 w4 where m: "pw_db_buf_maintain pq (replay_line pq) s3 = Inr (rc4, b4, u4, w4)"
      using k by (cases "pw_db_buf_maintain pq (replay_line pq) s3") auto
    have c: "pw_db_buf_close pq b4 w4 = (b, w1)" "u4 = u"
      using k by (simp_all add: m split: prod.splits)
    have "balanced ?old path s3" using agent_loop_balanced[OF _ l] s1 s2 by simp
    then have "balanced ?old path (b4, u4, w4)" using m by (cases s3) (auto intro: maintain_balanced)
    with c show ?thesis by (auto intro: close_balanced)
  qed
  then show ?thesis by (auto simp: balanced_def ledger_def)
qed

text \<open>A daemon whose database stays away: it finds one record, gets one process sample over two segments and exits.\<close>

definition crash_world :: "cstring list world" where
  "crash_world = mem_world\<lparr>w_files := (\<lambda>p. if p = lit ''/var/tmp/procwatch/agentd.ndjson'' then Some (lit ''{}'' @ [0x0a]) else None)\<rparr>"

definition quiet_turn :: tick_input where
  "quiet_turn = \<lparr>ti_poll_rc = 1, ti_listen_ready = False, ti_accepted = [], ti_hup = (\<lambda>fd. False),
     ti_readable = (\<lambda>fd. fd = 5), ti_recv = (\<lambda>fd. RecvAgain), ti_now = 101\<rparr>"

definition sample_post :: "byte list" where
  "sample_post = lit ''POST /v1/procmetrics HTTP/1.1'' @ http_crlf @ lit ''Content-Length: 25'' @ http_crlf @ http_crlf @
     qlit ''{`label`:`web`,`pid`:`7`}''"

definition sample_turns :: "tick_input list" where
  "sample_turns = [accept_input, quiet_turn\<lparr>ti_recv := (\<lambda>fd. RecvBytes (take 40 sample_post))\<rparr>,
     quiet_turn\<lparr>ti_recv := (\<lambda>fd. RecvBytes (drop 40 sample_post))\<rparr>]"

section \<open>A database that stays away\<close>

definition away :: "'d libpq \<Rightarrow> bool" where
  "away pq \<longleftrightarrow> (\<forall>c d. \<not> pq_status_ok pq c d)"

definition off :: "'d agent \<Rightarrow> bool" where
  "off = (\<lambda>(b, u, w). \<not> db_online b)"

interpretation off_handler: answering_handler "on_request pq net" off for pq net
proof
  fix s :: "'a agent" and req rc s1
  obtain b u w where s: "s = (b, u, w)" by (cases s)
  show "off s \<Longrightarrow> \<exists>rc s1. on_request pq net req s = Inr (rc, s1)"
    using offline_returns[of b pq net req u w] by (auto simp: s off_def)
  show "off s \<Longrightarrow> on_request pq net req s = Inr (rc, s1) \<Longrightarrow> off s1"
    using offline_returns[of b pq net req u w] by (auto simp: s off_def)
qed

lemma maintain_away:
  assumes "away pq"
  obtains b1 w1 where "pw_db_buf_maintain pq fn (b, u, w) = Inr (0, b1, u, w1)" "\<not> db_online b1"
proof -
  obtain ok b1 w1 where e: "pw_db_buf_ensure pq b w = (ok, b1, w1)" by (cases "pw_db_buf_ensure pq b w") auto
  with assms have "\<not> ok" "\<not> db_online b1"
    by (auto simp: pw_db_buf_ensure_def conn_ok_def away_def db_reconnect_def Let_def split: option.splits if_splits prod.splits)
  with e show ?thesis by (intro that[of b1 w1]) (simp_all add: pw_db_buf_maintain_def)
qed

lemma start_away:
  assumes "away pq"
  shows "\<exists>s. agent_start pq conninfo schema tempo prometheus hk w = Inr s \<and> off s"
proof -
  obtain b w1 where init: "pw_db_buf_init pq (Some conninfo) None (Some (lit ''agentd.ndjson'')) w = (b, w1)"
    by (cases "pw_db_buf_init pq (Some conninfo) None (Some (lit ''agentd.ndjson'')) w") auto
  with assms have "\<not> db_online b"
    by (auto simp: pw_db_buf_init_def conn_ok_def away_def Let_def split: prod.splits option.splits)
  with init show ?thesis by (simp add: agent_start_def off_def)
qed

lemma turn_away:
  assumes "away pq" "off s"
  shows "\<exists>out srv1 nm1 s1. agent_turn pq net zl ti (srv, nm, s) = Inr (out, srv1, nm1, s1) \<and> off s1"
proof -
  obtain b u w where s: "s = (b, u, w)" by (cases s)
  have off: "off (b, u, w\<lparr>w_now := ti_now ti\<rparr>)" using assms(2) by (simp add: s off_def)
  obtain n srv1 out b1 u1 w1 where t: "http_server_tick zl (on_request pq net) ti srv (b, u, w\<lparr>w_now := ti_now ti\<rparr>) = Inr (n, srv1, out, b1, u1, w1)"
    using off_handler.tick_answers[OF off] by fastforce
  have "\<not> db_online b1" using off_handler.tick_keeps[OF off t] by (simp add: off_def)
  obtain b2 w2 where m: "pw_db_buf_maintain pq (replay_line pq) (b1, u1, w1) = Inr (0, b2, u1, w2)" "\<not> db_online b2"
    by (rule maintain_away[OF assms(1)])
  show ?thesis
    using t m \<open>\<not> db_online b1\<close> by (simp add: s agent_turn_def agent_maintain_def off_def Let_def)
qed

lemma loop_away:
  "away pq \<Longrightarrow> off s \<Longrightarrow> \<exists>out srv1 nm1 s1. agent_loop pq net zl turns (srv, nm, s) = Inr (out, srv1, nm1, s1) \<and> off s1"
proof (induction turns arbitrary: srv nm s)
  case (Cons ti turns)
  obtain o1 srv1 nm1 s1 where t: "agent_turn pq net zl ti (srv, nm, s) = Inr (o1, srv1, nm1, s1)" "off s1"
    using turn_away[OF Cons.prems] by blast
  with Cons.IH[OF Cons.prems(1) t(2), of srv1 nm1] show ?case by auto
qed simp

lemma run_away:
  assumes "away pq"
  shows "\<exists>out srv b u w1. agent_run pq net zl cf True turns w = Inr (0, out, srv, b, u, w1) \<and> \<not> db_online b"
proof -
  let ?hk = "db_set_housekeeping (cf_retention cf) (cf_inactive cf) housekeeping_init"
  obtain b u w1 where start: "agent_start pq (cf_conninfo cf) (cf_schema cf) (cf_tempo cf) (cf_prometheus cf) ?hk w = Inr (b, u, w1)" "off (b, u, w1)"
    using start_away[OF assms] by (metis prod_cases3)
  obtain o2 srv2 nm2 b2 u2 w2 where l: "agent_loop pq net zl turns (http_server_init, w_now w1 + 1, b, u, w1) = Inr (o2, srv2, nm2, b2, u2, w2)"
    using loop_away[OF assms start(2)] by (metis prod_cases3)
  obtain b3 w3 where m: "pw_db_buf_maintain pq (replay_line pq) (b2, u2, w2) = Inr (0, b3, u2, w3)"
    by (rule maintain_away[OF assms])
  obtain b4 w4 where c: "pw_db_buf_close pq b3 w3 = (b4, w4)" "\<not> db_online b4"
    by (cases "db_conn b3") (simp_all add: pw_db_buf_close_def)
  show ?thesis
    by (simp add: agent_run_def start(1) l m c)
qed

lemma down_away: "away down_pq"
  by (simp add: away_def down_pq_def mem_pq_def)



theorem run_conserves_records_witness:
  "\<exists>cf out srv b u w1. agent_config_of (\<lambda>n. None) [] = Inr cf \<and>
     agent_run down_pq mem_net null_zlib cf True sample_turns crash_world = Inr (0, out, srv, b, u, w1) \<and>
     1 + db_spilled b = db_flushed b + of_nat (length (records (file_content (lit ''/var/tmp/procwatch/agentd.ndjson'') w1)))"
proof -
  let ?p = "lit ''/var/tmp/procwatch/agentd.ndjson''"
  have "case agent_config_of (\<lambda>n. None) [] of Inl rc \<Rightarrow> False | Inr cf \<Rightarrow> True"
    by code_simp
  then obtain cf where cf: "agent_config_of (\<lambda>n. None) [] = Inr cf"
    by (auto split: sum.splits)
  obtain out srv b u w1 where run: "agent_run down_pq mem_net null_zlib cf True sample_turns crash_world = Inr (0, out, srv, b, u, w1)"
    using run_away[OF down_away] by blast
  have start: "w_faults crash_world = []" "?p = spill_path_of None (Some (lit ''agentd.ndjson'')) crash_world"
      "nl_ok (file_content ?p crash_world)" "0 \<notin> set (file_content ?p crash_world)"
      "length (records (file_content ?p crash_world)) = 1"
    by code_simp+
  show ?thesis
    using cf run run_conserves_records[OF cf run start(1-4)] start(5) by auto
qed

end
