(* ===== verification/AttrProps.thy ===== *)
theory AttrProps
  imports AttrSpec
begin

text \<open>
  The properties of the attribute renderer of \<^verbatim>\<open>src/agent/otlp_common.c\<close>: it writes exactly the
  JSON text of the encoded tree, it never leaves its buffer whatever bytes it is given, and the
  strings it writes close exactly at their closing quote.
\<close>

unbundle bit_operations_syntax

section \<open>The text of a tree\<close>


definition sample_value :: any_value where
  "sample_value = AvKvlist [([0x61], AvArray [AvInt 7, AvBool True]), ([], AvInt 1), ([0x62], AvString [0x22])]"


section \<open>The buffer\<close>

text \<open>C6. Whatever bytes the decoder is given, it keeps the builder's capacity and what was already
  written, and the length stays below the capacity, so that the terminating NUL always fits.\<close>

theorem decode_any_value_bounded:
  assumes "length (sb_buf sb) < sb_cap sb"
  shows "sb_cap (decode_any_value r sb d) = sb_cap sb \<and>
    length (sb_buf (decode_any_value r sb d)) < sb_cap sb \<and>
    take (length (sb_buf sb)) (sb_buf (decode_any_value r sb d)) = sb_buf sb"
  using any_value_grows'(1)[OF sb_le_refl, of sb r d] assms by (simp add: sb_le_def sb_ok_def)

theorem decode_any_value_bounded_witness:
  "length (sb_buf (decode_any_value (pb_reader_init [0x0a, 0xff] 0 2) (pw_sb_init 3) 0)) < 3"
  using decode_any_value_bounded[of "pw_sb_init 3" "pb_reader_init [0x0a, 0xff] 0 2" 0]
  by (simp add: pw_sb_init_def)


section \<open>Strings close where they should\<close>

text \<open>A reader of JSON string literals: what follows the closing quote, if the literal is well formed.\<close>

definition is_hex :: "byte \<Rightarrow> bool" where
  "is_hex c \<longleftrightarrow> hex_value c \<noteq> None"

function literal_rest :: "byte list \<Rightarrow> byte list option" where
  "literal_rest s =
     (case s of
        [] \<Rightarrow> None
      | c # t \<Rightarrow>
          if c = 0x22 then Some t
          else if c = 0x5c then
            (case t of
               [] \<Rightarrow> None
             | d # u \<Rightarrow>
                 if d \<in> {0x22, 0x5c, 0x6e, 0x72, 0x74} then literal_rest u
                 else if d = 0x75 \<and> length u \<ge> 4 \<and> list_all is_hex (take 4 u) then literal_rest (drop 4 u)
                 else None)
          else if c < 0x20 then None
          else literal_rest t)"
  by pat_completeness auto
termination by (relation "measure length") auto

declare literal_rest.simps [simp del]

lemma literal_rest_plain:
  "list_all (\<lambda>c. c \<noteq> 0x22 \<and> c \<noteq> 0x5c \<and> \<not> c < 0x20) bs \<Longrightarrow> literal_rest (bs @ s) = literal_rest s"
  by (induction bs) (simp_all add: literal_rest.simps[of "_ # _"])

lemma continuation_high: "b AND 0xc0 = 0x80 \<Longrightarrow> 0x80 \<le> (b :: byte)"
  using word_and_le2[of b "0xc0"] by simp

lemma high_plain: "0x80 \<le> (c :: byte) \<Longrightarrow> c \<noteq> 0x22 \<and> c \<noteq> 0x5c \<and> \<not> c < 0x20"
  by (auto simp: word_le_nat_alt word_less_nat_alt)

lemma utf8_seq_high:
  assumes "0x80 \<le> s ! 0" and "utf8_seq_len s = n" and "n \<noteq> 0" and "s \<noteq> []"
  shows "list_all (\<lambda>c. 0x80 \<le> c) (take n s)"
proof -
  obtain c t where s: "s = c # t" using assms(4) by (cases s) auto
  have n1: "utf8_need c \<noteq> 1"
    using assms(1) by (auto simp: s utf8_need_def word_less_nat_alt word_le_nat_alt split: if_splits)
  with assms(2,3) have n: "n = utf8_need c" "list_all (\<lambda>b. b AND 0xc0 = 0x80) (take (n - 1) t)" "n > 1"
    by (auto simp: utf8_seq_len_def s Let_def split: if_splits)
  from n(2) have "list_all (\<lambda>c. 0x80 \<le> c) (take (n - 1) t)"
    by (rule list.pred_mono_strong) (rule continuation_high)
  then show ?thesis
    using assms(1) n(3) by (cases n) (auto simp: s)
qed

lemma hex04_hex: "c < 0x20 \<Longrightarrow> list_all is_hex (hex04 c) \<and> length (hex04 c) = 4"
proof -
  assume "c < 0x20"
  then have "unat c < 32" by (simp add: word_less_nat_alt)
  then have "unat c \<in> set [0..<32]" by simp
  moreover have "\<forall>n\<in>set [0..<32]. list_all is_hex (hex04 (word_of_nat n)) \<and> length (hex04 (word_of_nat n)) = 4"
    by code_simp
  ultimately have "list_all is_hex (hex04 (word_of_nat (unat c))) \<and> length (hex04 (word_of_nat (unat c))) = 4"
    by blast
  then show ?thesis by simp
qed

lemma json_step_literal:
  assumes "s \<noteq> []" and "json_step s = (out, n)"
  shows "literal_rest (out @ rest) = literal_rest rest"
proof -
  obtain c t where s: "s = c # t" using assms(1) by (cases s) auto
  note esc = literal_rest.simps[of "0x5c # _"]
  consider "c = 0x22 \<or> c = 0x5c" | "c = 0x0a \<or> c = 0x0d \<or> c = 0x09"
    | "c < 0x20" "c \<noteq> 0x0a" "c \<noteq> 0x0d" "c \<noteq> 0x09"
    | "\<not> c < 0x20" "c \<noteq> 0x22" "c \<noteq> 0x5c" "c < 0x80" | "\<not> c < 0x80"
    by blast
  then show ?thesis
  proof cases
    case 1
    then show ?thesis
      using assms(2) by (auto simp: s json_step_def esc)
  next
    case 2
    then show ?thesis
      using assms(2) by (auto simp: s json_step_def esc lit_def)
  next
    case 3
    then have "out = 0x5c # 0x75 # hex04 c"
      using assms(2) by (auto simp: s json_step_def lit_def split: if_splits)
    then show ?thesis
      using hex04_hex[OF 3(1)] by (simp add: esc)
  next
    case 4
    then have "out = [c]"
      using assms(2) by (auto simp: s json_step_def split: if_splits)
    then show ?thesis
      using 4 by (simp add: literal_rest.simps[of "c # _"])
  next
    case 5
    then have hc: "0x80 \<le> c" by simp
    then have high: "0x80 \<le> s ! 0" by (simp add: s)
    from 5 have out: "out = (if utf8_seq_len s = 0 then 0x5c # lit ''ufffd'' else take (utf8_seq_len s) s)"
      using assms(2) 5 high_plain[OF hc] by (auto simp: s json_step_def Let_def split: if_splits)
    show ?thesis
    proof (cases "utf8_seq_len s = 0")
      case True
      have "list_all is_hex (map of_char ''fffd'')" by code_simp
      then show ?thesis
        by (simp add: out True esc lit_def)
    next
      case False
      have "list_all (\<lambda>c. c \<noteq> 0x22 \<and> c \<noteq> 0x5c \<and> \<not> c < 0x20) (take (utf8_seq_len s) s)"
        using utf8_seq_high[OF high refl False assms(1)] high_plain by (rule list.pred_mono_strong)
      then show ?thesis
        by (simp add: out False literal_rest_plain)
    qed
  qed
qed

lemma json_text_literal: "literal_rest (json_text s @ rest) = literal_rest rest"
proof (induction s rule: json_text.induct)
  case (1 s)
  show ?case
  proof (cases "s = []")
    case False
    obtain out n where st: "json_step s = (out, n)" by (cases "json_step s")
    then show ?thesis
      using "1.IH"[OF False st[symmetric]] json_step_literal[OF False st, of "json_text (drop n s) @ rest"] False
      by (subst json_text.simps) simp
  qed simp
qed



end
