(* ===== verification/InjectProps.thy ===== *)
theory InjectProps
  imports Inject
begin

text \<open>
  The preload library's edits of the environment: what \<open>set_resource_attr\<close> does to the list of resource attributes,
  that a second run of the constructor in a re-executed image changes nothing but the process key, what
  survives an \<^verbatim>\<open>exec\<close> with a rebuilt environment, and when the constructor keeps its hands off.
\<close>

section \<open>Comma-separated lists\<close>

fun split_commas :: "cstring \<Rightarrow> cstring list" where
  "split_commas [] = [[]]"
| "split_commas (c # s) =
     (if c = 0x2c then [] # split_commas s else (c # hd (split_commas s)) # tl (split_commas s))"

lemma split_commas_ne [simp]: "split_commas s \<noteq> []"
  by (cases s) auto

lemma split_commas_append: "split_commas (a @ 0x2c # b) = split_commas a @ split_commas b"
  by (induction a) auto

lemma split_commas_plain: "0x2c \<notin> set s \<Longrightarrow> split_commas s = [s]"
  by (induction s) auto

text \<open>The attributes of a list: its segments that are not empty.\<close>

definition segs :: "cstring \<Rightarrow> cstring list" where
  "segs s = filter (\<lambda>x. x \<noteq> []) (split_commas s)"

lemma segs_Nil [simp]: "segs [] = []"
  by (simp add: segs_def)

lemma segs_append: "segs (a @ 0x2c # b) = segs a @ segs b"
  by (simp add: segs_def split_commas_append)

lemma segs_plain: "0x2c \<notin> set s \<Longrightarrow> segs s = (if s = [] then [] else [s])"
  by (simp add: segs_def split_commas_plain)

text \<open>Replace the values of a key, or add the key at the end.\<close>

definition upsert :: "cstring \<Rightarrow> cstring \<Rightarrow> cstring list \<Rightarrow> cstring list" where
  "upsert key v ss =
     (let kv = key @ 0x3d # v; target = is_prefix (key @ [0x3d]);
          ss1 = map (\<lambda>s. if target s then kv else s) ss
      in if list_ex target ss then ss1 else ss1 @ [kv])"

section \<open>The loop over the segments\<close>

lemma put_segment_segs:
  assumes "put_segment buf seg = Some b" "0x2c \<notin> set seg"
  shows "segs b = segs buf @ segs seg"
  using assms segs_append[of buf seg] by (auto simp: put_segment_def Let_def split: if_splits)

lemma put_segment_length: "put_segment buf seg = Some b \<Longrightarrow> length b \<le> length buf + 1 + length seg"
  by (auto simp: put_segment_def Let_def split: if_splits)

lemma put_segment_fits: "length buf + 1 + length seg < 8192 \<Longrightarrow> put_segment buf seg \<noteq> None"
  by (auto simp: put_segment_def Let_def)

lemma is_prefix_length: "is_prefix p s \<Longrightarrow> length p \<le> length s"
  by (auto simp: is_prefix_iff)

lemma target_segment: "length keyeq \<le> length s \<and> is_prefix keyeq (s @ u) \<longleftrightarrow> is_prefix keyeq s"
  using is_prefix_length[of keyeq s] by (auto simp: is_prefix_def)

lemma segment_loop_step:
  assumes "0x2c \<notin> set s"
  shows "segment_loop kv keyeq (s @ 0x2c # u) buf rep =
      (case put_segment buf (if is_prefix keyeq s then kv else s) of
         None \<Rightarrow> None
       | Some buf1 \<Rightarrow> segment_loop kv keyeq u buf1 (rep \<or> is_prefix keyeq s))"
    and "s \<noteq> [] \<Longrightarrow> segment_loop kv keyeq s buf rep =
      (case put_segment buf (if is_prefix keyeq s then kv else s) of
         None \<Rightarrow> None
       | Some buf1 \<Rightarrow> Some (buf1, rep \<or> is_prefix keyeq s))"
  using assms strchr_split[of "0x2c" s u] strchr_None[of s "0x2c"] target_segment[of keyeq s "0x2c # u"]
    target_segment[of keyeq s "[]"]
  by (simp_all add: segment_loop.simps[of _ _ "s @ 0x2c # u"] segment_loop.simps[of _ _ s] split: option.split)

text \<open>Segments as an induction.\<close>

lemma segments_induct [case_names Empty Last Step]:
  assumes "P []" "\<And>s. s \<noteq> [] \<Longrightarrow> 0x2c \<notin> set s \<Longrightarrow> P s" "\<And>s u. 0x2c \<notin> set s \<Longrightarrow> P u \<Longrightarrow> P (s @ 0x2c # u)"
  shows "P (p :: cstring)"
proof (induction "length p" arbitrary: p rule: less_induct)
  case less
  show ?case
  proof (cases "0x2c \<in> set p")
    case True
    then obtain s u where "p = s @ 0x2c # u" "0x2c \<notin> set s"
      by (meson split_list_first)
    then show ?thesis using assms(3) less by simp
  next
    case False
    then show ?thesis using assms(1,2) by (cases "p = []") auto
  qed
qed

lemma segment_loop_segs:
  assumes kv: "kv \<noteq> []" "0x2c \<notin> set kv" and key: "keyeq \<noteq> []"
  shows "segment_loop kv keyeq p buf rep = Some (b, r) \<Longrightarrow>
    segs b = segs buf @ map (\<lambda>s. if is_prefix keyeq s then kv else s) (segs p) \<and>
    (r \<longleftrightarrow> rep \<or> list_ex (is_prefix keyeq) (segs p))"
proof (induction p arbitrary: buf rep rule: segments_induct)
  case Empty
  then show ?case by (simp add: segment_loop.simps)
next
  case (Last s)
  then obtain b1 where "put_segment buf (if is_prefix keyeq s then kv else s) = Some b1" "b = b1" "r = (rep \<or> is_prefix keyeq s)"
    by (auto simp: segment_loop_step split: option.splits)
  then show ?case
    using Last kv put_segment_segs[of buf "if is_prefix keyeq s then kv else s" b1] by (auto simp: segs_plain)
next
  case (Step s u)
  from Step.prems Step.hyps obtain b1 where b1: "put_segment buf (if is_prefix keyeq s then kv else s) = Some b1"
    and rest: "segment_loop kv keyeq u b1 (rep \<or> is_prefix keyeq s) = Some (b, r)"
    by (auto simp: segment_loop_step split: option.splits)
  have "segs b1 = segs buf @ map (\<lambda>s. if is_prefix keyeq s then kv else s) (segs s)"
    using b1 kv key Step.hyps put_segment_segs[OF b1] by (auto simp: segs_plain is_prefix_def)
  moreover have "is_prefix keyeq s \<longleftrightarrow> list_ex (is_prefix keyeq) (segs s)"
    using Step.hyps key by (auto simp: segs_plain is_prefix_def)
  ultimately show ?case
    using Step.IH[OF rest] by (auto simp: segs_append)
qed

lemma segment_loop_fits:
  "length buf + 1 + length p + (if list_ex (is_prefix keyeq) (segs p) then length kv else 0) < 8192 \<Longrightarrow>
   length (filter (is_prefix keyeq) (segs p)) \<le> 1 \<Longrightarrow> keyeq \<noteq> [] \<Longrightarrow>
   \<exists>b r. segment_loop kv keyeq p buf rep = Some (b, r) \<and>
     length b \<le> length buf + 1 + length p + (if list_ex (is_prefix keyeq) (segs p) then length kv else 0)"
proof (induction p arbitrary: buf rep rule: segments_induct)
  case Empty
  then show ?case by (simp add: segment_loop.simps)
next
  case (Last s)
  let ?o = "if is_prefix keyeq s then kv else s"
  have "length buf + 1 + length ?o \<le> length buf + 1 + length s + (if list_ex (is_prefix keyeq) (segs s) then length kv else 0)"
    using Last.hyps by (simp add: segs_plain)
  moreover from this obtain b where "put_segment buf ?o = Some b"
    using put_segment_fits[of buf ?o] Last.prems by fastforce
  ultimately show ?case
    using Last.hyps put_segment_length[of buf ?o b] by (simp add: segment_loop_step)
next
  case (Step s u)
  let ?o = "if is_prefix keyeq s then kv else s"
  let ?n = "\<lambda>p. if list_ex (is_prefix keyeq) (segs p) then length kv else 0"
  have ex: "list_ex (is_prefix keyeq) (segs s) \<longleftrightarrow> is_prefix keyeq s"
    using Step.hyps Step.prems(3) by (auto simp: segs_plain is_prefix_def)
  have one: "\<not> list_ex (is_prefix keyeq) (segs u)" if "is_prefix keyeq s"
  proof -
    have "0 < length (filter (is_prefix keyeq) (segs s))"
      using that ex by (auto simp: list_ex_iff filter_empty_conv)
    then have "length (filter (is_prefix keyeq) (segs u)) = 0"
      using Step.prems(2) unfolding segs_append filter_append length_append by linarith
    then show ?thesis by (auto simp: list_ex_iff filter_empty_conv)
  qed
  have len: "length buf + 1 + length ?o + 1 + length u + ?n u \<le> length buf + 1 + length (s @ 0x2c # u) + ?n (s @ 0x2c # u)"
    using one ex by (auto simp: segs_append)
  obtain b1 where b1: "put_segment buf ?o = Some b1"
    using put_segment_fits[of buf ?o] Step.prems(1) len by fastforce
  have "length b1 + 1 + length u + ?n u \<le> length buf + 1 + length (s @ 0x2c # u) + ?n (s @ 0x2c # u)"
    using put_segment_length[OF b1] len by linarith
  moreover have "length (filter (is_prefix keyeq) (segs u)) \<le> 1"
    using Step.prems(2) by (simp add: segs_append)
  ultimately obtain b r where
    "segment_loop kv keyeq u b1 (rep \<or> is_prefix keyeq s) = Some (b, r)" "length b \<le> length b1 + 1 + length u + ?n u"
    using Step.IH[of b1 "rep \<or> is_prefix keyeq s"] Step.prems(1,3) by fastforce
  moreover have "segment_loop kv keyeq (s @ 0x2c # u) buf rep = segment_loop kv keyeq u b1 (rep \<or> is_prefix keyeq s)"
    using b1 Step.hyps by (simp add: segment_loop_step)
  ultimately show ?case
    using \<open>length b1 + 1 + length u + ?n u \<le> _\<close> by (intro exI[of _ b] exI[of _ r]) simp
qed

section \<open>One attribute\<close>

definition env_attrs :: "penv \<Rightarrow> cstring" where
  "env_attrs e = (case env_get e ATTRS of None \<Rightarrow> [] | Some s \<Rightarrow> s)"

definition env_segs :: "penv \<Rightarrow> cstring list" where
  "env_segs e = segs (env_attrs e)"

definition is_attr :: "cstring \<Rightarrow> cstring \<Rightarrow> bool" where
  "is_attr key s \<longleftrightarrow> is_prefix (key @ [0x3d]) s"

lemma ATTRS_name [simp]: "env_name ATTRS"
  by code_simp

definition attr_ok :: "cstring \<Rightarrow> cstring \<Rightarrow> bool" where
  "attr_ok key v \<longleftrightarrow> 0x2c \<notin> set key \<and> 0x2c \<notin> set v \<and> length key + 1 + length v < 192 \<and> length key + 1 < 160"

text \<open>C23. Setting a resource attribute works on the list of attributes the way the comments promise: every occurrence of
  the key gets the new value in its place, a missing key is added at the end, all other attributes keep their
  order and text -- provided the list has the key at most once and the result fits the array of 8192 bytes.\<close>

theorem set_resource_attr_upserts:
  assumes "attr_ok key v" "pe_nomem e = []"
    and "length (filter (is_attr key) (env_segs e)) \<le> 1"
    and "length (env_attrs e) + length key + length v + 4 < 8192"
  shows "env_segs (set_resource_attr key v e) = upsert key v (env_segs e)"
proof (cases "blank (env_get e ATTRS)")
  case True
  then have "env_segs e = []"
    by (auto simp: env_segs_def env_attrs_def blank_def)
  moreover have "set_resource_attr key v e = snd (env_set ATTRS (key @ 0x3d # v) True e)"
    using True assms(1) by (simp add: set_resource_attr_def attr_ok_def Let_def)
  moreover have "0x2c \<notin> set (key @ 0x3d # v)"
    using assms(1) by (simp add: attr_ok_def)
  ultimately show ?thesis
    using env.put_reads[OF assms(2) ATTRS_name] by (simp add: env_segs_def env_attrs_def upsert_def segs_plain)
next
  case False
  then obtain cur where cur: "env_get e ATTRS = Some cur" "cur \<noteq> []"
    by (cases "env_get e ATTRS") (auto simp: blank_def)
  let ?kv = "key @ 0x3d # v" and ?k = "key @ [0x3d]"
  have kv: "?kv \<noteq> []" "0x2c \<notin> set ?kv" "?k \<noteq> []" and short: "length ?kv < 192" "length ?k < 160"
    using assms(1) by (simp_all add: attr_ok_def)
  have segs: "env_segs e = segs cur"
    using cur by (simp add: env_segs_def env_attrs_def)
  have room: "length cur + length ?kv + 3 < 8192" and one: "length (filter (is_prefix ?k) (segs cur)) \<le> 1"
    using assms(3,4) cur segs by (simp_all add: is_attr_def[abs_def] env_attrs_def)
  have "length ([] :: byte list) + 1 + length cur + (if list_ex (is_prefix ?k) (segs cur) then length ?kv else 0) < 8192"
    using room by simp
  from segment_loop_fits[OF this one kv(3), of False] obtain b r where
    loop: "segment_loop ?kv ?k cur [] False = Some (b, r)"
    and b: "length b \<le> 1 + length cur + (if list_ex (is_prefix ?k) (segs cur) then length ?kv else 0)"
    by auto
  note out = segment_loop_segs[OF kv loop]
  have set_it: "env_segs (snd (env_set ATTRS x True e)) = segs x" for x
    using env.put_reads[OF assms(2) ATTRS_name, of x] by (simp add: env_segs_def env_attrs_def)
  show ?thesis
  proof (cases r)
    case True
    then show ?thesis
      using out loop cur short by (simp add: set_resource_attr_def blank_def Let_def set_it segs upsert_def)
  next
    case False
    then obtain b1 where b1: "put_segment b ?kv = Some b1"
      using out b room put_segment_fits[of b ?kv] by fastforce
    then have "set_resource_attr key v e = snd (env_set ATTRS b1 True e)"
      using False loop cur short by (simp add: set_resource_attr_def blank_def Let_def)
    then show ?thesis
      using False out put_segment_segs[OF b1 kv(2)] kv by (simp add: set_it segs upsert_def segs_plain Let_def)
  qed
qed

definition sample_env :: penv where
  "sample_env = \<lparr>pe_vars = [lit ''PROCWATCH_LABEL=web'', lit ''OTEL_RESOURCE_ATTRIBUTES=a=1,,pid=3,b=2''], pe_nomem = []\<rparr>"

theorem set_resource_attr_upserts_witness:
  "env_segs (set_resource_attr (lit ''pid'') (lit ''77'') sample_env) = [lit ''a=1'', lit ''pid=77'', lit ''b=2'']"
proof -
  have "attr_ok (lit ''pid'') (lit ''77'')" "pe_nomem sample_env = []"
    "length (filter (is_attr (lit ''pid'')) (env_segs sample_env)) \<le> 1"
    "length (env_attrs sample_env) + length (lit ''pid'') + length (lit ''77'') + 4 < 8192"
    "upsert (lit ''pid'') (lit ''77'') (env_segs sample_env) = [lit ''a=1'', lit ''pid=77'', lit ''b=2'']"
    by code_simp+
  then show ?thesis
    using set_resource_attr_upserts[of "lit ''pid''" "lit ''77''" sample_env] by simp
qed

section \<open>Surviving an exec\<close>

lemma KEEP_KEYS_names: "list_all env_name KEEP_KEYS"
  by code_simp

lemma env_has_key_lookup: "env_has_key envp key \<longleftrightarrow> env_lookup key (case envp of None \<Rightarrow> [] | Some es \<Rightarrow> es) \<noteq> None"
proof -
  have "list_ex (\<lambda>e. entry_value key e \<noteq> None) es \<longleftrightarrow> env_lookup key es \<noteq> None" for es
    by (induction es) (auto split: option.splits)
  then show ?thesis by (simp add: env_has_key_def split: option.splits)
qed

lemma merge_loop_total:
  "pe_nomem e = [] \<Longrightarrow>
   merge_loop envp keys out e = (Some (out @ map (\<lambda>k. env_entry k (the (env_get e k))) (filter (to_merge e envp) keys)), e)"
  by (induction keys arbitrary: out) auto

lemma env_lookup_append: "env_lookup a (es @ fs) = (case env_lookup a es of Some v \<Rightarrow> Some v | None \<Rightarrow> env_lookup a fs)"
  by (induction es) (auto split: option.splits)

lemma env_lookup_entries:
  "env_name a \<Longrightarrow> list_all env_name keys \<Longrightarrow>
   env_lookup a (map (\<lambda>k. env_entry k (f k)) keys) = (if a \<in> set keys then Some (f a) else None)"
proof (induction keys)
  case (Cons k keys)
  then show ?case
    by (cases "a = k") (auto simp: entry_value_other)
qed simp

text \<open>The environment the real \<^verbatim>\<open>exec\<close> is called with.\<close>

definition exec_vars :: "cstring list option \<Rightarrow> penv \<Rightarrow> cstring list" where
  "exec_vars envp e =
     (case fst (merge_env envp e) of Some m \<Rightarrow> m | None \<Rightarrow> (case envp of None \<Rightarrow> [] | Some es \<Rightarrow> es))"

text \<open>C22. A program started through an interposed \<^verbatim>\<open>exec\<close> sees, for every name, the value the caller put into \<open>envp\<close>
  if there is one, else the parent's value if the name is one of the kept keys and not empty there, else nothing; the
  caller's entries come first, unchanged.\<close>

theorem exec_keeps_settings:
  assumes "pe_nomem e = []" "env_name a"
  shows "env_lookup a (exec_vars envp e) =
    (case env_lookup a (case envp of None \<Rightarrow> [] | Some es \<Rightarrow> es) of
       Some v \<Rightarrow> Some v
     | None \<Rightarrow> if a \<in> set KEEP_KEYS \<and> \<not> blank (env_get e a) then env_get e a else None) \<and>
    (\<exists>added. exec_vars envp e = (case envp of None \<Rightarrow> [] | Some es \<Rightarrow> es) @ added)"
proof -
  let ?es = "case envp of None \<Rightarrow> [] | Some es \<Rightarrow> es"
  let ?add = "map (\<lambda>k. env_entry k (the (env_get e k))) (filter (to_merge e envp) KEEP_KEYS)"
  have vars: "exec_vars envp e = ?es @ ?add"
    using merge_loop_total[OF assms(1)] assms(1)
    by (auto simp: exec_vars_def merge_env_def filter_empty_conv split: option.splits)
  have "list_all env_name (filter (to_merge e envp) KEEP_KEYS)"
    using KEEP_KEYS_names by (auto simp: list_all_iff)
  from env_lookup_entries[OF assms(2) this, of "\<lambda>k. the (env_get e k)"]
  have "env_lookup a (exec_vars envp e) =
    (case env_lookup a ?es of
       Some v \<Rightarrow> Some v
     | None \<Rightarrow> if a \<in> set KEEP_KEYS \<and> \<not> blank (env_get e a) then env_get e a else None)"
    by (auto simp: vars env_lookup_append to_merge_def env_has_key_lookup blank_def split: option.splits)
  then show ?thesis using vars by blast
qed

theorem exec_keeps_settings_witness:
  "env_lookup (lit ''PROCWATCH_LABEL'') (exec_vars (Some [lit ''PATH=/bin'']) sample_env) = Some (lit ''web'')"
proof -
  have "pe_nomem sample_env = []" "env_name (lit ''PROCWATCH_LABEL'')"
    "env_lookup (lit ''PROCWATCH_LABEL'') [lit ''PATH=/bin''] = None"
    "lit ''PROCWATCH_LABEL'' \<in> set KEEP_KEYS" "env_get sample_env (lit ''PROCWATCH_LABEL'') = Some (lit ''web'')"
    by code_simp+
  then show ?thesis
    using exec_keeps_settings[of sample_env "lit ''PROCWATCH_LABEL''" "Some [lit ''PATH=/bin'']"]
    by (simp add: blank_def lit_def)
qed

section \<open>The constructor\<close>

text \<open>C24. The constructor leaves the environment alone, does not arm the metric thread and so starts none, when it is
  disabled, when the process runs with other rights than its user's, or when there is no valid label.\<close>

theorem constructor_stays_out:
  assumes "pw_init im (inject_init, e) = (st, e1)"
    and "\<not> blank (env_get e (lit ''PROCWATCH_INJECT_DISABLED'')) \<and> env_get e (lit ''PROCWATCH_INJECT_DISABLED'') \<noteq> Some (lit ''0'') \<or>
      im_euid im \<noteq> im_uid im \<or> im_egid im \<noteq> im_gid im \<or> \<not> pw_label_valid (env_get e (lit ''PROCWATCH_LABEL''))"
  shows "e1 = e \<and> \<not> in_armed st \<and> libc_start_main d a c e1 st = (None, st)"
proof -
  have "e1 = e" "\<not> in_armed st"
    using assms by (auto simp: pw_init_def inject_init_def Let_def pw_resolve_label_def blank_def split: if_splits pw_runtime.splits)
  then show ?thesis by (simp add: libc_start_main_def)
qed

definition sample_image :: image where
  "sample_image = \<lparr>im_execfn = Some (lit ''/usr/bin/java''), im_cmdline = None, im_dlsym = None, im_exists = (\<lambda>p. True),
     im_uid = 1, im_euid = 1, im_gid = 1, im_egid = 1, im_pid = 7,
     im_time = \<lparr>tm_year = 2026, tm_mon = 1, tm_mday = 2, tm_hour = 3, tm_min = 4, tm_sec = 5\<rparr>\<rparr>"

theorem constructor_stays_out_witness:
  "libc_start_main True True True sample_env (fst (pw_init (sample_image\<lparr>im_euid := 0\<rparr>) (inject_init, sample_env))) =
   (None, fst (pw_init (sample_image\<lparr>im_euid := 0\<rparr>) (inject_init, sample_env)))"
proof -
  let ?im = "sample_image\<lparr>im_euid := 0\<rparr>"
  have "pw_init ?im (inject_init, sample_env) = (fst (pw_init ?im (inject_init, sample_env)), snd (pw_init ?im (inject_init, sample_env)))"
    by simp
  moreover have "im_euid ?im \<noteq> im_uid ?im"
    by (simp add: sample_image_def)
  ultimately have "snd (pw_init ?im (inject_init, sample_env)) = sample_env \<and>
      \<not> in_armed (fst (pw_init ?im (inject_init, sample_env))) \<and>
      libc_start_main True True True (snd (pw_init ?im (inject_init, sample_env))) (fst (pw_init ?im (inject_init, sample_env))) =
        (None, fst (pw_init ?im (inject_init, sample_env)))"
    using constructor_stays_out[of ?im sample_env] by blast
  then show ?thesis by metis
qed

section \<open>A second run of the constructor\<close>

lemma env_get_put:
  "pe_nomem e = [] \<Longrightarrow> env_name n \<Longrightarrow> env_name x \<Longrightarrow>
   env_get (snd (env_set n v True e)) x = (if x = n then Some v else env_get e x)"
  using env.put_reads env.put_other by auto

lemma env_get_default:
  "pe_nomem e = [] \<Longrightarrow> env_name n \<Longrightarrow> env_name x \<Longrightarrow>
   env_get (snd (env_set n v False e)) x =
     (if x = n then Some (case env_get e n of Some v0 \<Rightarrow> v0 | None \<Rightarrow> v) else env_get e x)"
  using env.put_default_total env.put_other by auto

lemma var_names [simp]:
  "env_name (lit ''OTEL_SERVICE_NAME'')" "env_name (lit ''PROCWATCH_SERVICE'')" "env_name (lit ''PROCWATCH_ENDPOINT'')"
  "env_name (lit ''OTEL_EXPORTER_OTLP_ENDPOINT'')" "env_name (lit ''OTEL_EXPORTER_OTLP_PROTOCOL'')"
  "env_name (lit ''OTEL_TRACES_EXPORTER'')" "env_name (lit ''OTEL_METRICS_EXPORTER'')" "env_name (lit ''OTEL_LOGS_EXPORTER'')"
  "env_name (lit ''JAVA_TOOL_OPTIONS'')" "env_name (lit ''PYTHONPATH'')" "env_name (lit ''PROCWATCH_LABEL'')"
  "env_name (lit ''PROCWATCH_AGENT_DIR'')" "env_name (lit ''PROCWATCH_INJECT_DISABLED'')"
  "env_name (lit ''OTEL_INSTRUMENTATION_RUNTIME_TELEMETRY_ENABLED'')"
  by code_simp+

text \<open>The same values apart from the resource attributes.\<close>

definition same_vars :: "penv \<Rightarrow> penv \<Rightarrow> bool" where
  "same_vars e f \<longleftrightarrow> (\<forall>x. env_name x \<and> x \<noteq> ATTRS \<longrightarrow> env_get e x = env_get f x)"

lemma set_resource_attr_frame [simp]:
  "pe_nomem e = [] \<Longrightarrow> pe_nomem (set_resource_attr k v e) = []"
  "pe_nomem e = [] \<Longrightarrow> env_name x \<Longrightarrow> x \<noteq> ATTRS \<Longrightarrow> env_get (set_resource_attr k v e) x = env_get e x"
  by (auto simp: set_resource_attr_def Let_def env_get_put split: option.splits)

lemma attach_label_frame [simp]:
  "pe_nomem e = [] \<Longrightarrow> pe_nomem (pw_attach_label_to_otel l e) = []"
  "pe_nomem e = [] \<Longrightarrow> env_name x \<Longrightarrow> x \<noteq> ATTRS \<Longrightarrow> env_get (pw_attach_label_to_otel l e) x = env_get e x"
  by (auto simp: pw_attach_label_to_otel_def Let_def env_get_put)

definition attrs_stage :: "image \<Rightarrow> penv \<Rightarrow> penv" where
  "attrs_stage im e = pw_attach_pid_key_to_otel im
     (case pw_resolve_label e of None \<Rightarrow> e | Some label \<Rightarrow> pw_attach_label_to_otel (Some label) e)"

lemma attrs_stage_frame [simp]:
  "pe_nomem e = [] \<Longrightarrow> pe_nomem (attrs_stage im e) = []"
  "pe_nomem e = [] \<Longrightarrow> env_name x \<Longrightarrow> x \<noteq> ATTRS \<Longrightarrow> env_get (attrs_stage im e) x = env_get e x"
  by (auto simp: attrs_stage_def pw_attach_pid_key_to_otel_def Let_def split: option.splits)

lemma ATTRS_other [simp]: "lit s = ATTRS \<longleftrightarrow> s = ''OTEL_RESOURCE_ATTRIBUTES''"
  by (simp add: ATTRS_def)

lemma resolve_service_frame [simp]: "pe_nomem e = [] \<Longrightarrow> resolve_service_name im (attrs_stage im e) = resolve_service_name im e"
  by (simp add: resolve_service_name_def)

lemma resolve_service_ne: "resolve_service_name im e \<noteq> []"
  by (auto simp: resolve_service_name_def blank_def lit_def)

text \<open>What can be read after \<open>pw_apply_common\<close>.\<close>

lemma common_get:
  assumes "pe_nomem e = []" "env_name x" "x \<noteq> ATTRS"
  shows "env_get (pw_apply_common im e) x =
    (if x = lit ''PROCWATCH_SERVICE'' then Some (resolve_service_name im e)
     else if x = lit ''OTEL_SERVICE_NAME'' then
       Some (case env_get e x of Some v \<Rightarrow> v | None \<Rightarrow> resolve_service_name im e)
     else if x = lit ''OTEL_EXPORTER_OTLP_ENDPOINT'' then
       Some (case env_get e x of Some v \<Rightarrow> v | None \<Rightarrow> env_endpoint (env_get e))
     else if x = lit ''OTEL_EXPORTER_OTLP_PROTOCOL'' then
       Some (case env_get e x of Some v \<Rightarrow> v | None \<Rightarrow> lit ''http/protobuf'')
     else if x \<in> {lit ''OTEL_TRACES_EXPORTER'', lit ''OTEL_METRICS_EXPORTER'', lit ''OTEL_LOGS_EXPORTER''} then
       Some (case env_get e x of Some v \<Rightarrow> v | None \<Rightarrow> lit ''otlp'')
     else env_get e x)"
  using assms
  by (auto simp: pw_apply_common_def attrs_stage_def[symmetric] Let_def pw_env_set_default_def env_get_default
      env_get_put env_endpoint_def cong: option.case_cong)

lemma common_nomem: "pe_nomem e = [] \<Longrightarrow> pe_nomem (pw_apply_common im e) = []"
  by (simp add: pw_apply_common_def attrs_stage_def[symmetric] Let_def pw_env_set_default_def)

definition settled :: "image \<Rightarrow> penv \<Rightarrow> bool" where
  "settled im e \<longleftrightarrow>
     env_get e (lit ''PROCWATCH_SERVICE'') = Some (resolve_service_name im e) \<and>
     list_all (\<lambda>n. env_get e n \<noteq> None) (map lit [''OTEL_SERVICE_NAME'', ''OTEL_EXPORTER_OTLP_ENDPOINT'',
       ''OTEL_EXPORTER_OTLP_PROTOCOL'', ''OTEL_TRACES_EXPORTER'', ''OTEL_METRICS_EXPORTER'', ''OTEL_LOGS_EXPORTER''])"

lemma common_settles:
  assumes "pe_nomem e = []"
  shows "settled im (pw_apply_common im e)"
proof -
  have "resolve_service_name im (pw_apply_common im e) = resolve_service_name im e"
    using resolve_service_ne[of im e]
    by (auto simp: resolve_service_name_def[of im "pw_apply_common im e"] common_get[OF assms] blank_def
        split: option.splits) (simp_all add: resolve_service_name_def blank_def)
  then show ?thesis
    by (simp add: settled_def common_get[OF assms])
qed

lemma common_settled: "pe_nomem e = [] \<Longrightarrow> settled im e \<Longrightarrow> same_vars (pw_apply_common im e) e"
  by (auto simp: same_vars_def common_get settled_def)

lemma strstr_in: "strstr (a @ m @ b) m \<noteq> None"
proof (induction a)
  case Nil
  show ?case using is_prefix_append[of m b] by (cases "m @ b") (auto simp: is_prefix_def)
qed auto

lemma same_varsD: "same_vars e f \<Longrightarrow> env_name x \<Longrightarrow> x \<noteq> ATTRS \<Longrightarrow> env_get e x = env_get f x"
  by (simp add: same_vars_def)

text \<open>The edits for one runtime: the variables they leave alone, and that they find their own mark.\<close>

lemma java_frame:
  assumes "pe_nomem e = []"
  shows "pe_nomem (pw_apply_java im dir e) = []"
    and "env_name x \<Longrightarrow> x \<noteq> lit ''JAVA_TOOL_OPTIONS'' \<Longrightarrow> x \<noteq> lit ''OTEL_INSTRUMENTATION_RUNTIME_TELEMETRY_ENABLED'' \<Longrightarrow>
      env_get (pw_apply_java im dir e) x = env_get e x"
  using assms by (auto simp: pw_apply_java_def pw_env_append_def pw_env_set_default_def Let_def env_get_put env_get_default)

lemma python_frame:
  assumes "pe_nomem e = []"
  shows "pe_nomem (pw_apply_python im dir e) = []"
    and "env_name x \<Longrightarrow> x \<noteq> lit ''PYTHONPATH'' \<Longrightarrow> env_get (pw_apply_python im dir e) x = env_get e x"
  using assms by (auto simp: pw_apply_python_def pw_env_prepend_def Let_def env_get_put)

lemma java_again:
  assumes e: "pe_nomem e = []" and f: "pe_nomem f = []" and same: "same_vars f (pw_apply_java im dir e)"
  shows "same_vars (pw_apply_java im dir f) (pw_apply_java im dir e)"
proof (cases "im_exists im (snprintf_s 1024 (dir @ lit ''/java/javaagent.jar''))")
  case True
  let ?J = "lit ''JAVA_TOOL_OPTIONS''" and ?T = "lit ''OTEL_INSTRUMENTATION_RUNTIME_TELEMETRY_ENABLED''"
  let ?jar = "snprintf_s 1024 (dir @ lit ''/java/javaagent.jar'')"
  let ?opt = "snprintf_s 1152 (lit '' -javaagent:'' @ ?jar)"
  have jar: "?opt = lit '' -javaagent:'' @ ?jar"
    by (simp add: snprintf_s_def)
  have J: "env_get f ?J = env_get (snd (pw_env_append ?J ?opt (Some ?jar) e)) ?J"
    using same_varsD[OF same, of ?J] True e
    by (simp add: pw_apply_java_def Let_def pw_env_set_default_def env_get_default pw_env_append_def env_get_put)
  have T: "env_get f ?T \<noteq> None"
    using same_varsD[OF same, of ?T] True e
    by (simp add: pw_apply_java_def Let_def pw_env_set_default_def env_get_default pw_env_append_def env_get_put)
  have again: "pw_env_append ?J ?opt (Some ?jar) f = (0, f) \<or> pw_env_append ?J ?opt (Some ?jar) f = (- 1, f)"
  proof (cases "carries (env_get e ?J) (Some ?jar)")
    case True
    then show ?thesis using J by (simp add: pw_env_append_def)
  next
    case fresh: False
    show ?thesis
    proof (cases "blank (env_get e ?J)")
      case True
      then have "env_get f ?J = Some ?opt"
        using J fresh e by (simp add: pw_env_append_def env_get_put)
      then show ?thesis
        using strstr_in[of "lit '' -javaagent:''" ?jar "[]"] by (simp add: pw_env_append_def carries_def jar)
    next
      case False
      then obtain cur where cur: "env_get e ?J = Some cur" by (cases "env_get e ?J") (auto simp: blank_def)
      show ?thesis
      proof (cases "length cur + length ?opt + 1 > PW_ENV_MAX")
        case True
        then have "env_get f ?J = Some cur"
          using J False fresh cur by (simp add: pw_env_append_def)
        then show ?thesis
          using True False cur fresh by (simp add: pw_env_append_def)
      next
        case fits: False
        then have "env_get f ?J = Some (cur @ ?opt)"
          using J fresh e cur False by (simp add: pw_env_append_def env_get_put)
        then show ?thesis
          using strstr_in[of "cur @ lit '' -javaagent:''" ?jar "[]"] by (simp add: pw_env_append_def carries_def jar)
      qed
    qed
  qed
  have "pw_apply_java im dir f = f"
    using again T True by (auto simp: pw_apply_java_def Let_def pw_env_set_default_def env_set_def)
  then show ?thesis using same by simp
qed (use same in \<open>simp add: pw_apply_java_def\<close>)

lemma python_again:
  assumes e: "pe_nomem e = []" and f: "pe_nomem f = []" and same: "same_vars f (pw_apply_python im dir e)"
  shows "same_vars (pw_apply_python im dir f) (pw_apply_python im dir e)"
proof (cases "im_exists im (snprintf_s 1088 (snprintf_s 1024 (dir @ lit ''/python'') @ lit ''/sitecustomize.py''))")
  case True
  let ?P = "lit ''PYTHONPATH''" and ?shim = "snprintf_s 1024 (dir @ lit ''/python'')"
  have P: "env_get f ?P = env_get (snd (pw_env_prepend ?P ?shim (Some ?shim) 0x3a e)) ?P"
    using same_varsD[OF same, of ?P] True by (simp add: pw_apply_python_def Let_def)
  have again: "snd (pw_env_prepend ?P ?shim (Some ?shim) 0x3a f) = f"
  proof (cases "carries (env_get e ?P) (Some ?shim)")
    case True
    then show ?thesis using P by (simp add: pw_env_prepend_def)
  next
    case fresh: False
    show ?thesis
    proof (cases "blank (env_get e ?P)")
      case True
      then have "env_get f ?P = Some ?shim"
        using P fresh e by (simp add: pw_env_prepend_def env_get_put)
      then show ?thesis
        using strstr_in[of "[]" ?shim "[]"] by (simp add: pw_env_prepend_def carries_def)
    next
      case False
      then obtain cur where cur: "env_get e ?P = Some cur" by (cases "env_get e ?P") (auto simp: blank_def)
      show ?thesis
      proof (cases "length cur + length ?shim + 2 > PW_ENV_MAX")
        case True
        then have "env_get f ?P = Some cur"
          using P False fresh cur by (simp add: pw_env_prepend_def)
        then show ?thesis
          using True False cur fresh by (simp add: pw_env_prepend_def)
      next
        case fits: False
        then have "env_get f ?P = Some (?shim @ 0x3a # cur)"
          using P fresh e cur False by (simp add: pw_env_prepend_def env_get_put)
        then show ?thesis
          using strstr_in[of "[]" ?shim "0x3a # cur"] by (simp add: pw_env_prepend_def carries_def)
      qed
    qed
  qed
  then have "pw_apply_python im dir f = f"
    using True by (simp add: pw_apply_python_def Let_def)
  then show ?thesis using same by simp
qed (use same in \<open>simp add: pw_apply_python_def Let_def\<close>)

lemma resolve_same: "same_vars f e \<Longrightarrow> resolve_service_name im f = resolve_service_name im e"
  by (simp add: resolve_service_name_def same_vars_def)

lemma settled_same: "settled im e \<Longrightarrow> same_vars f e \<Longrightarrow> settled im f"
  using resolve_same[of f e im] by (simp add: settled_def same_vars_def)

lemma same_vars_trans: "same_vars e f \<Longrightarrow> same_vars f g \<Longrightarrow> same_vars e g"
  by (simp add: same_vars_def)

lemma settled_java: "pe_nomem e = [] \<Longrightarrow> settled im e \<Longrightarrow> settled im (pw_apply_java im dir e)"
proof -
  assume e: "pe_nomem e = []" "settled im e"
  have "resolve_service_name im (pw_apply_java im dir e) = resolve_service_name im e"
    by (simp add: resolve_service_name_def java_frame(2)[OF e(1)])
  then show ?thesis using e(2) by (simp add: settled_def java_frame(2)[OF e(1)])
qed

lemma settled_python: "pe_nomem e = [] \<Longrightarrow> settled im e \<Longrightarrow> settled im (pw_apply_python im dir e)"
proof -
  assume e: "pe_nomem e = []" "settled im e"
  have "resolve_service_name im (pw_apply_python im dir e) = resolve_service_name im e"
    by (simp add: resolve_service_name_def python_frame(2)[OF e(1)])
  then show ?thesis using e(2) by (simp add: settled_def python_frame(2)[OF e(1)])
qed

text \<open>The clock plays a part only in the process key.\<close>

lemma cmdline_time [simp]: "read_cmdline_argv0 (im\<lparr>im_time := t\<rparr>) n = read_cmdline_argv0 im n"
  by (simp add: read_cmdline_argv0_def)

lemma image_time [simp]:
  "resolve_service_name (im\<lparr>im_time := t\<rparr>) = resolve_service_name im"
  "pw_apply_java (im\<lparr>im_time := t\<rparr>) = pw_apply_java im"
  "pw_apply_python (im\<lparr>im_time := t\<rparr>) = pw_apply_python im"
  "pw_detect_by_name (im\<lparr>im_time := t\<rparr>) = pw_detect_by_name im"
  "pw_confirm_by_symbol (im\<lparr>im_time := t\<rparr>) = pw_confirm_by_symbol im"
  "settled (im\<lparr>im_time := t\<rparr>) = settled im"
  by (auto simp: fun_eq_iff resolve_service_name_def exec_basename_def pw_apply_java_def pw_apply_python_def
      pw_detect_by_name_def Let_def pw_confirm_by_symbol_def settled_def)

definition edits :: "image \<Rightarrow> penv \<Rightarrow> penv" where
  "edits im e = snd (pw_init im (inject_init, e))"

definition runtime_of :: "image \<Rightarrow> pw_runtime" where
  "runtime_of im =
     (if pw_detect_by_name im \<noteq> PW_RT_UNKNOWN then pw_confirm_by_symbol im (pw_detect_by_name im)
      else pw_detect_by_name im)"

definition acts :: "image \<Rightarrow> penv \<Rightarrow> bool" where
  "acts im e \<longleftrightarrow>
     \<not> (\<not> blank (env_get e (lit ''PROCWATCH_INJECT_DISABLED'')) \<and>
        the (env_get e (lit ''PROCWATCH_INJECT_DISABLED'')) \<noteq> lit ''0'') \<and>
     \<not> (im_euid im \<noteq> im_uid im \<or> im_egid im \<noteq> im_gid im) \<and> pw_resolve_label e \<noteq> None"

lemma image_time2 [simp]: "runtime_of (im\<lparr>im_time := t\<rparr>) = runtime_of im" "acts (im\<lparr>im_time := t\<rparr>) = acts im"
  by (simp_all add: runtime_of_def acts_def fun_eq_iff)

lemma acts_cong:
  "env_get f (lit ''PROCWATCH_INJECT_DISABLED'') = env_get e (lit ''PROCWATCH_INJECT_DISABLED'') \<Longrightarrow>
   env_get f (lit ''PROCWATCH_LABEL'') = env_get e (lit ''PROCWATCH_LABEL'') \<Longrightarrow> acts im f = acts im e"
  by (simp add: acts_def pw_resolve_label_def)

lemma agent_dir_cong:
  "env_get f (lit ''PROCWATCH_AGENT_DIR'') = env_get e (lit ''PROCWATCH_AGENT_DIR'') \<Longrightarrow> pw_agent_dir f = pw_agent_dir e"
  by (simp add: pw_agent_dir_def)

lemma edits_cases:
  "edits im e =
     (if \<not> acts im e then e
      else case runtime_of im of
             PW_RT_JAVA \<Rightarrow> pw_apply_java im (pw_agent_dir e) (pw_apply_common im e)
           | PW_RT_PYTHON \<Rightarrow> pw_apply_python im (pw_agent_dir e) (pw_apply_common im e)
           | PW_RT_UNKNOWN \<Rightarrow> e)"
proof (cases "acts im e")
  case True
  then have "edits im e = snd (case runtime_of im of
                 PW_RT_JAVA \<Rightarrow>
                   (pw_set_runtime_hint (Some (lit ''java'')) (inject_init\<lparr>in_applied := True, in_armed := True\<rparr>),
                    pw_apply_java im (pw_agent_dir e) (pw_apply_common im e))
               | PW_RT_PYTHON \<Rightarrow>
                   (pw_set_runtime_hint (Some (lit ''python'')) (inject_init\<lparr>in_applied := True, in_armed := True\<rparr>),
                    pw_apply_python im (pw_agent_dir e) (pw_apply_common im e))
               | PW_RT_UNKNOWN \<Rightarrow>
                   (pw_set_runtime_hint (Some (lit ''other'')) (inject_init\<lparr>in_applied := True, in_armed := True\<rparr>), e))"
    unfolding edits_def pw_init_def acts_def runtime_of_def Let_def case_prod_conv
    by (simp only: if_False if_True simp_thms inject_init_def inject_state.select_convs)
  with True show ?thesis by (cases "runtime_of im") simp_all
next
  case False
  then show ?thesis
    unfolding edits_def pw_init_def acts_def Let_def case_prod_conv
    by (simp only: if_False if_True simp_thms inject_init_def inject_state.select_convs if_distrib[of snd] snd_conv split: if_split) blast?
qed

text \<open>C21. The constructor can run again in a re-executed image, as the launcher of the JDK makes it: at whatever time it
  does, no variable changes its value -- no agent is added twice, no default replaced -- except for the resource
  attributes, where the process key is renewed.\<close>

theorem reexec_changes_nothing:
  assumes e: "pe_nomem e = []" and x: "env_name x" "x \<noteq> ATTRS"
  shows "env_get (edits (im\<lparr>im_time := t\<rparr>) (edits im e)) x = env_get (edits im e) x"
proof -
  let ?c = "pw_apply_common im e" and ?im2 = "im\<lparr>im_time := t\<rparr>"
  define dir where "dir = pw_agent_dir e"
  have c: "pe_nomem ?c = []" "settled im ?c"
    using common_nomem[OF e] common_settles[OF e] by simp_all
  have again: "same_vars (pw_apply_common ?im2 f) f" if "pe_nomem f = []" "settled im f" for f
    using common_settled[of f ?im2] that by simp
  have java: "same_vars (pw_apply_java im dir (pw_apply_common ?im2 (pw_apply_java im dir ?c))) (pw_apply_java im dir ?c)"
    using java_again[OF c(1)] again[OF java_frame(1)[OF c(1)] settled_java[OF c]] common_nomem[OF java_frame(1)[OF c(1)]]
    by blast
  have python: "same_vars (pw_apply_python im dir (pw_apply_common ?im2 (pw_apply_python im dir ?c))) (pw_apply_python im dir ?c)"
    using python_again[OF c(1)] again[OF python_frame(1)[OF c(1)] settled_python[OF c]] common_nomem[OF python_frame(1)[OF c(1)]]
    by blast
  have vars:
    "env_get (pw_apply_java im dir ?c) (lit ''PROCWATCH_INJECT_DISABLED'') = env_get e (lit ''PROCWATCH_INJECT_DISABLED'')"
    "env_get (pw_apply_python im dir ?c) (lit ''PROCWATCH_INJECT_DISABLED'') = env_get e (lit ''PROCWATCH_INJECT_DISABLED'')"
    "env_get (pw_apply_java im dir ?c) (lit ''PROCWATCH_LABEL'') = env_get e (lit ''PROCWATCH_LABEL'')"
    "env_get (pw_apply_python im dir ?c) (lit ''PROCWATCH_LABEL'') = env_get e (lit ''PROCWATCH_LABEL'')"
    "env_get (pw_apply_java im dir ?c) (lit ''PROCWATCH_AGENT_DIR'') = env_get e (lit ''PROCWATCH_AGENT_DIR'')"
    "env_get (pw_apply_python im dir ?c) (lit ''PROCWATCH_AGENT_DIR'') = env_get e (lit ''PROCWATCH_AGENT_DIR'')"
    by (simp_all add: java_frame(2)[OF c(1)] python_frame(2)[OF c(1)] common_get[OF e])
  have same: "acts im f = acts im e" "pw_agent_dir f = dir"
    if "f = pw_apply_java im dir ?c \<or> f = pw_apply_python im dir ?c" for f
    using that vars acts_cong[of f e im] agent_dir_cong[of f e] by (auto simp: dir_def)
  show ?thesis
  proof (cases "acts im e \<and> runtime_of im \<noteq> PW_RT_UNKNOWN")
    case True
    then consider "runtime_of im = PW_RT_JAVA" | "runtime_of im = PW_RT_PYTHON"
      by (cases "runtime_of im") auto
    then show ?thesis
    proof cases
      case 1
      then show ?thesis
        using True dir_def[symmetric] same[of "pw_apply_java im dir ?c"] same_varsD[OF java x] by (simp add: edits_cases)
    next
      case 2
      then show ?thesis
        using True dir_def[symmetric] same[of "pw_apply_python im dir ?c"] same_varsD[OF python x] by (simp add: edits_cases)
    qed
  next
    case False
    then have "edits im e = e" "edits ?im2 e = e"
      by (auto simp: edits_cases)
    then show ?thesis by simp
  qed
qed

theorem reexec_changes_nothing_witness:
  "env_get (edits (sample_image\<lparr>im_time := \<lparr>tm_year = 2026, tm_mon = 1, tm_mday = 2, tm_hour = 3, tm_min = 4, tm_sec = 6\<rparr>\<rparr>)
       (edits sample_image sample_env)) (lit ''JAVA_TOOL_OPTIONS'') =
   env_get (edits sample_image sample_env) (lit ''JAVA_TOOL_OPTIONS'')"
proof -
  have "pe_nomem sample_env = []" "env_name (lit ''JAVA_TOOL_OPTIONS'')" "lit ''JAVA_TOOL_OPTIONS'' \<noteq> ATTRS"
    by code_simp+
  from reexec_changes_nothing[OF this, where im = sample_image] show ?thesis .
qed

end
