(* ===== verification/MonitorProps.thy ===== *)
theory MonitorProps
  imports CallbackProps ProcPushProps
begin

text \<open>
  The monitor \<^verbatim>\<open>src/main.c\<close>: which settings reach its loop, that a round inserts or spills every row, and that a
  spilled row is replayed as it was.
\<close>

section \<open>Settings\<close>

text \<open>C27. The settings the monitor starts with are sound, whatever the command line and the environment hold: exactly one
  of a process and a command, a valid label, and positive retention and inactivity times, which become the
  housekeeping of the database functions.\<close>

theorem monitor_config_sound:
  assumes "monitor_config_of env opts = Inr mc"
  shows "(mc_pid mc > 0 \<longleftrightarrow> mc_command mc = None) \<and> (\<exists>l. mc_label mc = Some l \<and> validate_identifier l) \<and>
    db_set_housekeeping (mc_retention mc) (mc_inactive mc) housekeeping_init =
      \<lparr>g_retention_hours = mc_retention mc, g_inactive_hours = mc_inactive mc\<rparr> \<and>
    0 < mc_retention mc \<and> 0 < mc_inactive mc"
  using assms
  by (auto simp: monitor_config_of_def monitor_check_def db_set_housekeeping_def housekeeping_init_def Let_def
      split: sum.splits if_splits option.splits)

theorem monitor_config_sound_witness:
  "\<exists>mc. monitor_config_of (\<lambda>n. None) [(CHR ''p'', lit ''7''), (CHR ''l'', lit ''web''), (CHR ''R'', lit ''24'')] = Inr mc \<and>
     mc_pid mc > 0 \<and> mc_command mc = None \<and> mc_retention mc = 24"
proof -
  let ?c = "monitor_config_of (\<lambda>n. None) [(CHR ''p'', lit ''7''), (CHR ''l'', lit ''web''), (CHR ''R'', lit ''24'')]"
  have "(case ?c of Inr mc \<Rightarrow> mc_command mc = None \<and> mc_retention mc = 24 | Inl _ \<Rightarrow> False)"
    by code_simp
  then obtain mc where mc: "?c = Inr mc" "mc_command mc = None" "mc_retention mc = 24"
    by (auto split: sum.splits)
  with monitor_config_sound[OF mc(1)] show ?thesis by auto
qed

section \<open>A row through the spill file\<close>

lemma is_prefix_Cons [simp]:
  "is_prefix [] s" "\<not> is_prefix (a # p) []" "is_prefix (a # p) (b # s) \<longleftrightarrow> a = b \<and> is_prefix p s"
  by (auto simp: is_prefix_def)

lemma is_prefix_delimited:
  "q \<notin> set p \<Longrightarrow> q \<notin> set s \<Longrightarrow> is_prefix (p @ q # r) (s @ q # t) \<longleftrightarrow> p = s \<and> is_prefix r t"
proof (induction p arbitrary: s)
  case Nil
  then show ?case by (cases s) auto
next
  case (Cons a p)
  then show ?case by (cases s) auto
qed

lemma strstr_miss: "\<not> is_prefix p (c # s) \<Longrightarrow> strstr (c # s) p = strstr s p"
  by simp

definition sample_text :: "cstring \<Rightarrow> dbl \<Rightarrow> int \<Rightarrow> byte list" where
  "sample_text pid cpu rss =
     qlit ''{`k`:`sample`,`pid`:`'' @ pid @ qlit ''`,`cpu`:'' @ fmt_g 10 cpu @ qlit '',`rss`:'' @ dec_int rss @ [0x7d]"

lemma sample_line_text:
  assumes "plain 64 pid" "\<bar>rss\<bar> < 2 ^ 63"
  shows "sample_line (json_esc pid) cpu rss = sample_text pid cpu rss" "cstr (sample_text pid cpu rss) = sample_text pid cpu rss"
proof -
  have esc: "json_esc pid = pid" "length pid < 64" "0 \<notin> set pid"
    using plainD[OF assms(1)] assms(1) by (auto simp: plain_def)
  have "length (dec_int rss) \<le> 20"
    using length_dec_int[of rss 19] assms(2) by simp
  then have "length (sample_text pid cpu rss) < 512"
    using esc length_fmt_g[of 10 cpu] by (simp add: sample_text_def qlit_def)
  then show "sample_line (json_esc pid) cpu rss = sample_text pid cpu rss"
    by (simp add: sample_line_def esc(1) json_line_def json_member_def quoted_def sample_text_def qlit_def lit_def)
  have "0 \<notin> set (fmt_g 10 cpu)" "0 \<notin> set (dec_int rss)"
    using number_text_plain[OF number_text_fmt_g] number_text_plain[OF number_text_int(1)] by auto
  then have "0 \<notin> set (sample_text pid cpu rss)"
    using esc(3) by (auto simp: sample_text_def qlit_def)
  then show "cstr (sample_text pid cpu rss) = sample_text pid cpu rss"
    by (simp add: is_cstr_def)
qed

lemma sample_fields:
  assumes "plain 64 pid" "\<bar>rss\<bar> < 2 ^ 53"
  shows "json_str_field (sample_text pid cpu rss) ''pid'' 128 = Some pid"
    and "dbl_to_long (json_num_field (sample_text pid cpu rss) ''rss'' 0) = rss"
    and "is_prefix (qlit ''{`k`:`sample`'') (sample_text pid cpu rss)"
proof -
  have rss63: "\<bar>rss\<bar> < 2 ^ 63" using assms(2) by simp
  note tx = sample_line_text[OF assms(1) rss63]
  have pid: "0x22 \<notin> set pid" "0x5c \<notin> set pid" "length pid < 64"
    using assms(1) by (auto simp: plain_def)
  have cpu: "0x22 \<notin> set (fmt_g 10 cpu)" and int: "0x22 \<notin> set (dec_int rss)"
    using number_text_plain[OF number_text_fmt_g] number_text_plain[OF number_text_int(1)] by auto
  let ?r1 = "pid @ qlit ''`,`cpu`:'' @ fmt_g 10 cpu @ qlit '',`rss`:'' @ dec_int rss @ [0x7d]"
  have "strstr (sample_text pid cpu rss) (field_pat ''pid'' [0x22, 0x3a, 0x22]) = Some (qlit ''`pid`:`'' @ ?r1)"
    by (simp add: sample_text_def field_pat_def qlit_def lit_def)
  then have "json_str_field (sample_text pid cpu rss) ''pid'' 128 = Some (json_copy ?r1 0 128)"
    by (simp add: json_str_field_def tx(2) Let_def field_pat_def qlit_def lit_def)
  also have "json_copy ?r1 0 128 = pid"
    using json_copy_plain[OF pid(1,2), of _ 0 128] pid(3) by (simp add: qlit_def)
  finally show "json_str_field (sample_text pid cpu rss) ''pid'' 128 = Some pid" .
  have "strstr (sample_text pid cpu rss) (field_pat ''rss'' [0x22, 0x3a]) = Some (qlit ''`rss`:'' @ dec_int rss @ [0x7d])"
  proof -
    let ?p = "field_pat ''rss'' [0x22, 0x3a]"
    have p: "?p = 0x22 # qlit ''rss`:''"
      by (simp add: field_pat_def qlit_def lit_def)
    have no_rss: "\<not> is_prefix [0x72, 0x73, 0x73, 0x22, 0x3a] (pid @ 0x22 # 0x2c # t)" for t
      using is_prefix_delimited[where q = "0x22" and p = "[0x72, 0x73, 0x73]" and s = pid and r = "[0x3a]" and t = "0x2c # t"] pid(1)
      by simp
    have "strstr (sample_text pid cpu rss) ?p =
        strstr (pid @ qlit ''`,`cpu`:'' @ fmt_g 10 cpu @ qlit '',`rss`:'' @ dec_int rss @ [0x7d]) ?p"
      using no_rss by (simp add: sample_text_def p qlit_def)
    also have "\<dots> = strstr (qlit ''`,`cpu`:'' @ fmt_g 10 cpu @ qlit '',`rss`:'' @ dec_int rss @ [0x7d]) ?p"
      unfolding p by (rule strstr_skip[OF pid(1)])
    also have "\<dots> = strstr (fmt_g 10 cpu @ qlit '',`rss`:'' @ dec_int rss @ [0x7d]) ?p"
      by (simp add: p qlit_def)
    also have "\<dots> = strstr (qlit '',`rss`:'' @ dec_int rss @ [0x7d]) ?p"
      unfolding p by (rule strstr_skip[OF cpu])
    also have "\<dots> = Some (qlit ''`rss`:'' @ dec_int rss @ [0x7d])"
      by (simp add: p qlit_def)
    finally show ?thesis .
  qed
  then have "json_num_field (sample_text pid cpu rss) ''rss'' 0 = dbl_of_int rss"
    using strtod_dec_int[of "[0x7d]" rss]
    by (simp add: json_num_field_def tx(2) Let_def field_pat_def qlit_def lit_def ends_number_def)
  then show "dbl_to_long (json_num_field (sample_text pid cpu rss) ''rss'' 0) = rss"
    using dbl_to_long_of_int assms(2) by simp
  show "is_prefix (qlit ''{`k`:`sample`'') (sample_text pid cpu rss)"
    by (simp add: sample_text_def qlit_def)
qed

text \<open>C26. A row that was spilled comes back as it was: the line \<open>spill_sample\<close> appends makes \<open>replay_sample\<close> insert the same
  process key and resident size (the CPU share goes through its ten digits), over the statement of the running
  monitor.\<close>

theorem sample_replayed:
  assumes "plain 64 pid" "\<bar>rss\<bar> < 2 ^ 53"
    and "db_online b" "db_conn b \<noteq> None" "fc_prepared ctx"
  shows "spill_sample pid cpu rss b2 w2 = snd (pw_db_buf_spill (sample_text pid cpu rss) b2 w2) \<and>
    replay_sample pq (sample_text pid cpu rss) (b, ctx, w) =
      (case db_insert_sample pq (db_conn b) (fc_stmt_name ctx) pid
              (json_num_field (sample_text pid cpu rss) ''cpu'' 0) rss w of
         (rc, w1) \<Rightarrow> Inr (if rc \<noteq> 0 then - 1 else 0, b, ctx, w1))"
proof -
  have rss63: "\<bar>rss\<bar> < 2 ^ 63" using assms(2) by simp
  note tx = sample_line_text[OF assms(1) rss63] and fields = sample_fields[OF assms(1,2)]
  have esc: "pw_json_escape 256 pid = (0, json_esc pid)"
    using plainD(2)[OF assms(1)] assms(1) by (simp add: pw_json_escape_eq plain_def)
  have prep: "ensure_prepared pq (b, ctx, w) = Inr (0, b, ctx, w)"
    using assms(3-5) by (auto simp: ensure_prepared_def)
  show ?thesis
    using tx fields by (simp add: spill_sample_def esc replay_sample_def prep)
qed

definition sample_ctx :: flush_ctx where
  "sample_ctx = \<lparr>fc_schema = lit ''procwatch'', fc_label = lit ''web'', fc_stmt_name = lit ''ins_7'', fc_prepared = True,
     fc_housekeeping = housekeeping_init\<rparr>"

theorem sample_replayed_witness:
  "replay_sample mem_pq (sample_text (lit ''7_2026'') (dbl_of_int 2) 132) (sample_buf, sample_ctx, mem_world) =
     (case db_insert_sample mem_pq (Some 0) (lit ''ins_7'') (lit ''7_2026'') (dbl_of_int 2) 132 mem_world of
        (rc, w1) \<Rightarrow> Inr (if rc \<noteq> 0 then - 1 else 0, sample_buf, sample_ctx, w1))"
proof -
  have ok: "plain 64 (lit ''7_2026'')" "\<bar>132\<bar> < (2 :: int) ^ 53"
    by (simp_all add: plain_def lit_def)
  have st: "db_online sample_buf" "db_conn sample_buf \<noteq> None" "fc_prepared sample_ctx"
    by (simp_all add: sample_buf_def sample_ctx_def)
  have cpu: "json_num_field (sample_text (lit ''7_2026'') (dbl_of_int 2) 132) ''cpu'' 0 = dbl_of_int 2"
    by code_simp
  have "db_conn sample_buf = Some 0" "fc_stmt_name sample_ctx = lit ''ins_7''"
    by (simp_all add: sample_buf_def sample_ctx_def)
  then show ?thesis
    using sample_replayed[OF ok st, of "dbl_of_int 2" sample_buf mem_world mem_pq mem_world] cpu by simp
qed

end
