(* ===== verification/MonitorRound.thy ===== *)
theory MonitorRound
  imports MonitorProps WrapProps
begin

text \<open>
  A round of \<^verbatim>\<open>src/main.c\<close> as a whole: the rows it computes, and where each of them ends up.
\<close>

section \<open>The rows of a round\<close>

type_synonym sample_row = "cstring \<times> dbl \<times> int"

definition snapshot_time :: "proc_snapshot \<Rightarrow> 64 word" where
  "snapshot_time n = ps_utime (sn_stat n) + ps_stime (sn_stat n)"

definition snapshot_times :: "proc_snapshot list \<Rightarrow> int \<Rightarrow> 64 word option" where
  "snapshot_times ns = map_of (map (\<lambda>n. (sn_pid n, snapshot_time n)) ns)"

definition node_row :: "monitor_consts \<Rightarrow> 64 word \<Rightarrow> (int \<Rightarrow> 64 word option) \<Rightarrow> proc_snapshot \<Rightarrow> sample_row" where
  "node_row mk delta_tot before n =
     (snprintf_s 64 (dec_int (sn_pid n) @ mk_postfix mk),
      if delta_tot > 0 then cpu_percent (spent (before (sn_pid n)) (snapshot_time n)) delta_tot (mk_ncpu mk) else 0,
      if pt_vmrss_kb (sn_status n) > 0 then pt_vmrss_kb (sn_status n)
      else long_wrap (ps_rss (sn_stat n) * mk_page_kb mk))"

fun store_rows :: "'d libpq \<Rightarrow> sample_row list \<Rightarrow> 'd monitor \<Rightarrow> 'd world + 'd monitor" where
  "store_rows pq [] s = Inr s"
| "store_rows pq ((pid, cpu, rss) # rows) s = and_then (store_sample pq pid cpu rss s) (store_rows pq rows)"

lemma and_then_assoc: "and_then (and_then m f) g = and_then m (\<lambda>x. and_then (f x) g)"
  by (cases m) simp_all

lemma node_row_cong:
  "before (sn_pid n) = before2 (sn_pid n) \<Longrightarrow> node_row mk delta_tot before n = node_row mk delta_tot before2 n"
  by (simp add: node_row_def)

definition charge_snapshot :: "proc_snapshot \<Rightarrow> prev_sample list \<Rightarrow> prev_sample list" where
  "charge_snapshot n prev = fst (charge (sn_pid n) (snapshot_time n) prev)"

lemma charge_snapshot_map: "prev_map (charge_snapshot n prev) = (prev_map prev)(sn_pid n \<mapsto> snapshot_time n)"
  using charge_map[of "sn_pid n" "snapshot_time n" prev] unfolding charge_snapshot_def by (metis prod.collapse)

lemma charge_spent:
  "charge (sn_pid n) (snapshot_time n) prev = (charge_snapshot n prev, spent (prev_map prev (sn_pid n)) (snapshot_time n))"
  using charge_map[of "sn_pid n" "snapshot_time n" prev] unfolding charge_snapshot_def by (metis prod.collapse)

lemma charge_all_map:
  "distinct (map sn_pid ns) \<Longrightarrow> prev_map (fold charge_snapshot ns prev) = prev_map prev ++ snapshot_times ns"
proof (induction ns arbitrary: prev)
  case (Cons n ns)
  then have "snapshot_times ns (sn_pid n) = None"
    by (simp add: snapshot_times_def map_of_eq_None_iff image_image comp_def)
  then have "(prev_map prev)(sn_pid n \<mapsto> snapshot_time n) ++ snapshot_times ns = prev_map prev ++ snapshot_times (n # ns)"
    by (auto simp: snapshot_times_def map_add_def fun_eq_iff split: option.splits)
  then show ?case
    using Cons by (simp add: charge_snapshot_map)
qed (simp add: snapshot_times_def)

lemma monitor_nodes_rows:
  "distinct (map sn_pid ns) \<Longrightarrow>
   monitor_nodes pq mk delta_tot ns prev s =
     and_then (store_rows pq (map (node_row mk delta_tot (prev_map prev)) ns) s)
       (\<lambda>s1. Inr (fold charge_snapshot ns prev, s1))"
proof (induction ns arbitrary: prev s)
  case (Cons n ns)
  have rows: "map (node_row mk delta_tot (prev_map (charge_snapshot n prev))) ns = map (node_row mk delta_tot (prev_map prev)) ns"
  proof (rule map_cong[OF refl])
    fix k assume "k \<in> set ns"
    then have "sn_pid k \<noteq> sn_pid n" using Cons.prems by (auto simp: image_iff)
    then show "node_row mk delta_tot (prev_map (charge_snapshot n prev)) k = node_row mk delta_tot (prev_map prev) k"
      by (intro node_row_cong) (simp add: charge_snapshot_map)
  qed
  have "ps_utime (sn_stat n) + ps_stime (sn_stat n) = snapshot_time n"
    by (simp add: snapshot_time_def)
  moreover have "monitor_nodes pq mk delta_tot ns (charge_snapshot n prev) =
      (\<lambda>x. and_then (store_rows pq (map (node_row mk delta_tot (prev_map prev)) ns) x)
        (\<lambda>s1. Inr (fold charge_snapshot ns (charge_snapshot n prev), s1)))"
    using Cons.prems unfolding rows[symmetric] by (intro ext Cons.IH) simp
  ultimately show ?case
    by (simp add: charge_spent Let_def and_then_assoc node_row_def[of _ _ _ n])
qed simp

section \<open>Where the rows go\<close>

text \<open>How many rows the server takes before it refuses one, and the world after that.\<close>

fun insert_rows :: "'d libpq \<Rightarrow> nat option \<Rightarrow> cstring \<Rightarrow> sample_row list \<Rightarrow> 'd world \<Rightarrow> nat \<times> 'd world" where
  "insert_rows pq conn name [] w = (0, w)"
| "insert_rows pq conn name ((pid, cpu, rss) # rows) w =
     (case db_insert_sample pq conn name pid cpu rss w of
        (rc, w1) \<Rightarrow> if rc \<noteq> 0 then (0, w1) else apfst Suc (insert_rows pq conn name rows w1))"

definition row_ok :: "sample_row \<Rightarrow> bool" where
  "row_ok = (\<lambda>(pid, cpu, rss). plain 64 pid \<and> \<bar>rss\<bar> < 2 ^ 63)"

definition row_line :: "sample_row \<Rightarrow> byte list" where
  "row_line = (\<lambda>(pid, cpu, rss). sample_text pid cpu rss)"

lemma spill_sample_put:
  assumes "row_ok (pid, cpu, rss)"
  shows "spill_sample pid cpu rss b w = snd (pw_db_buf_spill (row_line (pid, cpu, rss)) b w)"
proof -
  have ok: "plain 64 pid" "\<bar>rss\<bar> < 2 ^ 63" using assms by (auto simp: row_ok_def)
  have "pw_json_escape 256 pid = (0, json_esc pid)"
    using plainD(2)[OF ok(1)] ok(1) by (simp add: pw_json_escape_eq plain_def)
  with sample_line_text(1)[OF ok] show ?thesis
    by (simp add: spill_sample_def row_line_def)
qed

lemma row_line_good:
  assumes "row_ok r"
  shows "good_record (row_line r)"
proof -
  obtain pid cpu rss where r: "r = (pid, cpu, rss)" by (cases r)
  then have pid: "0 \<notin> set pid" "0x0a \<notin> set pid"
    using assms by (auto simp: row_ok_def plain_def)
  have num: "c \<noteq> 0" "c \<noteq> 0x0a" if "c \<in> set (fmt_g 10 cpu) \<union> set (dec_int rss)" for c
    using that number_text_plain[OF number_text_fmt_g, of 10 cpu] number_text_plain[OF number_text_int(1), of rss] by auto
  show ?thesis
    using pid num by (auto simp: r good_record_def row_line_def sample_text_def qlit_def)
qed

lemma store_offline:
  assumes "\<not> db_online b" "row_ok (pid, cpu, rss)"
  shows "store_sample pq pid cpu rss (b, ctx, w) = Inr (spill_put (row_line (pid, cpu, rss)) (b, ctx, w))"
proof -
  have same: "b\<lparr>db_online := False\<rparr> = b" using assms(1) by (cases b) simp
  show ?thesis
    using assms by (simp add: same store_sample_def spill_sample_put spill_put_def split: prod.splits)
qed

lemma spill_put_keeps:
  assumes "spill_put r (b, ctx, w) = (b1, ctx1, w1)"
  shows "ctx1 = ctx" "db_online b1 = db_online b" "w_db w1 = w_db w"
  using assms
  by (auto simp: spill_put_def pw_db_buf_spill_def fs_open_append_def fs_write_close_def next_fault_def fs_put_def Let_def
      split: prod.splits if_splits option.splits list.splits)

lemma offline_rows:
  assumes "\<not> db_online b" "spill_wf fn (b, ctx, w)" "\<forall>r\<in>set rows. row_ok r"
  shows "\<exists>b1 w1. store_rows pq rows (b, ctx, w) = Inr (b1, ctx, w1) \<and> \<not> db_online b1 \<and> w_db w1 = w_db w \<and>
    spill_pending (b1, ctx, w1) = spill_pending (b, ctx, w) @ map row_line rows"
  using assms
proof (induction rows arbitrary: b w)
  case (Cons r rows)
  obtain pid cpu rss where r: "r = (pid, cpu, rss)" by (cases r)
  obtain b2 ctx2 w2 where p: "spill_put (row_line r) (b, ctx, w) = (b2, ctx2, w2)" by (metis prod_cases3)
  note k = spill_put_keeps[OF p]
  have good: "good_record (row_line r)" using Cons.prems by (simp add: row_line_good)
  have "store_sample pq pid cpu rss (b, ctx, w) = Inr (b2, ctx, w2)"
    using store_offline[of b pid cpu rss pq ctx w] Cons.prems p k by (simp add: r)
  moreover have "spill_wf fn (b2, ctx, w2)" "spill_pending (b2, ctx, w2) = spill_pending (b, ctx, w) @ [row_line r]"
    using spill_log.put_wf[OF Cons.prems(2) good] spill_log.put_pending[OF Cons.prems(2) good] p k by simp_all
  moreover have "\<not> db_online b2" "\<forall>r\<in>set rows. row_ok r" using k Cons.prems by simp_all
  ultimately show ?case
    using Cons.IH[of b2 w2] k by (auto simp: r)
qed simp


lemma files_same:
  assumes "same_io w w1" "db_spill_path b1 = db_spill_path b"
  shows "spill_wf fn (b1, u1, w1) = spill_wf fn (b, u, w)" "spill_pending (b1, u1, w1) = spill_pending (b, u, w)"
  using assms by (simp_all add: same_io_def spill_wf_def spill_pending_def file_content_def)

lemma online_rows:
  assumes "db_online b" "db_conn b \<noteq> None" "fc_prepared ctx" "spill_wf fn (b, ctx, w)" "\<forall>r\<in>set rows. row_ok r"
    and "insert_rows pq (db_conn b) (fc_stmt_name ctx) rows w = (n, w2)"
  shows "\<exists>b1 w1. store_rows pq rows (b, ctx, w) = Inr (b1, ctx, w1) \<and> (db_online b1 \<longleftrightarrow> n = length rows) \<and>
    w_db w1 = w_db w2 \<and> spill_pending (b1, ctx, w1) = spill_pending (b, ctx, w) @ map row_line (drop n rows)"
  using assms
proof (induction rows arbitrary: w n)
  case (Cons r rows)
  obtain pid cpu rss where r: "r = (pid, cpu, rss)" by (cases r)
  obtain rc w3 where i: "db_insert_sample pq (db_conn b) (fc_stmt_name ctx) pid cpu rss w = (rc, w3)" by fastforce
  have io: "same_io w w3" using insert_sample_keep[OF same_io_refl i] .
  have prep: "ensure_prepared pq (b, ctx, w) = Inr (0, b, ctx, w)"
    using Cons.prems by (auto simp: ensure_prepared_def)
  show ?case
  proof (cases "rc = 0")
    case True
    then obtain m where m: "insert_rows pq (db_conn b) (fc_stmt_name ctx) rows w3 = (m, w2)" "n = Suc m"
      using Cons.prems(6) i by (auto simp: r apfst_def map_prod_def split: prod.splits)
    have "store_sample pq pid cpu rss (b, ctx, w) = Inr (b, ctx, w3)"
      using True Cons.prems(1) prep i by (simp add: store_sample_def Let_def)
    moreover have "spill_wf fn (b, ctx, w3)"
      using files_same(1)[OF io, of b b fn ctx ctx] Cons.prems(4) by simp
    moreover have "spill_pending (b, ctx, w3) = spill_pending (b, ctx, w)"
      using files_same(2)[OF io, of b b ctx ctx] by simp
    ultimately show ?thesis
      using Cons.IH[of w3 m] Cons.prems m by (auto simp: r)
  next
    case False
    let ?b = "b\<lparr>db_online := False\<rparr>"
    have n: "n = 0" "w2 = w3" using Cons.prems(6) i False by (simp_all add: r)
    have "store_sample pq pid cpu rss (b, ctx, w) = store_sample pq pid cpu rss (?b, ctx, w3)"
      using False Cons.prems(1) prep i by (simp add: store_sample_def Let_def)
    then have "store_rows pq (r # rows) (b, ctx, w) = store_rows pq (r # rows) (?b, ctx, w3)"
      by (simp add: r)
    moreover have "spill_wf fn (?b, ctx, w3)" "spill_pending (?b, ctx, w3) = spill_pending (b, ctx, w)"
      using files_same(1)[OF io, of ?b b fn ctx ctx] files_same(2)[OF io, of ?b b ctx ctx] Cons.prems(4) by simp_all
    ultimately show ?thesis
      using offline_rows[of ?b fn ctx w3 "r # rows" pq] Cons.prems(5) n by auto
  qed
qed auto



text \<open>A server that takes one row and refuses the next.\<close>

definition one_row_pq :: "cstring list libpq" where
  "one_row_pq = mem_pq\<lparr>pq_exec_prepared := \<lambda>c stmt vals d. (d = [], stmt # d)\<rparr>"

definition sample_consts :: monitor_consts where
  "sample_consts = \<lparr>mk_pid = 7, mk_postfix = lit ''_2026'', mk_page_kb = 4, mk_ncpu = 1\<rparr>"

definition sample_snapshots :: "proc_snapshot list" where
  "sample_snapshots =
     (case read_snapshot sample_procfs 7 of None \<Rightarrow> [] | Some n \<Rightarrow> [n, n\<lparr>sn_pid := 8\<rparr>, n\<lparr>sn_pid := 9\<rparr>])"


end
