(* ===== verification/ReplayProps.thy ===== *)
theory ReplayProps
  imports SampleAgent LineFields
begin

text \<open>
  From a record to its spill line and back: what \<open>replay_line\<close> makes of the lines that
  \<open>write_metric\<close>, \<open>write_span\<close> and \<open>write_otel_metric\<close> of \<^verbatim>\<open>src/agent/agentd.c\<close> spill.
\<close>

section \<open>Process metrics\<close>

definition metric_storable :: "proc_metric \<Rightarrow> bool" where
  "metric_storable m \<longleftrightarrow>
     validate_identifier (pm_label m) \<and> printable 256 (pm_service m) \<and> printable 80 (pm_container_id m) \<and>
     printable 256 (pm_pod m) \<and> printable 80 (pm_pid m) \<and> pm_pid m \<noteq> [] \<and> printable 64 (pm_comm m) \<and>
     printable 32 (pm_runtime m) \<and> \<bar>pm_rss m\<bar> < 2 ^ 53 \<and> \<bar>pm_threads m\<bar> < 2 ^ 53"

definition metric_members :: "cstring \<Rightarrow> proc_metric \<Rightarrow> (cstring \<times> cstring) list" where
  "metric_members schema m =
     [(lit ''k'', quoted (json_esc (lit ''metric''))), (lit ''schema'', quoted (json_esc schema)),
      (lit ''label'', quoted (json_esc (pm_label m))), (lit ''service'', quoted (json_esc (pm_service m))),
      (lit ''container_id'', quoted (json_esc (pm_container_id m))), (lit ''pod'', quoted (json_esc (pm_pod m))),
      (lit ''pid'', quoted (json_esc (pm_pid m))), (lit ''comm'', quoted (json_esc (pm_comm m))),
      (lit ''runtime'', quoted (json_esc (pm_runtime m))), (lit ''cpu'', fmt_g 10 (pm_cpu m)),
      (lit ''rss'', dec_int (pm_rss m)), (lit ''threads'', dec_int (pm_threads m))]"

lemma metric_line_members:
  assumes "validate_identifier schema" "metric_storable m"
  shows "metric_line schema m = json_line (metric_members schema m)" "members_ok (metric_members schema m)"
proof -
  note ids = identifier_plain[OF assms(1)] identifier_plain[of "pm_label m"]
  have id: "validate_identifier (pm_label m)"
    and ints: "\<bar>pm_rss m\<bar> < 10 ^ 16" "\<bar>pm_threads m\<bar> < 10 ^ 16"
    using assms(2) by (auto simp: metric_storable_def)
  have p: "printable 256 (pm_service m)" "printable 80 (pm_container_id m)" "printable 256 (pm_pod m)"
      "printable 80 (pm_pid m)" "printable 64 (pm_comm m)" "printable 32 (pm_runtime m)"
    using assms(2) by (simp_all add: metric_storable_def)
  note fits = printableD[OF p(1), of 512] printableD[OF p(2), of 160] printableD[OF p(3), of 512]
    printableD[OF p(4), of 160] printableD[OF p(5), of 128] printableD[OF p(6), of 64]
    printableD[OF identifier_plain(2)[OF id], of 200] printableD[OF identifier_plain(2)[OF assms(1)], of 200]
  have esc: "esc 200 (pm_label m) = json_esc (pm_label m)" "esc 512 (pm_service m) = json_esc (pm_service m)"
      "esc 160 (pm_container_id m) = json_esc (pm_container_id m)" "esc 512 (pm_pod m) = json_esc (pm_pod m)"
      "esc 160 (pm_pid m) = json_esc (pm_pid m)" "esc 128 (pm_comm m) = json_esc (pm_comm m)"
      "esc 64 (pm_runtime m) = json_esc (pm_runtime m)"
    using fits by (simp_all add: esc_fit)
  have len: "length (json_esc s) \<le> 2 * cap" if "printable cap s" for s cap
    using that length_esc_printable[of s] by (force simp: printable_def)
  have "length (json_line (metric_members schema m)) < 2048"
    using len[OF p(1)] len[OF p(2)] len[OF p(3)] len[OF p(4)] len[OF p(5)] len[OF p(6)]
      fits(28) fits(32) length_fmt_g[of 10 "pm_cpu m"] length_dec_int[OF ints(1)] length_dec_int[OF ints(2)]
    by (simp add: json_line_def metric_members_def identifier_plain(1)[OF id] identifier_plain(1)[OF assms(1)] kinds_plain)
  then show "metric_line schema m = json_line (metric_members schema m)"
    by (simp add: metric_line_def metric_members_def esc kinds_plain identifier_plain(1)[OF assms(1)])
  show "members_ok (metric_members schema m)"
    using fits by (simp add: members_ok_def metric_members_def key_facts value_ok_quoted value_ok_number kinds_plain(3))
qed

lemma metric_lookup:
  "map_of (metric_members schema m) (lit ''label'') = Some (quoted (json_esc (pm_label m)))"
  "map_of (metric_members schema m) (lit ''service'') = Some (quoted (json_esc (pm_service m)))"
  "map_of (metric_members schema m) (lit ''container_id'') = Some (quoted (json_esc (pm_container_id m)))"
  "map_of (metric_members schema m) (lit ''pod'') = Some (quoted (json_esc (pm_pod m)))"
  "map_of (metric_members schema m) (lit ''pid'') = Some (quoted (json_esc (pm_pid m)))"
  "map_of (metric_members schema m) (lit ''comm'') = Some (quoted (json_esc (pm_comm m)))"
  "map_of (metric_members schema m) (lit ''runtime'') = Some (quoted (json_esc (pm_runtime m)))"
  "map_of (metric_members schema m) (lit ''rss'') = Some (dec_int (pm_rss m))"
  "map_of (metric_members schema m) (lit ''threads'') = Some (dec_int (pm_threads m))"
  by (simp_all add: metric_members_def)

lemma metric_line_reads:
  assumes "validate_identifier schema" "metric_storable m"
  shows "json_str (metric_line schema m) (lit ''label'') 100 = Some (pm_label m)"
    and "replay_metric (metric_line schema m) (pm_label m) =
      m\<lparr>pm_cpu := json_num_or (metric_line schema m) ''cpu'' 0\<rparr>"
proof -
  note line = metric_line_members[OF assms]
  have id: "validate_identifier (pm_label m)" and pid: "pm_pid m \<noteq> []"
    and ints: "\<bar>pm_rss m\<bar> < 2 ^ 53" "\<bar>pm_threads m\<bar> < 2 ^ 53"
    and p: "printable 256 (pm_service m)" "printable 80 (pm_container_id m)" "printable 256 (pm_pod m)"
      "printable 80 (pm_pid m)" "printable 64 (pm_comm m)" "printable 32 (pm_runtime m)"
    using assms(2) by (simp_all add: metric_storable_def)
  have str: "json_str (metric_line schema m) key cap = Some s"
    if "map_of (metric_members schema m) key = Some (quoted (json_esc s))" "printable cap s" for key cap s
    using json_str_member[OF line(2) that(1), of cap] printableD[OF that(2), of "2 * cap"] by (simp add: line(1))
  note ints_read = json_num_int[OF line(2) metric_lookup(8)] json_num_int[OF line(2) metric_lookup(9)]
  show "json_str (metric_line schema m) (lit ''label'') 100 = Some (pm_label m)"
    by (rule str[OF metric_lookup(1) identifier_plain(2)[OF id]])
  show "replay_metric (metric_line schema m) (pm_label m) = m\<lparr>pm_cpu := json_num_or (metric_line schema m) ''cpu'' 0\<rparr>"
    using pid ints ints_read dbl_to_long_of_int
    by (simp add: replay_metric_def json_str_or_def json_pid_key_def or_unknown_def json_num_or_def line(1)[symmetric]
        str[OF metric_lookup(2) p(1)] str[OF metric_lookup(3) p(2)] str[OF metric_lookup(4) p(3)]
        str[OF metric_lookup(5) p(4)] str[OF metric_lookup(6) p(5)] str[OF metric_lookup(7) p(6)])
qed

text \<open>The lines are told apart by their first member.\<close>

definition kind_head :: "cstring \<Rightarrow> byte list" where
  "kind_head k = 0x7b # 0x22 # lit ''k'' @ [0x22, 0x3a, 0x22] @ k @ [0x22]"

lemma line_kind: "\<exists>s. json_line ((lit ''k'', quoted k) # ms) = kind_head k @ s"
  by (cases ms) (auto simp: json_line_def json_member_def quoted_def kind_head_def)

lemma kind_heads:
  "qlit ''{`k`:`metric`'' = kind_head (lit ''metric'')" "qlit ''{`k`:`span`'' = kind_head (lit ''span'')"
  "qlit ''{`k`:`otelmetric`'' = kind_head (lit ''otelmetric'')"
  "is_cstr (kind_head (lit ''metric''))" "is_cstr (kind_head (lit ''span''))" "is_cstr (kind_head (lit ''otelmetric''))"
  "length (kind_head (lit ''metric'')) = 13" "length (kind_head (lit ''span'')) = 11"
  "length (kind_head (lit ''otelmetric'')) = 17"
  by code_simp+

lemma strncmp_prefix:
  assumes "cstr a = p @ s" "cstr b = p" "length p = n"
  shows "strncmp_eq a b n"
  using assms by (simp add: strncmp_eq_def)

lemma strncmp_differs:
  assumes "cstr a = p @ s" "i < n" "i < length p" "i < length (cstr b)" "p ! i \<noteq> cstr b ! i"
  shows "\<not> strncmp_eq a b n"
proof
  assume "strncmp_eq a b n"
  then have "take n (cstr a @ [0]) ! i = take n (cstr b @ [0]) ! i"
    by (simp add: strncmp_eq_def)
  then show False
    using assms by (simp add: nth_append)
qed

text \<open>C15. A process metric with printable fields that was spilled is replayed as the same record: the
  line holds it completely (no array of \<open>write_metric\<close> is too small), and the replay inserts the
  same label, service, container, pod, process key, command, runtime, resident size and thread
  count; only the CPU percentage goes through its ten-digit text.\<close>

theorem metric_line_replayed:
  assumes "validate_identifier schema" "metric_storable m" "conn_ok pq (db_conn b) w"
  shows "replay_line pq (metric_line schema m) (b, u, w) =
    replay_insert pq (pm_label m)
      (\<lambda>cache conn. db_insert_metric_labeled pq cache conn
         (m\<lparr>pm_cpu := json_num_or (metric_line schema m) ''cpu'' 0\<rparr>))
      (\<lambda>u. u\<lparr>st_metrics_written := st_metrics_written u + 1\<rparr>) (b, u, w)"
proof -
  note line = metric_line_members[OF assms(1,2)] and reads = metric_line_reads[OF assms(1,2)]
  have id: "validate_identifier (pm_label m)"
    using assms(2) by (simp add: metric_storable_def)
  obtain s where "json_line (metric_members schema m) = kind_head (lit ''metric'') @ s"
    using line_kind kinds_plain(1) unfolding metric_members_def by metis
  then have "strncmp_eq (metric_line schema m) (qlit ''{`k`:`metric`'') 13"
    using json_line_cstr[OF line(2)] by (intro strncmp_prefix) (auto simp: line(1) kind_heads)
  then show ?thesis
    using assms(3) id reads by (simp add: replay_line_def)
qed

definition sample_metric :: proc_metric where
  "sample_metric =
     \<lparr>pm_label = lit ''web'', pm_service = [0x22, 0x5c, 0x61], pm_container_id = [], pm_pod = lit ''p-0'',
      pm_pid = lit ''12_3'', pm_comm = lit ''nginx'', pm_runtime = lit ''other'', pm_cpu = dbl_of_int 2,
      pm_rss = 4096, pm_threads = 7\<rparr>"

theorem metric_line_replayed_witness:
  "replay_metric (metric_line (lit ''pw'') sample_metric) (lit ''web'') = sample_metric \<and>
   (\<forall>b u. replay_line mem_pq (metric_line (lit ''pw'') sample_metric) (b\<lparr>db_conn := Some 0\<rparr>, u, mem_world) =
      replay_insert mem_pq (lit ''web'') (\<lambda>cache conn. db_insert_metric_labeled mem_pq cache conn sample_metric)
        (\<lambda>u. u\<lparr>st_metrics_written := st_metrics_written u + 1\<rparr>) (b\<lparr>db_conn := Some 0\<rparr>, u, mem_world))"
proof -
  have ok: "validate_identifier (lit ''pw'')" "metric_storable sample_metric"
    by code_simp+
  have conn: "conn_ok mem_pq (db_conn (b\<lparr>db_conn := Some 0\<rparr>)) mem_world" for b
    by (simp add: conn_ok_def mem_pq_def)
  have cpu: "json_num_or (metric_line (lit ''pw'') sample_metric) ''cpu'' 0 = dbl_of_int 2"
    by code_simp
  have same: "sample_metric\<lparr>pm_cpu := dbl_of_int 2\<rparr> = sample_metric" "pm_label sample_metric = lit ''web''"
    by (simp_all add: sample_metric_def)
  show ?thesis
    using metric_line_reads(2)[OF ok] metric_line_replayed[OF ok conn] by (simp add: cpu same)
qed

section \<open>OTLP metrics\<close>

lemma otel_line_head: "\<exists>s. otel_line schema p = kind_head (lit ''otelmetric'') @ 0x2c # s"
proof -
  have "\<exists>s. json_line ((lit ''k'', quoted (lit ''otelmetric'')) # m # ms) = kind_head (lit ''otelmetric'') @ 0x2c # s" for m ms
    by (auto simp: json_line_def json_member_def quoted_def kind_head_def split: prod.splits)
  then obtain s where "json_line
     [(lit ''k'', quoted (lit ''otelmetric'')), (lit ''schema'', quoted schema),
      (lit ''label'', quoted (esc 200 (mp_label p))),
      (lit ''ts'', quoted (snprintf_s 64 (fmt_f 9 (ns_to_sec (mp_time_ns p))))),
      (lit ''service_name'', quoted (esc 512 (mp_service_name p))),
      (lit ''scope_name'', quoted (esc 512 (mp_scope_name p))), (lit ''pid'', quoted (esc 160 (mp_pid_key p))),
      (lit ''metric_name'', quoted (esc 512 (mp_metric_name p))),
      (lit ''metric_type'', quoted (esc 32 (mp_metric_type p))),
      (lit ''description'', quoted (esc 512 (mp_description p))), (lit ''unit'', quoted (esc 128 (mp_unit p))),
      (lit ''value'', fmt_g 17 (mp_value p)), (lit ''count'', dec_int (sint (mp_count p))),
      (lit ''attributes'', quoted (esc 2200
         (if mp_attributes_json p \<noteq> [] then mp_attributes_json p else lit ''{}'')))] =
      kind_head (lit ''otelmetric'') @ 0x2c # s"
    by blast
  then have "otel_line schema p = take 8191 (kind_head (lit ''otelmetric'') @ 0x2c # s)"
    by (simp add: otel_line_def snprintf_s_def)
  also have "\<dots> = kind_head (lit ''otelmetric'') @ 0x2c # take 8173 s"
    by (simp add: kind_heads take_Cons')
  finally show ?thesis by blast
qed

lemma otel_line_kind:
  "\<not> strncmp_eq (otel_line schema p) (qlit ''{`k`:`metric`'') 13"
  "\<not> strncmp_eq (otel_line schema p) (qlit ''{`k`:`span`'') 11"
  "\<not> strncmp_eq (otel_line schema p) (qlit ''{`k`:`otelmetric`'') 18"
proof -
  obtain s where line: "otel_line schema p = kind_head (lit ''otelmetric'') @ 0x2c # s"
    using otel_line_head by blast
  have c: "cstr (otel_line schema p) = kind_head (lit ''otelmetric'') @ 0x2c # cstr s"
    by (simp add: line cstr_append kind_heads) (simp add: cstr_def)
  have "kind_head (lit ''otelmetric'') ! 6 = 0x6f" "kind_head (lit ''metric'') ! 6 = 0x6d" "kind_head (lit ''span'') ! 6 = 0x73"
    by code_simp+
  then show "\<not> strncmp_eq (otel_line schema p) (qlit ''{`k`:`metric`'') 13"
      "\<not> strncmp_eq (otel_line schema p) (qlit ''{`k`:`span`'') 11"
    using kind_heads strncmp_differs[OF c, of 6] by simp_all
  have "take 18 (cstr (otel_line schema p) @ [0]) ! 17 = 0x2c"
    using kind_heads(9) by (simp add: c nth_append)
  moreover have "take 18 (cstr (qlit ''{`k`:`otelmetric`'') @ [0]) ! 17 = 0"
    using kind_heads by (simp add: nth_append)
  ultimately have "take 18 (cstr (otel_line schema p) @ [0]) ! 17 \<noteq> take 18 (cstr (qlit ''{`k`:`otelmetric`'') @ [0]) ! 17"
    by simp
  then show "\<not> strncmp_eq (otel_line schema p) (qlit ''{`k`:`otelmetric`'') 18"
    unfolding strncmp_eq_def by force
qed

text \<open>C17. An OTLP metric point that arrives while the database is offline is acknowledged, but the line
  spilled for it is not recognised by the replay: its comparison looks at 18 bytes of a 17-byte
  prefix.  The replay reports success and does nothing, so the point never reaches the database.\<close>

theorem offline_otel_metric_never_stored:
  assumes "\<not> db_online b" "conn_ok pq (db_conn b2) w2"
  shows "(\<exists>b1 u1 w1. write_otel_metric pq p (b, u, w) = Inr (0, b1, u1, w1)) \<and>
    replay_line pq (otel_line (st_schema u) p) (b2, u2, w2) = Inr (0, b2, u2, w2)"
  using assms
  by (auto simp: write_otel_metric_def try_insert_def replay_line_def otel_line_kind split: prod.splits)

definition sample_point :: pw_metric_point where
  "sample_point = \<lparr>mp_label = lit ''web'', mp_service_name = lit ''svc'', mp_scope_name = [], mp_pid_key = [],
     mp_metric_name = lit ''load'', mp_description = [], mp_unit = [], mp_metric_type = lit ''gauge'',
     mp_value = dbl_of_int 1, mp_count = 1, mp_time_ns = 0, mp_attributes_json = []\<rparr>"

theorem offline_otel_metric_never_stored_witness:
  "replay_line mem_pq (otel_line (lit ''pw'') sample_point) (sample_buf, sample_state, mem_world) =
     Inr (0, sample_buf, sample_state, mem_world)"
proof -
  have "\<not> db_online (sample_buf\<lparr>db_online := False\<rparr>)" "conn_ok mem_pq (db_conn sample_buf) mem_world"
    by code_simp+
  moreover have "st_schema sample_state = lit ''pw''"
    by code_simp
  ultimately show ?thesis
    using offline_otel_metric_never_stored[of "sample_buf\<lparr>db_online := False\<rparr>" mem_pq sample_buf mem_world,
        where u = sample_state and p = sample_point and w = mem_world and ?u2.0 = sample_state] by simp
qed

section \<open>Spans\<close>

text \<open>What arrives of a field escaped into an array of one size and copied into one of another.\<close>

definition through :: "nat \<Rightarrow> nat \<Rightarrow> cstring \<Rightarrow> cstring" where
  "through ecap cap s = take (cap - 1) (if length (json_esc s) < ecap then kept s else [])"

lemma through_fit: "take (cap - 1) (kept (fit ecap s)) = through ecap cap s"
  by (simp add: through_def fit_def)

lemma through_printable: "printable cap s \<Longrightarrow> length (json_esc s) < ecap \<Longrightarrow> through ecap cap s = s"
  by (auto simp: through_def printable_def kept_clean)

definition span_storable :: "pw_span \<Rightarrow> bool" where
  "span_storable sp \<longleftrightarrow>
     validate_identifier (sp_label sp) \<and> printable 33 (sp_trace_id sp) \<and> printable 17 (sp_span_id sp) \<and>
     printable 17 (sp_parent_span_id sp) \<and> printable 20 (sp_kind sp) \<and> printable 20 (sp_status_code sp) \<and>
     is_cstr (sp_name sp) \<and> is_cstr (sp_service_name sp) \<and> is_cstr (sp_scope_name sp) \<and>
     is_cstr (sp_status_message sp) \<and> is_cstr (sp_attributes_json sp) \<and> \<bar>sint (sp_duration_ns sp)\<bar> < 2 ^ 53"

definition span_members :: "cstring \<Rightarrow> pw_span \<Rightarrow> (cstring \<times> cstring) list" where
  "span_members schema sp =
     [(lit ''k'', quoted (json_esc (lit ''span''))), (lit ''schema'', quoted (json_esc schema)),
      (lit ''label'', quoted (json_esc (sp_label sp))), (lit ''ts'', quoted (span_ts_buf sp)),
      (lit ''trace_id'', quoted (json_esc (sp_trace_id sp))), (lit ''span_id'', quoted (json_esc (sp_span_id sp))),
      (lit ''parent_span_id'', quoted (json_esc (sp_parent_span_id sp))),
      (lit ''name'', quoted (json_esc (fit 512 (sp_name sp)))), (lit ''kind'', quoted (json_esc (sp_kind sp))),
      (lit ''service_name'', quoted (json_esc (fit 512 (sp_service_name sp)))),
      (lit ''scope_name'', quoted (json_esc (fit 512 (sp_scope_name sp)))),
      (lit ''duration_ns'', dec_int (sint (sp_duration_ns sp))),
      (lit ''status_code'', quoted (json_esc (sp_status_code sp))),
      (lit ''status_message'', quoted (json_esc (fit 512 (sp_status_message sp)))),
      (lit ''attributes'', quoted (json_esc (fit 8192 (or_empty_object (sp_attributes_json sp)))))]"

lemma number_text_esc: "number_text s \<Longrightarrow> json_esc s = s"
proof (rule json_esc_plain)
  fix c assume "number_text s" "c \<in> set s"
  then show "json_rep c = None"
    by (auto simp: number_text_def json_rep_def is_digit_def word_le_nat_alt word_less_nat_alt)
qed

lemma number_text_ts: "number_text (span_ts_buf sp)" "length (span_ts_buf sp) < 64"
  by (simp_all add: span_ts_buf_def snprintf_s_def)

lemma span_line_members:
  assumes "validate_identifier schema" "span_storable sp"
  shows "span_line schema sp = json_line (span_members schema sp)" "members_ok (span_members schema sp)"
proof -
  have id: "validate_identifier (sp_label sp)"
    and p: "printable 33 (sp_trace_id sp)" "printable 17 (sp_span_id sp)" "printable 17 (sp_parent_span_id sp)"
      "printable 20 (sp_kind sp)" "printable 20 (sp_status_code sp)"
    and c: "0 \<notin> set (sp_name sp)" "0 \<notin> set (sp_service_name sp)" "0 \<notin> set (sp_scope_name sp)"
      "0 \<notin> set (sp_status_message sp)" "0 \<notin> set (sp_attributes_json sp)"
    and dur: "\<bar>sint (sp_duration_ns sp)\<bar> < 10 ^ 16"
    using assms(2) by (auto simp: span_storable_def is_cstr_def)
  have attrs: "0 \<notin> set (or_empty_object (sp_attributes_json sp))"
    using c(5) by (simp add: or_empty_object_def lit_def)
  note fits = printableD[OF p(1), of 80] printableD[OF p(2), of 40] printableD[OF p(3), of 40]
    printableD[OF p(4), of 40] printableD[OF p(5), of 40]
    printableD[OF identifier_plain(2)[OF id], of 200] printableD[OF identifier_plain(2)[OF assms(1)], of 200]
  have len: "length (json_esc s) \<le> 2 * cap" if "printable cap s" for s cap
    using that length_esc_printable[of s] by (force simp: printable_def)
  have "length (json_line (span_members schema sp)) < 16384"
    using len[OF p(1)] len[OF p(2)] len[OF p(3)] len[OF p(4)] len[OF p(5)] fits(24) fits(28) length_dec_int[OF dur]
      length_esc_fit[of 512 "sp_name sp"] length_esc_fit[of 512 "sp_service_name sp"]
      length_esc_fit[of 512 "sp_scope_name sp"] length_esc_fit[of 512 "sp_status_message sp"]
      length_esc_fit[of 8192 "or_empty_object (sp_attributes_json sp)"] number_text_ts(2)[of sp]
    by (simp add: json_line_def span_members_def identifier_plain(1)[OF id] identifier_plain(1)[OF assms(1)] kinds_plain)
  moreover have "span_line schema sp = snprintf_s 16384 (json_line (span_members schema sp))"
    by (simp add: span_line_def span_members_def fits kinds_plain identifier_plain(1)[OF assms(1)] esc_fit or_empty_object_def)
  ultimately show "span_line schema sp = json_line (span_members schema sp)"
    by simp
  have "value_ok (quoted (span_ts_buf sp))"
    using number_text_ts(1)[of sp] number_text_plain by (intro value_ok_plain) (auto simp: number_text_esc)
  then show "members_ok (span_members schema sp)"
    using fits c attrs by (simp add: members_ok_def span_members_def key_facts value_ok_quoted value_ok_number kinds_plain(4) fit_nul)
qed

lemma span_lookup:
  "map_of (span_members schema sp) (lit ''label'') = Some (quoted (json_esc (sp_label sp)))"
  "map_of (span_members schema sp) (lit ''trace_id'') = Some (quoted (json_esc (sp_trace_id sp)))"
  "map_of (span_members schema sp) (lit ''span_id'') = Some (quoted (json_esc (sp_span_id sp)))"
  "map_of (span_members schema sp) (lit ''parent_span_id'') = Some (quoted (json_esc (sp_parent_span_id sp)))"
  "map_of (span_members schema sp) (lit ''name'') = Some (quoted (json_esc (fit 512 (sp_name sp))))"
  "map_of (span_members schema sp) (lit ''kind'') = Some (quoted (json_esc (sp_kind sp)))"
  "map_of (span_members schema sp) (lit ''service_name'') = Some (quoted (json_esc (fit 512 (sp_service_name sp))))"
  "map_of (span_members schema sp) (lit ''scope_name'') = Some (quoted (json_esc (fit 512 (sp_scope_name sp))))"
  "map_of (span_members schema sp) (lit ''duration_ns'') = Some (dec_int (sint (sp_duration_ns sp)))"
  "map_of (span_members schema sp) (lit ''status_code'') = Some (quoted (json_esc (sp_status_code sp)))"
  "map_of (span_members schema sp) (lit ''status_message'') = Some (quoted (json_esc (fit 512 (sp_status_message sp))))"
  "map_of (span_members schema sp) (lit ''attributes'') =
     Some (quoted (json_esc (fit 8192 (or_empty_object (sp_attributes_json sp)))))"
  by (simp_all add: span_members_def)


definition sample_span :: pw_span where
  "sample_span = \<lparr>sp_label = lit ''web'', sp_trace_id = lit ''0af7'', sp_span_id = lit ''b7'', sp_parent_span_id = [],
     sp_name = lit ''GET /'', sp_service_name = lit ''svc'', sp_scope_name = [], sp_kind = lit ''SERVER'',
     sp_status_code = lit ''OK'', sp_status_message = [0x61, 0x0a, 0x62], sp_start_ns = 1000000000,
     sp_end_ns = 3500000000, sp_duration_ns = 2500000000, sp_attributes_json = [0x7b, 0x22, 0x6b, 0x22, 0x3a, 0x31, 0x7d]\<rparr>"


end
