(* ===== verification/SpillProps.thy ===== *)
theory SpillProps
  imports SpillSpec SampleDb
begin

text \<open>
  The properties of the spill buffer (\<^verbatim>\<open>src/db_buffer.c\<close>): order and completeness of the delivery,
  what survives I/O failures, and two ways a record is lost.
\<close>

section \<open>Concrete instances\<close>

definition spill_buf :: pw_db_buf where
  "spill_buf = \<lparr>db_conn = Some 0, db_conninfo = [], db_spill_path = lit ''/s'', db_online = True,
     db_last_reconnect_try = 0, db_reconnect_interval_sec = 5, db_spilled = 0, db_flushed = 0, db_spill_dropped = 0\<rparr>"

text \<open>A callback that takes a number of lines and then refuses, and one that ends the process.\<close>

definition take_some :: "(cstring list, nat) replay_fn" where
  "take_some line = (\<lambda>(b, n, w). if n = 0 then Inr (- 1, b, n, w) else Inr (0, b, n - 1, w))"

definition exits :: "(cstring list, nat) replay_fn" where
  "exits line = (\<lambda>(b, n, w). Inl w)"

lemma quiet_take_some: "quiet take_some"
  by (auto simp: quiet_def take_some_def)

lemma quiet_exits: "quiet exits"
  by (auto simp: quiet_def exits_def)

lemma spill_wf_sample: "spill_wf take_some (spill_buf, n, mem_world)"
  by (simp add: spill_wf_def quiet_take_some mem_world_def spill_buf_def file_content_def nl_ok_def lit_def)

section \<open>Delivery\<close>

text \<open>C2. Over any interleaving of spills and maintenance rounds without I/O failures, the records
  handed over and the records still in the file are together the records spilled, in order: a
  replay neither loses nor repeats nor reorders a record, whichever lines the callback refuses.\<close>

theorem spill_fifo:
  assumes "spill_wf fn s" "\<And>r. Put r \<in> set ops \<Longrightarrow> good_record r"
    and "run_log spill_put (spill_drain pq fn) ops s = Some (out, s1)"
  shows "spill_pending s @ puts_of ops = out @ spill_pending s1"
  using spill_log.fifo[OF assms] by simp

theorem spill_fifo_witness:
  "\<exists>s1. run_log spill_put (spill_drain mem_pq take_some) [Put (lit ''a''), Put (lit ''b''), Drain, Put (lit ''c'')]
      (spill_buf, 1, mem_world) = Some ([lit ''a''], s1) \<and> spill_pending s1 = [lit ''b'', lit ''c'']"
proof -
  let ?s = "(spill_buf, 1 :: nat, mem_world)" and ?ops = "[Put (lit ''a''), Put (lit ''b''), Drain, Put (lit ''c'')]"
  have "map_option fst (run_log spill_put (spill_drain mem_pq take_some) ?ops ?s) = Some [lit ''a'']"
    by code_simp
  then obtain s1 where run: "run_log spill_put (spill_drain mem_pq take_some) ?ops ?s = Some ([lit ''a''], s1)"
    by auto
  have good: "good_record r" if "Put r \<in> set ?ops" for r
    using that by (auto simp: good_record_def lit_def)
  have pend: "spill_pending ?s = []"
    by code_simp
  have "spill_pending ?s @ puts_of ?ops = [lit ''a''] @ spill_pending s1"
    by (rule spill_fifo[OF spill_wf_sample good run])
  then have "spill_pending s1 = [lit ''b'', lit ''c'']"
    unfolding pend by simp
  with run show ?thesis by blast
qed


definition two_records :: "nat option list \<Rightarrow> cstring list world" where
  "two_records faults =
     mem_world\<lparr>w_files := (\<lambda>p. if p = lit ''/s'' then Some [0x61, 0x0a, 0x62, 0x0a] else None), w_faults := faults\<rparr>"



definition take_any :: "(cstring list, nat) replay_fn" where
  "take_any line = (\<lambda>(b, n, w). Inr (0, b, n + 1, w))"


section \<open>Losses\<close>

text \<open>C8. When the process exits inside a replay, the records are left in the \<^verbatim>\<open>.flushing\<close> file; and the next
  flush on the same path, finding no spill file, removes that claim: none of the three files
  holds them any more.\<close>

theorem claim_of_exited_run_is_dropped:
  assumes "quiet fn" "length (db_spill_path b) < 512" "w_faults w = []"
    and exit: "pw_db_buf_flush pq (logged fn) (b, (u, []), w) = Inl w1" and "w_faults w1 = []"
    and b': "db_spill_path b' = db_spill_path b" "db_online b'" "conn_ok pq (db_conn b') w1"
  shows "file_content (db_spill_path b @ lit ''.flushing'') w1 = file_content (db_spill_path b) w \<and>
    (\<exists>w2. pw_db_buf_flush pq fn' (b', u', w1) = Inr (0, b', u', w2) \<and>
      w_files w2 (db_spill_path b) = None \<and> w_files w2 (db_spill_path b @ lit ''.flushing'') = None \<and>
      w_files w2 (db_spill_path b @ lit ''.rest'') = None)"
proof -
  let ?p = "db_spill_path b"
  let ?fl = "?p @ lit ''.flushing''" and ?rs = "?p @ lit ''.rest''"
  note comp = companions[OF assms(2)]
  have claim: "w_files w1 ?p = None" "w_files w1 ?fl = w_files w ?p"
    using exit assms(1,3) comp
    by (auto simp: pw_db_buf_flush_def Let_def fs_rename_def fs_open_read_def fs_read_all_def fun_eq_iff
        split: if_splits option.splits sum.splits prod.splits dest!: flush_loop_exit)
  have conn: "db_conn b' \<noteq> None"
    using b'(3) by (cases "db_conn b'") (simp_all add: conn_ok_def)
  show ?thesis
    using claim conn b' assms(5) comp fs_unlink_none[of w1 ?fl]
      fs_unlink_none[of "snd (fs_unlink ?fl w1)" ?rs]
    by (simp add: pw_db_buf_flush_def Let_def fs_rename_def file_content_def)
qed

theorem claim_of_exited_run_is_dropped_witness:
  "\<exists>w1. pw_db_buf_flush mem_pq (logged exits) (spill_buf, (0, []), two_records []) = Inl w1 \<and>
     file_content (lit ''/s.flushing'') w1 = [0x61, 0x0a, 0x62, 0x0a] \<and>
     (\<exists>w2. pw_db_buf_flush mem_pq take_some (spill_buf, 5, w1) = Inr (0, spill_buf, 5, w2) \<and>
        w_files w2 (lit ''/s.flushing'') = None)"
proof -
  have "map_sum (\<lambda>w. (w_faults w, conn_ok mem_pq (db_conn spill_buf) w)) (\<lambda>_. ())
      (pw_db_buf_flush mem_pq (logged exits) (spill_buf, (0, []), two_records [])) = Inl ([], True)"
    by code_simp
  then obtain w1 where run: "pw_db_buf_flush mem_pq (logged exits) (spill_buf, (0, []), two_records []) = Inl w1"
      and w1: "w_faults w1 = []" "conn_ok mem_pq (db_conn spill_buf) w1"
    by (cases "pw_db_buf_flush mem_pq (logged exits) (spill_buf, (0, []), two_records [])") auto
  have pre: "length (db_spill_path spill_buf) < 512" "w_faults (two_records []) = []" "db_online spill_buf"
    by code_simp+
  have fl: "db_spill_path spill_buf @ lit ''.flushing'' = lit ''/s.flushing''"
      "file_content (db_spill_path spill_buf) (two_records []) = [0x61, 0x0a, 0x62, 0x0a]"
    by code_simp+
  from claim_of_exited_run_is_dropped[OF quiet_exits pre(1,2) run w1(1) refl pre(3) w1(2), of take_some 5]
  show ?thesis
    using run by (auto simp: fl)
qed

text \<open>C9. A spill whose write fails after some bytes is reported as a failure, but its fragment stays
  in the file without a newline: the next spill, reported as a success, is glued to it, and a
  replay sees one damaged line instead of the second record.\<close>

theorem torn_spill_spoils_next:
  assumes "w_faults w = [None, Some k]" "nl_ok (file_content (db_spill_path b) w)" "0 \<notin> set (file_content (db_spill_path b) w)"
    and "good_record r" "good_record r2" "k \<le> length r"
  shows "\<exists>b1 w1 b2 w2. pw_db_buf_spill r b w = (- 1, b1, w1) \<and> pw_db_buf_spill r2 b1 w1 = (0, b2, w2) \<and>
    records (file_content (db_spill_path b) w2) = records (file_content (db_spill_path b) w) @ [take k r @ r2]"
proof -
  have good: "good_record (take k r @ r2)"
    using assms(4,5) set_take_subset[of k r] by (auto simp: good_record_def)
  show ?thesis
    using assms records_record[OF good, of "[]"]
    by (auto simp: pw_db_buf_spill_def fs_open_append_def fs_write_close_def next_fault_def fs_put_def
        file_content_def Let_def records_append split: option.splits)
qed

theorem torn_spill_spoils_next_witness:
  "\<exists>b1 w1 b2 w2. pw_db_buf_spill (lit ''abc'') spill_buf (two_records [None, Some 2]) = (- 1, b1, w1) \<and>
     pw_db_buf_spill (lit ''xyz'') b1 w1 = (0, b2, w2) \<and>
     records (file_content (lit ''/s'') w2) = [lit ''a'', lit ''b'', lit ''abxyz'']"
proof -
  have pre: "w_faults (two_records [None, Some 2]) = [None, Some 2]"
      "nl_ok (file_content (db_spill_path spill_buf) (two_records [None, Some 2]))"
      "0 \<notin> set (file_content (db_spill_path spill_buf) (two_records [None, Some 2]))"
      "good_record (lit ''abc'')" "good_record (lit ''xyz'')" "2 \<le> length (lit ''abc'')"
    by code_simp+
  have val: "db_spill_path spill_buf = lit ''/s''"
      "records (file_content (lit ''/s'') (two_records [None, Some 2])) @ [take 2 (lit ''abc'') @ lit ''xyz''] =
      [lit ''a'', lit ''b'', lit ''abxyz'']"
    by code_simp+
  from torn_spill_spoils_next[OF pre] show ?thesis
    unfolding val(1) val(2) .
qed

end
