(* ===== verification/WireProps.thy ===== *)
theory WireProps
  imports WireSpec
begin

text \<open>
  The properties of the wire-format reader of \<^verbatim>\<open>src/agent/pb_decode.c\<close>: an exact description of
  what a varint read accepts and yields, the round trips of tags and length-delimited fields, and
  the confinement of borrowed bytes and nested readers to the window they were read from.
\<close>

unbundle bit_operations_syntax

section \<open>Varints, exactly\<close>

text \<open>The length of the varint at the front: up to and including the first byte without bit 7.\<close>

fun varint_len :: "byte list \<Rightarrow> nat option" where
  "varint_len [] = None"
| "varint_len (b # bs) = (if b AND 0x80 = 0 then Some 1 else map_option Suc (varint_len bs))"

text \<open>Seven bits per byte, the first byte lowest.\<close>

fun varint_value :: "byte list \<Rightarrow> nat" where
  "varint_value [] = 0"
| "varint_value (b # bs) = unat (b AND 0x7f) + 128 * varint_value bs"

lemma varint_len_bound: "varint_len bs = Some n \<Longrightarrow> 0 < n \<and> n \<le> length bs"
  by (induction bs arbitrary: n) (auto split: if_splits)

lemma varint_value_step:
  "(word_of_nat (unat (b AND 0x7f) + 128 * m) :: 64 word) = ucast (b AND 0x7f :: byte) OR push_bit 7 (word_of_nat m)"
proof -
  have b: "unat (b AND 0x7f) < 128"
    by (rule word8_and_7f_bound)
  have "(word_of_nat (unat (b AND 0x7f) + 128 * m) :: 64 word) =
      word_of_nat ((unat (b AND 0x7f) + 128 * m) mod 128) OR
      push_bit 7 (word_of_nat ((unat (b AND 0x7f) + 128 * m) div 128))"
    using word_of_nat_split7 by metis
  then show ?thesis
    using b by simp
qed

lemma varint_loop_exact:
  "rd_ok r \<Longrightarrow>
   varint_loop k r acc shift =
     map_option (\<lambda>n. (acc OR push_bit shift (word_of_nat (varint_value (take n (rd_view r)))), rd_adv n r))
       (varint_len (take k (rd_view r)))"
proof (induction k arbitrary: r acc shift)
  case (Suc k)
  show ?case
  proof (cases "rd_view r")
    case Nil
    then show ?thesis
      using rd_view_Nil[OF Suc.prems] by simp
  next
    case (Cons b bs)
    note v = rd_view_Cons[OF Suc.prems Cons]
    have IH: "varint_loop k (rd_adv 1 r) (acc OR push_bit shift (ucast (b AND 0x7f))) (shift + 7) =
      map_option (\<lambda>n. (acc OR push_bit shift (ucast (b AND 0x7f)) OR
          push_bit (shift + 7) (word_of_nat (varint_value (take n bs))), rd_adv (Suc n) r))
        (varint_len (take k bs))"
      using Suc.IH[OF v(3)] v(4) by (simp add: or.assoc)
    have step: "push_bit shift (ucast (b AND 0x7f)) OR push_bit (shift + 7) (word_of_nat m) =
        push_bit shift (word_of_nat (unat (b AND 0x7f) + 128 * m) :: 64 word)" for m
      unfolding varint_value_step by (simp add: push_bit_or push_bit_push_bit add.commute)
    have last: "(ucast (b AND 0x7f) :: 64 word) = word_of_nat (unat (b AND 0x7f))"
      using varint_value_step[of b 0] by simp
    show ?thesis
    proof (cases "b AND 0x80 = 0")
      case True
      then show ?thesis
        using v Cons last by simp
    next
      case False
      then have "varint_loop (Suc k) r acc shift =
          varint_loop k (rd_adv 1 r) (acc OR push_bit shift (ucast (b AND 0x7f))) (shift + 7)"
        using v by (simp add: Let_def)
      also have "\<dots> = map_option (\<lambda>n. (acc OR
            push_bit shift (word_of_nat (unat (b AND 0x7f) + 128 * varint_value (take n bs))), rd_adv (Suc n) r))
          (varint_len (take k bs))"
        unfolding IH by (simp only: or.assoc step)
      finally show ?thesis
        using False Cons by (simp add: option.map_comp comp_def)
    qed
  qed
qed simp

text \<open>C10. A varint read succeeds exactly when one of the next ten bytes ends the varint inside the
  window; it then consumes up to that byte and yields the seven-bit groups, least significant
  first, modulo \<open>2 ^ 64\<close>.  In every other case (truncation, or ten continuation bytes) it fails.\<close>

theorem pb_varint_exact:
  assumes "rd_ok r"
  shows "pb_varint r =
    map_option (\<lambda>n. (word_of_nat (varint_value (take n (rd_view r))), rd_adv n r))
      (varint_len (take 10 (rd_view r)))"
  using varint_loop_exact[OF assms, of 10 0 0] by (simp add: pb_varint_def PB_VARINT_MAX_BYTES_def)

theorem pb_varint_exact_witness:
  "pb_varint (pb_reader_init [0xac, 0x02, 0x07] 0 3) = Some (300, rd_adv 2 (pb_reader_init [0xac, 0x02, 0x07] 0 3))"
proof -
  have "rd_ok (pb_reader_init [0xac, 0x02, 0x07] 0 3)" by code_simp
  from pb_varint_exact[OF this] show ?thesis
    by (simp add: rd_view_def rd_left_def pb_reader_init_def)
qed

section \<open>Round trips\<close>

text \<open>C11. Every 64-bit value survives encoding as a varint and decoding, whatever follows it, and the
  reader stands right behind the encoding.\<close>

theorem pb_varint_roundtrip:
  assumes "n < 2 ^ 64" and "rd_ok r" and "rd_view r = enc_varint n @ rest"
  shows "\<exists>r'. pb_varint r = Some (word_of_nat n, r') \<and> rd_ok r' \<and> rd_view r' = rest"
  using pb_varint_enc[of n r rest] varint.ok[OF assms(2)] assms
  by (auto simp: reads_as_def rd_view_adv)

theorem pb_varint_roundtrip_witness:
  "\<exists>r'. pb_varint (pb_reader_init [0xac, 0x02, 0x07] 0 3) = Some (word_of_nat 300, r') \<and> rd_ok r' \<and> rd_view r' = [0x07]"
proof -
  have "rd_ok (pb_reader_init [0xac, 0x02, 0x07] 0 3)" by code_simp
  moreover have "rd_view (pb_reader_init [0xac, 0x02, 0x07] 0 3) = enc_varint 300 @ [0x07]" by code_simp
  ultimately show ?thesis
    by (intro pb_varint_roundtrip[of 300]) simp_all
qed

text \<open>C12. A length-delimited field written with its tag is read back by \<open>pb_next\<close> and \<open>pb_submsg\<close>: the tag,
  a nested reader that sees exactly the payload, and the parent reader behind the field.\<close>

theorem pb_field_roundtrip:
  assumes view: "rd_ok r" "rd_view r = enc_field f bs @ rest"
    and f: "0 < f" "f < 2 ^ 29" and len: "length bs < 2 ^ 64"
  shows "\<exists>r1 sub r2. pb_next r = PbTag \<lparr>tag_field = word_of_nat f, tag_wire = PB_WIRE_BYTES\<rparr> r1 \<and>
    pb_submsg r1 = Some (sub, r2) \<and> rd_ok sub \<and> rd_view sub = bs \<and> rd_ok r2 \<and> rd_view r2 = rest"
proof -
  have r: "reads_as r (enc_tag f 2) (enc_bytes bs @ rest)"
    using view by (simp add: reads_as_def enc_field_def)
  let ?r1 = "rd_adv (length (enc_tag f 2)) r"
  have n: "pb_next r = PbTag (tag_of f 2) ?r1"
    using r f by (intro pb_next_enc) auto
  have r1: "reads_as ?r1 (enc_bytes bs) rest"
    using view reads_as_adv[of r "enc_tag f 2" "enc_bytes bs" rest] by (simp add: reads_as_def enc_field_def)
  obtain sub where s: "pb_submsg ?r1 = Some (sub, rd_adv (length (enc_bytes bs)) ?r1)" "reads_as sub bs []"
    using r1 len by (rule pb_submsg_enc)
  have "reads_as (rd_adv (length (enc_bytes bs)) ?r1) [] rest"
    using r1 reads_as_adv[of ?r1 "enc_bytes bs" "[]" rest] by simp
  then show ?thesis
    using n s by (auto simp: tag_of_def reads_as_def)
qed

theorem pb_field_roundtrip_witness:
  "\<exists>r1 sub r2. pb_next (pb_reader_init [0x0a, 0x02, 0x68, 0x69, 0x10] 0 5) =
      PbTag \<lparr>tag_field = word_of_nat 1, tag_wire = PB_WIRE_BYTES\<rparr> r1 \<and>
    pb_submsg r1 = Some (sub, r2) \<and> rd_ok sub \<and> rd_view sub = [0x68, 0x69] \<and> rd_ok r2 \<and> rd_view r2 = [0x10]"
proof -
  have "rd_ok (pb_reader_init [0x0a, 0x02, 0x68, 0x69, 0x10] 0 5)" by code_simp
  moreover have "rd_view (pb_reader_init [0x0a, 0x02, 0x68, 0x69, 0x10] 0 5) = enc_field 1 [0x68, 0x69] @ [0x10]"
    by code_simp
  ultimately show ?thesis
    by (intro pb_field_roundtrip) simp_all
qed

section \<open>Confinement\<close>

text \<open>C13. A nested reader and the parent behind it stay inside the parent's window, over the same buffer,
  and do not overlap; so no read of a submessage leaves the bytes of the payload.\<close>

theorem pb_submsg_confined:
  assumes "rd_ok r" and "pb_submsg r = Some (sub, r')"
  shows "rd_within sub r \<and> rd_within r' r \<and> rd_ok sub \<and> rd_ok r' \<and> rd_end sub \<le> rd_ptr r' \<and>
    rd_left sub < rd_left r"
proof -
  have "rd_end sub \<le> rd_ptr r'"
    using assms(2) by (auto simp: pb_submsg_def pb_bytes_def pb_reader_init_def split: option.splits if_splits)
  then show ?thesis
    using pb_submsg_within[OF assms] submsg.within[OF assms] assms(1) rd_within_ok by blast
qed

theorem pb_submsg_confined_witness:
  "rd_within (pb_reader_init [0x02, 0x68, 0x69, 0x10] 1 2) (pb_reader_init [0x02, 0x68, 0x69, 0x10] 0 4)"
proof -
  have "rd_ok (pb_reader_init [0x02, 0x68, 0x69, 0x10] 0 4)" by code_simp
  moreover have "pb_submsg (pb_reader_init [0x02, 0x68, 0x69, 0x10] 0 4) =
      Some (pb_reader_init [0x02, 0x68, 0x69, 0x10] 1 2, rd_adv 3 (pb_reader_init [0x02, 0x68, 0x69, 0x10] 0 4))"
    by code_simp
  ultimately show ?thesis
    by (rule pb_submsg_confined[THEN conjunct1])
qed

end
