(* ===== verification/Spec2Isabelle.thy ===== *)
theory Spec2Isabelle
  imports AgentProps AgentRun Agentd AttrProps AttrSpec CDouble CNumber CallbackProps CleanText Db DbFrame DbOtlp Environ HttpInv HttpProps HttpServer Inject InjectProps JsonLine JsonScan LineFields MetricProps Monitor MonitorProps MonitorRound Net NumText OtlpCommon OtlpForward OtlpMetric OtlpTrace PbDecode Prelude ProcPush ProcPushProps ProcScan ReplayProps SampleAgent SampleDb SbLemmas SpillBuffer SpillCount SpillProps SpillSpec TraceProps TraceSpec TreeWalk Util WireProps WireSpec World Wrap WrapProps
begin

text \<open>
  procwatch records what processes cost and what they report.  A daemon (\<^verbatim>\<open>procwatch-agentd\<close>) takes traces, metrics and
  process samples over HTTP and stores them in PostgreSQL; a preload library attaches OpenTelemetry agents to programs and
  pushes samples of them; a wrapper does the latter for a tree of processes; the older monitor samples a tree straight into
  the database.  Daemon and monitor write to a spill file while the database is away and replay it later.

  \<^bold>\<open>The model.\<close>  Every C function is a HOL function; a struct is a record, an enum a datatype, \<^verbatim>\<open>uint64_t\<close> and
  \<^verbatim>\<open>unsigned long long\<close> are \<open>64 word\<close>, \<^verbatim>\<open>int\<close> and \<^verbatim>\<open>long\<close> are \<open>int\<close> with the conversions written out, bytes are \<open>8 word\<close>
  and C strings byte lists.  Doubles (\<open>CDouble\<close>) are the 64 bits of the IEEE format with conversion, product, quotient and
  rounding computed exactly.  State is passed explicitly; \<open>World\<close> holds the files, a script of failures for the next file
  operations, the clock, the environment and the server state; \<^verbatim>\<open>exit\<close> is \<open>Inl\<close> of the world it leaves, so a caller's
  \<open>and_then\<close> stops there.  Code outside the repository is a parameter: \<open>libpq\<close> (the database client), \<open>net\<close> (sockets),
  \<open>procfs\<close>, \<open>sysconf\<close>, zlib, the dynamic linker, \<^verbatim>\<open>poll\<close> and \<^verbatim>\<open>accept\<close>.

  \<^bold>\<open>Theories.\<close>
  \<^item> \<open>Prelude\<close>, \<open>World\<close>, \<open>Util\<close>, \<open>CDouble\<close>, \<open>CNumber\<close>, \<open>NumText\<close>: bytes and strings, the outside world, \<^verbatim>\<open>src/util.c\<close> and
    \<^verbatim>\<open>pw_json_escape\<close>, \<^verbatim>\<open>strtod\<close>/\<^verbatim>\<open>strtoull\<close>/\<^verbatim>\<open>atoi\<close> and the printf conversions, with their read-back lemmas.
  \<^item> \<open>PbDecode\<close> (\<^verbatim>\<open>agent/pb_decode.c\<close>), \<open>OtlpCommon\<close> (\<^verbatim>\<open>agent/otlp_common.c\<close>), \<open>OtlpTrace\<close>, \<open>OtlpMetric\<close> (the two decoders of
    \<^verbatim>\<open>agent/otlp_trace.c\<close> and \<^verbatim>\<open>agent/otlp_metric.c\<close>).  Their specifications are in \<open>WireSpec\<close> (encoder), \<open>WireProps\<close>,
    \<open>AttrSpec\<close> (attribute trees and their JSON), \<open>AttrProps\<close>, \<open>SbLemmas\<close>, \<open>CleanText\<close>, \<open>TraceProps\<close>, \<open>TraceSpec\<close>.
  \<^item> \<open>SpillBuffer\<close> (\<^verbatim>\<open>src/db_buffer.c\<close>); \<open>SpillSpec\<close> has the abstract first-in first-out log and the refinement, and
    \<open>SpillProps\<close> the properties with and without I/O failures.
  \<^item> \<open>Db\<close> (\<^verbatim>\<open>src/db.c\<close>), \<open>DbOtlp\<close> (\<^verbatim>\<open>agent/db_otlp.c\<close>): the statements sent, in order; \<open>DbFrame\<close>: they leave the files alone.
  \<^item> \<open>Net\<close>, \<open>OtlpForward\<close> (\<^verbatim>\<open>agent/otlp_forward.c\<close>), \<open>HttpServer\<close> (\<^verbatim>\<open>agent/http_server.c\<close>).
  \<^item> \<open>JsonScan\<close>, \<open>JsonLine\<close>, \<open>LineFields\<close>: the line format and the readers of its members; \<open>Agentd\<close> (\<^verbatim>\<open>agent/agentd.c\<close>)
    stores, spills, replays and runs the loop; \<open>ReplayProps\<close> has the round trips of a line, \<open>CallbackProps\<close> the contract the
    replay callbacks keep towards the spill buffer.
  \<^item> \<open>ProcScan\<close> (\<^verbatim>\<open>src/proc_scan.c\<close>), \<open>ProcPush\<close> (\<^verbatim>\<open>common/proc_push.c\<close>), \<open>ProcPushProps\<close>.
  \<^item> \<open>Environ\<close>, \<open>Inject\<close> (the five files of \<^verbatim>\<open>src/inject\<close>), \<open>InjectProps\<close>.
  \<^item> \<open>TreeWalk\<close> (the walk and the table of processor times that \<^verbatim>\<open>main.c\<close> and \<^verbatim>\<open>wrap.c\<close> share), \<open>Wrap\<close>, \<open>WrapProps\<close>,
    \<open>Monitor\<close>, \<open>MonitorProps\<close>, \<open>MonitorRound\<close>.
  \<^item> \<open>SampleDb\<close>, \<open>SampleAgent\<close>: the concrete server and daemon of the witnesses.
  \<^item> \<open>MetricProps\<close>: the metric decoder's contract; \<open>AgentProps\<close>: the daemon as the decoders' consumer, its bookkeeping.
  \<^bold>\<open>Interfaces.\<close>  \<open>wire_read\<close> (a reader consumes what it returns; interpreted by each reader of \<open>PbDecode\<close>), \<open>builder_inv\<close>
  (what every operation of the string builder keeps; interpreted by its bounds and by the absence of control characters),
  \<open>record_log\<close> (interpreted by the spill buffer), \<open>environment\<close> (interpreted by the modelled \<^verbatim>\<open>getenv\<close>/\<^verbatim>\<open>setenv\<close>), \<open>span_consumer\<close> and
  \<open>point_consumer\<close> (what a sink owes the decoders; interpreted by the daemon's sinks).

  \<^bold>\<open>What is shown.\<close>  The trace decoder delivers exactly the spans of an encoded request; attribute trees come out as their
  JSON text, never beyond the buffer; varints and fields round-trip and nested readers stay in their window.  The spill
  buffer is a log that loses nothing under any script of file failures during a flush, with the three situations in
  which the code does lose records stated as theorems.  A spilled line is replayed as the record it came from; an
  \<^verbatim>\<open>otelmetric\<close> line never is.  What the push client writes is what the daemon stores.  The readers of \<^verbatim>\<open>/proc\<close> are exact on
  the kernel's format, the sampler of the preload library is not.  The constructor of the library is idempotent
  across \<^verbatim>\<open>exec\<close> and the interposed calls keep the caller's settings.  A walk over the process tree visits the reachable
  processes once; rounds of wrapper and monitor refine updates of a map, and a row of a round is stored or spilled.  The
  daemon books every record of every request once, as inserted, spilled or dropped, and answers whatever it gets while offline.

  \<^bold>\<open>Termination.\<close>  No definition uses fuel: loops over readers and strings are recursive in what is left to read, the walk over
  the tree in the processes not yet queued (a child list is finite because a file is), the C loops that run until a signal
  are recursive in the list of the inputs of their turns.

  \<^bold>\<open>Not modelled.\<close>  Messages on stderr and usage texts; set-up of signals, of the listening socket and of the spill directory;
  \<^verbatim>\<open>fork\<close>, \<^verbatim>\<open>execl\<close> and \<^verbatim>\<open>getopt\<close> (their results are inputs); failures of \<^verbatim>\<open>realloc\<close> outside the HTTP server; locking, as
  every process is single-threaded but for the metric thread, which shares nothing with its program; the SQL server's
  own semantics, as \<open>libpq\<close> is a parameter.
\<close>

end
